(* ===== verification/Os44_Prelude.thy ===== *)
theory Os44_Prelude
  imports Main "HOL-Library.Word" "HOL-Library.Monad_Syntax"
begin

unbundle bit_operations_syntax

section \<open>Shared types, bytes and word lemmas\<close>

text \<open>
  What every component of the model shares: the machine integers of the C code
  (\<open>uint8_t\<close>, \<open>uint16_t\<close>, \<open>uint32_t\<close>, \<open>uint64_t\<close>, all wrapping), the little-endian
  encoding of a word as bytes, and generic facts about words and bounded counting loops.
  The collection \<open>os44_simps\<close> gathers the rewrite rules the component proofs share.
\<close>

type_synonym u8 = "8 word"
type_synonym u16 = "16 word"
type_synonym u32 = "32 word"
type_synonym u64 = "64 word"

named_theorems os44_simps "rewrite rules shared by the component proofs"

subsection \<open>Little-endian bytes\<close>

fun le_bytes :: "nat \<Rightarrow> 'a::len word \<Rightarrow> u8 list" where
  "le_bytes 0 w = []"
| "le_bytes (Suc n) w = ucast w # le_bytes n (drop_bit 8 w)"

fun le_word :: "u8 list \<Rightarrow> 'a::len word" where
  "le_word [] = 0"
| "le_word (b # bs) = ucast b OR push_bit 8 (le_word bs)"

lemma length_le_bytes [simp]: "length (le_bytes n w) = n"
  by (induction n arbitrary: w) auto

lemma nth_le_bytes: "i < n \<Longrightarrow> le_bytes n w ! i = ucast (drop_bit (8 * i) w)"
proof (induction n arbitrary: i w)
  case 0
  then show ?case by simp
next
  case (Suc n)
  then show ?case by (cases i) (simp_all add: algebra_simps)
qed

lemma bit_le_word:
  "bit (le_word bs :: 'a::len word) n \<longleftrightarrow>
     n < LENGTH('a) \<and> n div 8 < length bs \<and> bit (bs ! (n div 8)) (n mod 8)"
proof (induction bs arbitrary: n)
  case Nil
  then show ?case by simp
next
  case (Cons b bs)
  show ?case
  proof (cases "n < 8")
    case True
    then show ?thesis
      by (auto simp: bit_or_iff bit_push_bit_iff bit_unsigned_iff dest: bit_imp_le_length)
  next
    case False
    then have d: "n div 8 = Suc ((n - 8) div 8)" "n mod 8 = (n - 8) mod 8"
      by (simp_all add: le_div_geq le_mod_geq)
    have "\<not> bit b n"
      using False by (auto dest: bit_imp_le_length)
    then show ?thesis
      using False by (auto simp: bit_or_iff bit_push_bit_iff bit_unsigned_iff Cons.IH d)
  qed
qed

lemma le_word_le_bytes:
  fixes w :: "'a::len word"
  assumes "LENGTH('a) \<le> 8 * n"
  shows "le_word (le_bytes n w) = w"
proof (rule bit_word_eqI)
  fix k
  assume k: "k < LENGTH('a)"
  then have "k div 8 < n" using assms by linarith
  moreover have "8 * (k div 8) + k mod 8 = k" by simp
  ultimately show "bit (le_word (le_bytes n w) :: 'a word) k = bit w k"
    using k by (simp add: bit_le_word nth_le_bytes bit_unsigned_iff bit_drop_bit_eq)
qed

lemma byte_le_word:
  assumes "j < length bs" "8 * j + 8 \<le> LENGTH('a)"
  shows "(ucast (drop_bit (8 * j) (le_word bs :: 'a::len word)) :: u8) = bs ! j"
proof (rule bit_word_eqI)
  fix k
  assume k: "k < LENGTH(8)"
  then have "(8 * j + k) div 8 = j" "(8 * j + k) mod 8 = k" by simp_all
  then show "bit (ucast (drop_bit (8 * j) (le_word bs :: 'a word)) :: u8) k = bit (bs ! j) k"
    using k assms by (simp add: bit_unsigned_iff bit_drop_bit_eq bit_le_word)
qed

lemma bind_returns:
  "\<exists>x. m = Some x \<Longrightarrow> (\<And>x. \<exists>y. f x = Some y) \<Longrightarrow> \<exists>y. Option.bind m f = Some y"
  by auto

text \<open>A computation that returns, with a result that satisfies \<open>P\<close>.\<close>

definition succeeds :: "'a option \<Rightarrow> ('a \<Rightarrow> bool) \<Rightarrow> bool" where
  "succeeds m P \<longleftrightarrow> (\<exists>x. m = Some x \<and> P x)"

lemma succeeds_Some [simp]: "succeeds (Some x) P = P x"
  by (simp add: succeeds_def)

lemma succeeds_bind:
  "succeeds m P \<Longrightarrow> (\<And>x. P x \<Longrightarrow> succeeds (f x) Q) \<Longrightarrow> succeeds (Option.bind m f) Q"
  by (auto simp: succeeds_def)

lemma succeeds_pair:
  "P (snd p) \<Longrightarrow> (\<And>y s. P s \<Longrightarrow> succeeds (f y s) Q) \<Longrightarrow> succeeds (case p of (y, s) \<Rightarrow> f y s) Q"
  by (cases p) simp

lemma pair_Some: "P s \<Longrightarrow> succeeds (Some (y, s)) (\<lambda>p. P (snd p))"
  by simp

lemma if_snd: "P (snd p) \<Longrightarrow> P s \<Longrightarrow> P (snd (if c then p else (y, s)))"
  by simp

lemma succeeds_mono: "succeeds m P \<Longrightarrow> (\<And>x. P x \<Longrightarrow> Q x) \<Longrightarrow> succeeds m Q"
  by (auto simp: succeeds_def)

lemma fold_keeps: "P s \<Longrightarrow> (\<And>i t. P t \<Longrightarrow> P (step i t)) \<Longrightarrow> P (fold step is s)"
  by (induction "is" arbitrary: s) auto

subsection \<open>Words\<close>

text \<open>Bytes as eight bits, for closed facts about masks.\<close>

lemma u8_eq_iff:
  "(x :: u8) = y \<longleftrightarrow> (bit x 0 \<longleftrightarrow> bit y 0) \<and> (bit x 1 \<longleftrightarrow> bit y 1) \<and> (bit x 2 \<longleftrightarrow> bit y 2) \<and>
     (bit x 3 \<longleftrightarrow> bit y 3) \<and> (bit x 4 \<longleftrightarrow> bit y 4) \<and> (bit x 5 \<longleftrightarrow> bit y 5) \<and>
     (bit x 6 \<longleftrightarrow> bit y 6) \<and> (bit x 7 \<longleftrightarrow> bit y 7)"
proof -
  have "(\<forall>n < 8. P n) \<longleftrightarrow> P 0 \<and> P 1 \<and> P 2 \<and> P 3 \<and> P 4 \<and> P 5 \<and> P 6 \<and> P (7 :: nat)" for P
    by (simp add: numeral_eq_Suc All_less_Suc) blast
  then show ?thesis by (simp add: bit_eq_iff)
qed

lemma unat_u64_bound: "unat (x :: u64) < 2 ^ 64"
  by (rule order_less_le_trans [OF unsigned_less]) simp

lemma unat_minus_1_u64: "unat (- 1 :: u64) = 2 ^ 64 - 1"
  by (simp add: unsigned_minus_1_eq_mask mask_eq_exp_minus_1)

lemma unat_inc_u64: "x \<noteq> - 1 \<Longrightarrow> unat (x + 1 :: u64) = Suc (unat x)"
  using unatSuc [of x] by (simp add: add.commute eq_neg_iff_add_eq_0)

lemma bit_bound_word:
  assumes "unat w < 2 ^ n" "bit w k"
  shows "k < n"
proof -
  have "take_bit n (unat w) = unat w" using assms(1) by (rule take_bit_nat_eq_self)
  moreover have "bit (unat w) k" using assms(2) by (simp add: bit_unsigned_iff)
  ultimately show ?thesis by (metis bit_take_bit_iff)
qed

lemma unat_add_of_nat:
  fixes a :: u64
  assumes "unat a + k < 2 ^ 64"
  shows "unat (a + of_nat k) = unat a + k"
  using assms by (simp add: unat_word_ariths unat_of_nat)

lemma unat_of_nat_u64: "k < 2 ^ 64 \<Longrightarrow> unat (of_nat k :: u64) = k"
  by (simp add: unat_of_nat)

lemma unat_sub_self_add:
  fixes a :: u64
  shows "k < 2 ^ 64 \<Longrightarrow> unat (a + of_nat k - a) = k"
  by (simp add: unat_of_nat)

lemma add_unat_sub:
  fixes a b :: u64
  shows "a + of_nat (unat (b - a)) = b"
  by simp

lemma unat_sub_eq_iff:
  fixes x p :: u64
  assumes "k < 2 ^ 64"
  shows "unat (x - p) = k \<longleftrightarrow> x = p + of_nat k"
  using assms unat_sub_self_add [of k p] add_unat_sub [of p x] by metis

lemma unat_sub_shift:
  fixes x p :: u64
  assumes "k + n \<le> 2 ^ 64" "k < 2 ^ 64"
  shows "unat (x - (p + of_nat k)) < n \<longleftrightarrow> k \<le> unat (x - p) \<and> unat (x - p) < k + n"
    and "k \<le> unat (x - p) \<Longrightarrow> unat (x - (p + of_nat k)) = unat (x - p) - k"
proof -
  have eq: "x - (p + of_nat k) = (x - p) - of_nat k" by simp
  have u: "unat (of_nat k :: u64) = k" using assms(2) by (rule unat_of_nat_u64)
  show sub: "k \<le> unat (x - p) \<Longrightarrow> unat (x - (p + of_nat k)) = unat (x - p) - k"
    unfolding eq by (simp add: unat_sub_if_size u)
  show "unat (x - (p + of_nat k)) < n \<longleftrightarrow> k \<le> unat (x - p) \<and> unat (x - p) < k + n"
  proof (cases "k \<le> unat (x - p)")
    case True
    then show ?thesis by (auto simp: sub)
  next
    case False
    then have "unat (x - (p + of_nat k)) = unat (x - p) + 2 ^ 64 - k"
      unfolding eq by (simp add: unat_sub_if_size u word_size)
    then show ?thesis using False assms by linarith
  qed
qed

lemma of_nat_neq_u64:
  "i < 2 ^ 64 \<Longrightarrow> j < 2 ^ 64 \<Longrightarrow> (of_nat i :: u64) = of_nat j \<longleftrightarrow> i = j"
  by (metis unat_of_nat_u64)

lemma word_of_nat_less_u64: "n < unat (x :: u64) \<Longrightarrow> of_nat n < x"
  using unat_u64_bound [of x] by (simp add: word_less_nat_alt unat_of_nat_u64)

end
