(* ===== verification/Machine.thy ===== *)
theory Machine
  imports Os44_Prelude
begin

section \<open>The machine: physical memory and I/O ports\<close>

text \<open>
  The kernel runs identity-mapped (\<open>mem.c\<close>: "With identity mapping, just find physical
  frames"), so a pointer the kernel dereferences is a physical address. Memory is a total
  function from addresses to bytes; \<open>uint64_t\<close> and \<open>uint32_t\<close> accesses are little-endian
  and may overlap each other, as the page-table code makes them do.

  Port reads come from devices that are not under \<open>src/\<close>: the environment \<open>E\<close>, a
  parameter of every operation that reads a port, gives the value of a read from the history
  of all port accesses so far (newest first) and the port. Writes and reads are recorded in
  that history, which is the observable behaviour of the drivers.
\<close>

type_synonym ram = "u64 \<Rightarrow> u8"

datatype io_event =
    OutB u16 u8
  | OutW u16 u16
  | OutL u16 u32
  | InB u16 u8
  | InW u16 u16
  | InL u16 u32

type_synonym io_env = "io_event list \<Rightarrow> u16 \<Rightarrow> u32"

record machine =
  ram :: ram
  io_trace :: "io_event list"

subsection \<open>Byte ranges\<close>

fun store_bytes :: "u64 \<Rightarrow> u8 list \<Rightarrow> ram \<Rightarrow> ram" where
  "store_bytes a [] m = m"
| "store_bytes a (b # bs) m = store_bytes (a + 1) bs (m(a := b))"

definition load_bytes :: "nat \<Rightarrow> u64 \<Rightarrow> ram \<Rightarrow> u8 list" where
  "load_bytes n a m = map (\<lambda>i. m (a + of_nat i)) [0..<n]"

definition load64 :: "ram \<Rightarrow> u64 \<Rightarrow> u64" where
  "load64 m a = le_word (load_bytes 8 a m)"

definition store64 :: "u64 \<Rightarrow> u64 \<Rightarrow> ram \<Rightarrow> ram" where
  "store64 a v m = store_bytes a (le_bytes 8 v) m"

definition load32 :: "ram \<Rightarrow> u64 \<Rightarrow> u32" where
  "load32 m a = le_word (load_bytes 4 a m)"

definition store32 :: "u64 \<Rightarrow> u32 \<Rightarrow> ram \<Rightarrow> ram" where
  "store32 a v m = store_bytes a (le_bytes 4 v) m"

text \<open>The bytes \<open>[a, a + n)\<close> and \<open>[b, b + k)\<close>, modulo \<open>2 ^ 64\<close>, do not meet.\<close>

definition disj_range :: "u64 \<Rightarrow> nat \<Rightarrow> u64 \<Rightarrow> nat \<Rightarrow> bool" where
  "disj_range a n b k \<longleftrightarrow> n \<le> unat (b - a) \<and> k \<le> unat (a - b)"

lemma disj_range_sym: "disj_range a n b k \<longleftrightarrow> disj_range b k a n"
  by (auto simp: disj_range_def)

lemma length_load_bytes [simp]: "length (load_bytes n a m) = n"
  by (simp add: load_bytes_def)

lemma nth_load_bytes: "i < n \<Longrightarrow> load_bytes n a m ! i = m (a + of_nat i)"
  by (simp add: load_bytes_def)

lemma store_bytes_apply:
  assumes "length bs \<le> 2 ^ 64"
  shows "store_bytes a bs m x = (if unat (x - a) < length bs then bs ! unat (x - a) else m x)"
  using assms
proof (induction bs arbitrary: a m)
  case Nil
  then show ?case by simp
next
  case (Cons b bs)
  have len: "length bs < 2 ^ 64" using Cons.prems by simp
  then have IH: "store_bytes a (b # bs) m x =
      (if unat (x - (a + 1)) < length bs then bs ! unat (x - (a + 1)) else (m(a := b)) x)"
    using Cons.IH [of "a + 1" "m(a := b)"] by (simp only: store_bytes.simps less_imp_le)
  show ?case
  proof (cases "x = a")
    case True
    then show ?thesis unfolding IH using len by (simp add: unat_minus_1_u64)
  next
    case False
    then have "0 < unat (x - a)" by (simp add: unat_gt_0)
    then have "unat (x - a) = Suc (unat (x - (a + 1)))"
      using unat_minus_one [of "x - a"] False by (simp add: diff_diff_eq)
    then show ?thesis unfolding IH using False by simp
  qed
qed

lemma store_bytes_outside:
  "length bs \<le> 2 ^ 64 \<Longrightarrow> length bs \<le> unat (x - a) \<Longrightarrow> store_bytes a bs m x = m x"
  by (simp add: store_bytes_apply)

lemma load_store_same:
  "length bs \<le> 2 ^ 64 \<Longrightarrow> load_bytes (length bs) a (store_bytes a bs m) = bs"
  by (rule nth_equalityI) (simp_all add: nth_load_bytes store_bytes_apply unat_of_nat)

lemma disj_range_offset:
  assumes "disj_range a n b k" "i < k"
  shows "n \<le> unat (b + of_nat i - a)"
proof (rule ccontr)
  assume "\<not> n \<le> unat (b + of_nat i - a)"
  then have less: "unat (b + of_nat i - a) < unat (b - a)"
    using assms by (simp add: disj_range_def)
  have k: "k < 2 ^ 64" using assms unat_u64_bound [of "a - b"] by (simp add: disj_range_def)
  have i: "unat (of_nat i :: u64) = i"
    using assms(2) k by (intro unat_of_nat_u64) simp
  have "b + of_nat i - a = (b - a) + of_nat i" by simp
  then have over: "\<not> unat (b - a) + i < 2 ^ 64"
    using less unat_add_of_nat [of "b - a" i] by (auto simp: add_diff_eq diff_add_eq)
  have "a \<noteq> b" using over assms(2) k by auto
  then have ne: "unat a \<noteq> unat b" by (simp add: word_unat_eq_iff)
  then have "unat (a - b) = 2 ^ 64 - unat (b - a)"
    using unat_u64_bound [of a] unat_u64_bound [of b]
    by (auto simp: unat_sub_if_size word_size)
  moreover have "k \<le> unat (a - b)" using assms(1) by (simp add: disj_range_def)
  ultimately show False using over assms(2) by linarith
qed

lemma load_store_disj:
  assumes "disj_range a (length bs) b n" "length bs \<le> 2 ^ 64"
  shows "load_bytes n b (store_bytes a bs m) = load_bytes n b m"
  using assms
  by (intro nth_equalityI) (simp_all add: nth_load_bytes store_bytes_outside disj_range_offset)

subsection \<open>Reads after writes\<close>

lemma load64_store64_same [simp]: "load64 (store64 a v m) a = v"
  using load_store_same [of "le_bytes 8 v" a m]
  by (simp add: load64_def store64_def le_word_le_bytes)

lemma load32_store32_same [simp]: "load32 (store32 a v m) a = v"
  using load_store_same [of "le_bytes 4 v" a m]
  by (simp add: load32_def store32_def le_word_le_bytes)

lemma load64_store64_disj: "disj_range a 8 b 8 \<Longrightarrow> load64 (store64 a v m) b = load64 m b"
  by (simp add: load64_def store64_def load_store_disj)

lemma load64_store32_disj: "disj_range a 4 b 8 \<Longrightarrow> load64 (store32 a v m) b = load64 m b"
  by (simp add: load64_def store32_def load_store_disj)

lemma load32_store64_disj: "disj_range a 8 b 4 \<Longrightarrow> load32 (store64 a v m) b = load32 m b"
  by (simp add: load32_def store64_def load_store_disj)

lemma load32_store32_disj: "disj_range a 4 b 4 \<Longrightarrow> load32 (store32 a v m) b = load32 m b"
  by (simp add: load32_def store32_def load_store_disj)

lemma disj_rangeI:
  "0 < n \<Longrightarrow> unat a + n \<le> unat b \<Longrightarrow> unat b + k \<le> 2 ^ 64 \<Longrightarrow> disj_range a n b k"
  using unat_u64_bound [of a] unat_u64_bound [of b]
  by (auto simp: disj_range_def unat_sub_if_size word_size)

lemma disj_rangeI2:
  "0 < k \<Longrightarrow> unat b + k \<le> unat a \<Longrightarrow> unat a + n \<le> 2 ^ 64 \<Longrightarrow> disj_range a n b k"
  using disj_rangeI [where a = b and n = k and b = a and k = n] by (simp add: disj_range_sym)

lemmas load_store_simps =
  load64_store64_disj load64_store64_disj [OF disj_range_sym [THEN iffD1]]
  load64_store32_disj load64_store32_disj [OF disj_range_sym [THEN iffD1]]
  load32_store64_disj load32_store64_disj [OF disj_range_sym [THEN iffD1]]
  load32_store32_disj load32_store32_disj [OF disj_range_sym [THEN iffD1]]

lemma bit_load64:
  "bit (load64 m a) k \<longleftrightarrow> k < 64 \<and> bit (m (a + of_nat (k div 8))) (k mod 8)"
  by (auto simp: load64_def bit_le_word nth_load_bytes less_mult_imp_div_less)

lemma bit_load32:
  "bit (load32 m a) k \<longleftrightarrow> k < 32 \<and> bit (m (a + of_nat (k div 8))) (k mod 8)"
  by (auto simp: load32_def bit_le_word nth_load_bytes less_mult_imp_div_less)

text \<open>
  A 32-bit store into the low half of a 64-bit cell: the case the page tables'
  reference count makes when it falls on an entry of the next frame.
\<close>

lemma store32_apply:
  "store32 a v m x =
     (if unat (x - a) < 4 then ucast (drop_bit (8 * unat (x - a)) v) else m x)"
  by (simp add: store32_def store_bytes_apply nth_le_bytes)

lemma store64_apply:
  "store64 a v m x =
     (if unat (x - a) < 8 then ucast (drop_bit (8 * unat (x - a)) v) else m x)"
  by (simp add: store64_def store_bytes_apply nth_le_bytes)

lemma load64_store32_low:
  "load64 (store32 a v m) a = ucast v OR (load64 m a AND NOT (mask 32))"
proof (rule bit_word_eqI)
  fix k
  assume "k < LENGTH(64)"
  then have k: "k < 64" by simp
  then have u: "unat (of_nat (k div 8) :: u64) = k div 8"
    by (intro unat_of_nat_u64) simp
  show "bit (load64 (store32 a v m) a) k = bit (ucast v OR (load64 m a AND NOT (mask 32))) k"
    using k u
    by (auto simp: bit_load64 store32_apply bit_simps dest: bit_imp_le_length)
qed

lemma load32_eq_load64: "load32 m a = ucast (load64 m a)"
  by (rule bit_word_eqI) (simp add: bit_load64 bit_load32 bit_simps)

subsection \<open>Port input and output (\<^verbatim>\<open>interrupts.c\<close>, lines 208-236)\<close>

definition outb :: "u16 \<Rightarrow> u8 \<Rightarrow> 'a machine_scheme \<Rightarrow> 'a machine_scheme" where
  "outb port v s = s\<lparr>io_trace := OutB port v # io_trace s\<rparr>"

definition inb :: "io_env \<Rightarrow> u16 \<Rightarrow> 'a machine_scheme \<Rightarrow> u8 \<times> 'a machine_scheme" where
  "inb E port s =
     (let v = ucast (E (io_trace s) port)
      in (v, s\<lparr>io_trace := InB port v # io_trace s\<rparr>))"

definition outw :: "u16 \<Rightarrow> u16 \<Rightarrow> 'a machine_scheme \<Rightarrow> 'a machine_scheme" where
  "outw port v s = s\<lparr>io_trace := OutW port v # io_trace s\<rparr>"

definition inw :: "io_env \<Rightarrow> u16 \<Rightarrow> 'a machine_scheme \<Rightarrow> u16 \<times> 'a machine_scheme" where
  "inw E port s =
     (let v = ucast (E (io_trace s) port)
      in (v, s\<lparr>io_trace := InW port v # io_trace s\<rparr>))"

definition outl :: "u16 \<Rightarrow> u32 \<Rightarrow> 'a machine_scheme \<Rightarrow> 'a machine_scheme" where
  "outl port v s = s\<lparr>io_trace := OutL port v # io_trace s\<rparr>"

definition inl :: "io_env \<Rightarrow> u16 \<Rightarrow> 'a machine_scheme \<Rightarrow> u32 \<times> 'a machine_scheme" where
  "inl E port s =
     (let v = E (io_trace s) port
      in (v, s\<lparr>io_trace := InL port v # io_trace s\<rparr>))"

text \<open>The bytes written to ports, oldest first.\<close>

fun byte_outputs :: "io_event list \<Rightarrow> (u16 \<times> u8) list" where
  "byte_outputs [] = []"
| "byte_outputs (OutB p v # tr) = byte_outputs tr @ [(p, v)]"
| "byte_outputs (_ # tr) = byte_outputs tr"

lemmas port_defs [os44_simps] = outb_def inb_def outw_def inw_def outl_def inl_def

end
