(* ===== verification/Timer.thy ===== *)
theory Timer
  imports Machine
begin

section \<open>\<^verbatim>\<open>timer.c\<close>: the PIT and the uptime counter\<close>

text \<open>
  \<open>timer_init\<close> programs channel 0 of the interval timer and unmasks IRQ 0;
  \<open>timer_handler\<close>, called by \<open>isr_handler\<close> on vector 32, counts ticks and, every 100
  ticks, seconds. Both counters are 64-bit and wrap. \<open>timer_init\<close> divides by its argument:
  a frequency of 0 is the divide fault \<open>None\<close>.
\<close>

record timer_state = machine +
  timer_ticks :: u64
  system_uptime_seconds :: u64

abbreviation PIT_COMMAND :: u16 where "PIT_COMMAND \<equiv> 0x43"
abbreviation PIT_CHANNEL0 :: u16 where "PIT_CHANNEL0 \<equiv> 0x40"
abbreviation INPUT_FREQ :: u32 where "INPUT_FREQ \<equiv> 1193182"
abbreviation PIC1_DATA :: u16 where "PIC1_DATA \<equiv> 0x21"

definition timer_init ::
  "io_env \<Rightarrow> u32 \<Rightarrow> 'a timer_state_scheme \<Rightarrow> 'a timer_state_scheme option" where
  "timer_init E frequency s =
     (if frequency = 0 then None
      else let divisor = INPUT_FREQ div frequency;
               s = outb PIT_COMMAND 0x36 s;
               s = outb PIT_CHANNEL0 (ucast (divisor AND 0xFF)) s;
               s = outb PIT_CHANNEL0 (ucast (drop_bit 8 divisor AND 0xFF)) s;
               (mask, s) = inb E PIC1_DATA s;
               mask = mask AND NOT 1
           in Some (outb PIC1_DATA mask s))"

definition timer_handler :: "'a timer_state_scheme \<Rightarrow> 'a timer_state_scheme" where
  "timer_handler s =
     (let s = s\<lparr>timer_ticks := timer_ticks s + 1\<rparr>
      in if timer_ticks s mod 100 = 0
         then s\<lparr>system_uptime_seconds := system_uptime_seconds s + 1\<rparr>
         else s)"

definition timer_get_ticks :: "'a timer_state_scheme \<Rightarrow> u64" where
  "timer_get_ticks s = timer_ticks s"

definition timer_get_uptime_seconds :: "'a timer_state_scheme \<Rightarrow> u64" where
  "timer_get_uptime_seconds s = system_uptime_seconds s"

subsection \<open>The uptime invariant\<close>

definition timer_inv :: "'a timer_state_scheme \<Rightarrow> bool" where
  "timer_inv s \<longleftrightarrow> unat (system_uptime_seconds s) = unat (timer_ticks s) div 100"

lemma timer_handler_ticks: "timer_ticks (timer_handler s) = timer_ticks s + 1"
  by (simp add: timer_handler_def Let_def)

lemma unat_div_100_bound: "unat (x :: u64) div 100 < 2 ^ 64 - 1"
  using unat_u64_bound [of x] by simp

text \<open>One tick keeps the invariant unless the tick counter wraps.\<close>

lemma timer_handler_inv:
  assumes "timer_inv s" "timer_ticks s \<noteq> - 1"
  shows "timer_inv (timer_handler s)"
proof -
  let ?t = "unat (timer_ticks s)"
  have t: "unat (timer_ticks s + 1) = Suc ?t" using assms(2) by (rule unat_inc_u64)
  have m: "(timer_ticks s + 1) mod 100 = 0 \<longleftrightarrow> Suc ?t mod 100 = 0"
    by (simp add: word_unat_eq_iff unat_mod t)
  have u: "unat (system_uptime_seconds s + 1) = Suc (?t div 100)"
    using assms(1) unat_div_100_bound [of "timer_ticks s"]
    by (simp add: timer_inv_def unat_word_ariths)
  have "Suc ?t div 100 = (if Suc ?t mod 100 = 0 then Suc (?t div 100) else ?t div 100)"
    by (simp add: div_Suc)
  then show ?thesis using assms(1) m u t
    by (simp add: timer_inv_def timer_handler_def Let_def)
qed

lemma timer_run:
  assumes "timer_inv s" "unat (timer_ticks s) + n < 2 ^ 64"
  shows "timer_inv ((timer_handler ^^ n) s) \<and>
    unat (timer_ticks ((timer_handler ^^ n) s)) = unat (timer_ticks s) + n"
  using assms
proof (induction n)
  case 0
  then show ?case by simp
next
  case (Suc n)
  let ?s = "(timer_handler ^^ n) s"
  have IH: "timer_inv ?s" "unat (timer_ticks ?s) = unat (timer_ticks s) + n"
    using Suc by simp_all
  then have "timer_ticks ?s \<noteq> - 1"
    using Suc.prems(2) by (auto simp: unat_minus_1_u64)
  moreover then have "unat (timer_ticks ?s + 1) = Suc (unat (timer_ticks ?s))"
    by (rule unat_inc_u64)
  ultimately show ?case using IH by (simp add: timer_handler_inv timer_handler_ticks)
qed

subsection \<open>Programming the divisor\<close>

lemma word_split_16:
  fixes d :: u32
  assumes "d < 65536"
  shows "ucast (ucast (d AND 0xFF) :: u8) OR push_bit 8 (ucast (ucast (drop_bit 8 d AND 0xFF) :: u8)) = d"
proof (rule bit_word_eqI)
  fix k
  have d: "bit d k \<Longrightarrow> k < 16"
    using assms by (intro bit_bound_word [of d 16]) (simp_all add: word_less_nat_alt)
  have ff: "(0xFF :: u32) = mask 8" by (simp add: mask_eq_exp_minus_1)
  show "bit ((ucast (ucast (d AND 0xFF) :: u8) :: u32) OR
      push_bit 8 (ucast (ucast (drop_bit 8 d AND 0xFF) :: u8))) k = bit d k"
    unfolding ff using d by (auto simp: bit_simps)
qed

subsection \<open>Properties\<close>

text \<open>after \<open>n\<close> timer interrupts the uptime is the number of ticks divided by 100, as
  long as the 64-bit tick counter does not wrap.\<close>

theorem timer_uptime_after:
  assumes "timer_inv s" "unat (timer_ticks s) + n < 2 ^ 64"
  shows "unat (timer_get_uptime_seconds ((timer_handler ^^ n) s)) = (unat (timer_ticks s) + n) div 100"
  using timer_run [OF assms] by (simp add: timer_inv_def timer_get_uptime_seconds_def)

theorem timer_uptime_after_witness:
  "unat (timer_get_uptime_seconds ((timer_handler ^^ 250)
     \<lparr>ram = \<lambda>_. 0, io_trace = [], timer_ticks = 199, system_uptime_seconds = 1\<rparr>)) = 4"
  by (subst timer_uptime_after) (simp_all add: timer_inv_def)

text \<open>for a frequency of at least 19 Hz \<open>timer_init\<close> writes mode byte 0x36, then the low
  and the high byte of \<open>1193182 / frequency\<close>, then the PIC mask with IRQ 0 enabled.\<close>

theorem timer_init_divisor:
  assumes "19 \<le> frequency"
  shows "\<exists>t lo hi imr. timer_init E frequency s = Some t \<and>
    byte_outputs (io_trace t) = byte_outputs (io_trace s) @
      [(PIT_COMMAND, 0x36), (PIT_CHANNEL0, lo), (PIT_CHANNEL0, hi), (PIC1_DATA, imr)] \<and>
    ucast lo OR push_bit 8 (ucast hi) = INPUT_FREQ div frequency \<and> \<not> bit imr 0"
proof -
  have f: "19 \<le> unat frequency" using assms by (simp add: word_le_nat_alt)
  have "unat (INPUT_FREQ div frequency) = 1193182 div unat frequency" by (simp add: unat_div)
  also have "\<dots> \<le> 1193182 div 19" using f by (rule div_le_mono2 [rotated]) simp
  finally have "INPUT_FREQ div frequency < 65536" by (simp add: word_less_nat_alt)
  from word_split_16 [OF this] show ?thesis
    using f by (auto simp: timer_init_def port_defs Let_def bit_simps)
qed

theorem timer_init_divisor_witness:
  "\<exists>t lo hi imr. timer_init (\<lambda>_ _. 0xFF) 100
       \<lparr>ram = \<lambda>_. 0, io_trace = [], timer_ticks = 0, system_uptime_seconds = 0\<rparr> = Some t \<and>
    byte_outputs (io_trace t) =
      [(PIT_COMMAND, 0x36), (PIT_CHANNEL0, lo), (PIT_CHANNEL0, hi), (PIC1_DATA, imr)] \<and>
    ucast lo OR push_bit 8 (ucast hi) = (11931 :: u32) \<and> \<not> bit imr 0"
  using timer_init_divisor [of 100 "\<lambda>_ _. 0xFF"
      "\<lparr>ram = \<lambda>_. 0, io_trace = [], timer_ticks = 0, system_uptime_seconds = 0\<rparr>"]
  by simp

end
