(* ===== verification/Keyboard.thy ===== *)
theory Keyboard
  imports Timer
begin

section \<open>\<^verbatim>\<open>keyboard.c\<close>: scancodes and the i8042 controller\<close>

text \<open>
  \<open>keyboard_handler\<close>, called by \<open>isr_handler\<close> on vector 33, reads one scancode and keeps
  two modifier flags. The character it decodes is a local variable that the function then
  drops: \<open>keyboard_char\<close> is that computation. \<open>keyboard_init\<close> talks to the i8042 with
  bounded polling loops (100000 and 16 rounds), which are recursion on the rounds left.
\<close>

record keyboard_state = timer_state +
  shift_pressed :: u8
  caps_lock :: u8

definition asc :: "string \<Rightarrow> u8 list" where
  "asc cs = map of_char cs"

definition scancode_to_ascii :: "u8 list" where
  "scancode_to_ascii =
     [0, 27] @ asc ''1234567890-='' @ [8] @
     [9] @ asc ''qwertyuiop[]'' @ [10, 0] @
     asc ''asdfghjkl;'' @ [39] @ asc ''`'' @ [0, 92] @ asc ''zx'' @
     asc ''cvbnm,./'' @ [0] @ asc ''*'' @ [0] @ asc '' '' @ [0, 0, 0, 0] @
     [0, 0, 0, 0, 0, 0, 0] @ asc ''789-456+1'' @
     asc ''230.'' @ replicate 12 0 @
     replicate 16 0 @
     replicate 18 0"

definition scancode_to_ascii_shift :: "u8 list" where
  "scancode_to_ascii_shift =
     [0, 27] @ asc ''!@#$%^&*()_+'' @ [8] @
     [9] @ asc ''QWERTYUIOP{}'' @ [10, 0] @
     asc ''ASDFGHJKL:'' @ [34] @ asc ''~'' @ [0] @ asc ''|'' @ asc ''ZX'' @
     asc ''CVBNM<>?'' @ [0] @ asc ''*'' @ [0] @ asc '' '' @ [0, 0, 0, 0] @
     [0, 0, 0, 0, 0, 0, 0] @ asc ''789-456+1'' @
     asc ''230.'' @ replicate 12 0 @
     replicate 16 0 @
     replicate 18 0"

definition is_lower :: "u8 \<Rightarrow> bool" where "is_lower c \<longleftrightarrow> 97 \<le> c \<and> c \<le> 122"
definition is_upper :: "u8 \<Rightarrow> bool" where "is_upper c \<longleftrightarrow> 65 \<le> c \<and> c \<le> 90"

text \<open>The character a make code below 128 stands for, under the current modifiers.\<close>

definition keyboard_char :: "'a keyboard_state_scheme \<Rightarrow> u8 \<Rightarrow> u8" where
  "keyboard_char s scancode =
     (let c = (if shift_pressed s \<noteq> 0 then scancode_to_ascii_shift ! unat scancode
               else scancode_to_ascii ! unat scancode)
      in if is_lower c \<or> is_upper c then
           (if caps_lock s \<noteq> 0 then
              (if is_lower c then c - 97 + 65
               else if is_upper c then c - 65 + 97 else c)
            else c)
         else c)"

definition keyboard_scancode :: "u8 \<Rightarrow> 'a keyboard_state_scheme \<Rightarrow> 'a keyboard_state_scheme" where
  "keyboard_scancode scancode s =
     (if scancode AND 0x80 \<noteq> 0 then
        (let key = scancode AND 0x7F
         in if key = 0x2A \<or> key = 0x36 then s\<lparr>shift_pressed := 0\<rparr> else s)
      else if scancode = 0x2A \<or> scancode = 0x36 then s\<lparr>shift_pressed := 1\<rparr>
      else if scancode = 0x3A then s\<lparr>caps_lock := (if caps_lock s = 0 then 1 else 0)\<rparr>
      else s)"

definition keyboard_handler ::
  "io_env \<Rightarrow> 'a keyboard_state_scheme \<Rightarrow> 'a keyboard_state_scheme" where
  "keyboard_handler E s = (let (scancode, s) = inb E 0x60 s in keyboard_scancode scancode s)"

subsection \<open>The controller\<close>

abbreviation I8042_DATA :: u16 where "I8042_DATA \<equiv> 0x60"
abbreviation I8042_STATUS :: u16 where "I8042_STATUS \<equiv> 0x64"
abbreviation I8042_CMD :: u16 where "I8042_CMD \<equiv> 0x64"

fun i8042_wait_write_loop ::
  "io_env \<Rightarrow> nat \<Rightarrow> 'a keyboard_state_scheme \<Rightarrow> 'a keyboard_state_scheme" where
  "i8042_wait_write_loop E 0 s = s"
| "i8042_wait_write_loop E (Suc timeout) s =
     (let (v, s) = inb E I8042_STATUS s
      in if v AND 2 = 0 then s else i8042_wait_write_loop E timeout s)"

definition i8042_wait_write ::
  "io_env \<Rightarrow> 'a keyboard_state_scheme \<Rightarrow> 'a keyboard_state_scheme" where
  "i8042_wait_write E s = i8042_wait_write_loop E 100000 s"

fun i8042_wait_read_loop ::
  "io_env \<Rightarrow> nat \<Rightarrow> 'a keyboard_state_scheme \<Rightarrow> bool \<times> 'a keyboard_state_scheme" where
  "i8042_wait_read_loop E 0 s = (False, s)"
| "i8042_wait_read_loop E (Suc timeout) s =
     (let (v, s) = inb E I8042_STATUS s
      in if v AND 1 \<noteq> 0 then (True, s) else i8042_wait_read_loop E timeout s)"

definition i8042_wait_read ::
  "io_env \<Rightarrow> 'a keyboard_state_scheme \<Rightarrow> bool \<times> 'a keyboard_state_scheme" where
  "i8042_wait_read E s = i8042_wait_read_loop E 100000 s"

fun i8042_flush_loop ::
  "io_env \<Rightarrow> nat \<Rightarrow> 'a keyboard_state_scheme \<Rightarrow> 'a keyboard_state_scheme" where
  "i8042_flush_loop E 0 s = s"
| "i8042_flush_loop E (Suc limit) s =
     (let (v, s) = inb E I8042_STATUS s
      in if v AND 1 \<noteq> 0 then i8042_flush_loop E limit (snd (inb E I8042_DATA s)) else s)"

definition i8042_flush ::
  "io_env \<Rightarrow> 'a keyboard_state_scheme \<Rightarrow> 'a keyboard_state_scheme" where
  "i8042_flush E s = i8042_flush_loop E 16 s"

text \<open>\<open>i8042_wait_write(); outb(port, v)\<close>\<close>

definition i8042_send ::
  "io_env \<Rightarrow> u16 \<Rightarrow> u8 \<Rightarrow> 'a keyboard_state_scheme \<Rightarrow> 'a keyboard_state_scheme" where
  "i8042_send E port v s = outb port v (i8042_wait_write E s)"

definition keyboard_cfg :: "u8 \<Rightarrow> u8" where
  "keyboard_cfg cfg = ((cfg OR 1) AND NOT 2) OR 64"

definition keyboard_init ::
  "io_env \<Rightarrow> 'a keyboard_state_scheme \<Rightarrow> 'a keyboard_state_scheme" where
  "keyboard_init E s =
     (let s = i8042_send E I8042_CMD 0xAD s;
          s = i8042_send E I8042_CMD 0xA7 s;
          s = i8042_flush E s;
          s = i8042_send E I8042_CMD 0x20 s;
          (ready, s) = i8042_wait_read E s
      in if \<not> ready then s else
      (let (cfg, s) = inb E I8042_DATA s;
           s = i8042_send E I8042_CMD 0x60 s;
           s = i8042_send E I8042_DATA (keyboard_cfg cfg) s;
           s = i8042_send E I8042_CMD 0xAB s;
           (ready, s) = i8042_wait_read E s
       in if \<not> ready then s else
       (let (result, s) = inb E I8042_DATA s
        in if result \<noteq> 0 then s else
        (let s = i8042_send E I8042_CMD 0xAE s;
             (mask, s) = inb E PIC1_DATA s
         in outb PIC1_DATA (mask AND NOT 2) s))))"

subsection \<open>The modifier state machine\<close>

text \<open>
  The contract of the modifier flags: shift is down after a make of either shift key until
  a break of either one, caps lock is toggled by each make of its key.
\<close>

datatype key_event = ShiftDown | ShiftUp | CapsDown | OtherKey

definition key_event_of :: "u8 \<Rightarrow> key_event" where
  "key_event_of sc =
     (if sc \<in> {0x2A, 0x36} then ShiftDown
      else if sc \<in> {0xAA, 0xB6} then ShiftUp
      else if sc = 0x3A then CapsDown else OtherKey)"

fun modifier_step :: "bool \<times> bool \<Rightarrow> key_event \<Rightarrow> bool \<times> bool" where
  "modifier_step (shift, caps) ShiftDown = (True, caps)"
| "modifier_step (shift, caps) ShiftUp = (False, caps)"
| "modifier_step (shift, caps) CapsDown = (shift, \<not> caps)"
| "modifier_step m OtherKey = m"

definition modifiers :: "'a keyboard_state_scheme \<Rightarrow> bool \<times> bool" where
  "modifiers s = (shift_pressed s \<noteq> 0, caps_lock s \<noteq> 0)"

lemma break_code:
  fixes sc :: u8
  assumes "sc AND 0x80 \<noteq> 0"
  shows "sc AND 0x7F = 0x2A \<longleftrightarrow> sc = 0xAA" and "sc AND 0x7F = 0x36 \<longleftrightarrow> sc = 0xB6"
  using assms by (simp_all add: u8_eq_iff bit_simps)

lemma make_code_bit:
  "(0xAA :: u8) AND 0x80 \<noteq> 0" "(0xB6 :: u8) AND 0x80 \<noteq> 0"
  "(0x2A :: u8) AND 0x80 = 0" "(0x36 :: u8) AND 0x80 = 0" "(0x3A :: u8) AND 0x80 = 0"
  by simp_all

lemma keyboard_scancode_step:
  "modifiers (keyboard_scancode sc s) = modifier_step (modifiers s) (key_event_of sc)"
proof (cases "sc AND 0x80 = 0")
  case True
  then have "sc \<noteq> 0xAA" "sc \<noteq> 0xB6" by auto
  then show ?thesis using True
    by (auto simp: keyboard_scancode_def modifiers_def key_event_of_def)
next
  case False
  then have "sc \<noteq> 0x2A" "sc \<noteq> 0x36" "sc \<noteq> 0x3A" by auto
  then show ?thesis using False break_code [of sc]
    by (simp add: keyboard_scancode_def modifiers_def key_event_of_def Let_def)
qed

lemma keyboard_scancode_state:
  "\<exists>sh ca. keyboard_scancode sc s = s\<lparr>shift_pressed := sh, caps_lock := ca\<rparr>"
  by (intro exI [of _ "shift_pressed (keyboard_scancode sc s)"] exI [of _ "caps_lock (keyboard_scancode sc s)"])
    (simp add: keyboard_scancode_def Let_def)

lemma keyboard_scancode_trace [simp]: "io_trace (keyboard_scancode sc s) = io_trace s"
  by (simp add: keyboard_scancode_def Let_def)

lemma keyboard_handler_step:
  "\<exists>sc. io_trace (keyboard_handler E s) = InB 0x60 sc # io_trace s \<and>
     modifiers (keyboard_handler E s) = modifier_step (modifiers s) (key_event_of sc)"
  by (simp add: keyboard_handler_def inb_def Let_def keyboard_scancode_step)
    (simp add: modifiers_def)

lemma keyboard_handler_run:
  "\<exists>scs. length scs = n \<and>
     io_trace ((keyboard_handler E ^^ n) s) = map (InB 0x60) (rev scs) @ io_trace s \<and>
     modifiers ((keyboard_handler E ^^ n) s) =
       fold (\<lambda>sc m. modifier_step m (key_event_of sc)) scs (modifiers s)"
proof (induction n)
  case 0
  then show ?case by simp
next
  case (Suc n)
  then obtain scs where scs: "length scs = n"
    "io_trace ((keyboard_handler E ^^ n) s) = map (InB 0x60) (rev scs) @ io_trace s"
    "modifiers ((keyboard_handler E ^^ n) s) =
       fold (\<lambda>sc m. modifier_step m (key_event_of sc)) scs (modifiers s)"
    by blast
  obtain sc where "io_trace (keyboard_handler E ((keyboard_handler E ^^ n) s)) =
      InB 0x60 sc # io_trace ((keyboard_handler E ^^ n) s)"
    "modifiers (keyboard_handler E ((keyboard_handler E ^^ n) s)) =
      modifier_step (modifiers ((keyboard_handler E ^^ n) s)) (key_event_of sc)"
    using keyboard_handler_step by blast
  then show ?case using scs by (intro exI [of _ "scs @ [sc]"]) simp
qed

subsection \<open>The decoded character\<close>

lemma length_scancode_tables:
  "length scancode_to_ascii = 128" "length scancode_to_ascii_shift = 128"
  by (simp_all add: scancode_to_ascii_def scancode_to_ascii_shift_def asc_def)

text \<open>The two tables have letters at the same places, in opposite case.\<close>

definition table_row_ok :: "u8 \<times> u8 \<Rightarrow> bool" where
  "table_row_ok r =
     (case r of (lo, up) \<Rightarrow>
        \<not> is_upper lo \<and> \<not> is_lower up \<and> (if is_lower lo then up = lo - 32 else \<not> is_upper up))"

lemma scancode_tables_rows: "list_all table_row_ok (zip scancode_to_ascii scancode_to_ascii_shift)"
  by code_simp

lemma scancode_row:
  assumes "unat sc < 128"
  shows "table_row_ok (scancode_to_ascii ! unat sc, scancode_to_ascii_shift ! unat sc)"
proof -
  have "(scancode_to_ascii ! unat sc, scancode_to_ascii_shift ! unat sc)
      \<in> set (zip scancode_to_ascii scancode_to_ascii_shift)"
    using assms by (simp add: in_set_zip length_scancode_tables) blast
  then show ?thesis using scancode_tables_rows by (auto simp: list_all_iff)
qed

lemma keyboard_char_spec:
  assumes "unat sc < 128"
  shows "keyboard_char s sc =
    (let c = scancode_to_ascii ! unat sc; (shift, caps) = modifiers s
     in if is_lower c then (if shift \<noteq> caps then c - 32 else c)
        else if shift then scancode_to_ascii_shift ! unat sc else c)"
proof -
  have r: "c - 97 + 65 = c - 32" "c - 32 - 65 + 97 = c" for c :: u8
    by simp_all
  have up: "is_upper (c - 32)" if "is_lower c" for c :: u8
    using that unfolding is_lower_def is_upper_def by unat_arith
  obtain lo up where t: "scancode_to_ascii ! unat sc = lo" "scancode_to_ascii_shift ! unat sc = up"
    by blast
  have row: "\<not> is_upper lo" "\<not> is_lower up" "is_lower lo \<Longrightarrow> up = lo - 32"
    "\<not> is_lower lo \<Longrightarrow> \<not> is_upper up"
    using scancode_row [OF assms] by (auto simp: table_row_ok_def t split: if_splits)
  show ?thesis
  proof (cases "is_lower lo")
    case True
    then have "\<not> is_lower (lo - 32)" using row by simp
    then show ?thesis using True row(1,3) up [OF True] r
      by (simp add: keyboard_char_def modifiers_def Let_def t)
  next
    case False
    then show ?thesis using row(1,2,4) by (simp add: keyboard_char_def modifiers_def Let_def t)
  qed
qed

subsection \<open>Initialisation\<close>

lemma wait_write_outputs [simp]:
  "byte_outputs (io_trace (i8042_wait_write_loop E n s)) = byte_outputs (io_trace s)"
  by (induction E n s rule: i8042_wait_write_loop.induct) (simp_all add: inb_def Let_def)

lemma wait_read_outputs [simp]:
  "byte_outputs (io_trace (snd (i8042_wait_read_loop E n s))) = byte_outputs (io_trace s)"
  by (induction E n s rule: i8042_wait_read_loop.induct) (simp_all add: inb_def Let_def)

lemma flush_outputs [simp]:
  "byte_outputs (io_trace (i8042_flush_loop E n s)) = byte_outputs (io_trace s)"
  by (induction E n s rule: i8042_flush_loop.induct) (simp_all add: inb_def Let_def)

lemma wait_write_steps:
  "length (io_trace (i8042_wait_write_loop E n s)) \<le> length (io_trace s) + n"
proof (induction n arbitrary: s)
  case (Suc n)
  then show ?case
    using Suc [of "snd (inb E I8042_STATUS s)"] by (simp add: inb_def Let_def)
qed simp

lemma wait_read_steps:
  "length (io_trace (snd (i8042_wait_read_loop E n s))) \<le> length (io_trace s) + n"
proof (induction n arbitrary: s)
  case (Suc n)
  then show ?case
    using Suc [of "snd (inb E I8042_STATUS s)"] by (simp add: inb_def Let_def)
qed simp

lemma flush_steps:
  "length (io_trace (i8042_flush_loop E n s)) \<le> length (io_trace s) + 2 * n"
proof (induction n arbitrary: s)
  case (Suc n)
  then show ?case
    using Suc [of "snd (inb E I8042_DATA (snd (inb E I8042_STATUS s)))"]
    by (simp add: inb_def Let_def)
qed simp

lemma send_outputs [simp]:
  "byte_outputs (io_trace (i8042_send E p v s)) = byte_outputs (io_trace s) @ [(p, v)]"
  by (simp add: i8042_send_def i8042_wait_write_def outb_def)

lemma send_steps:
  "length (io_trace (i8042_send E p v s)) \<le> length (io_trace s) + 100001"
  using wait_write_steps [of E 100000 s]
  by (simp add: i8042_send_def i8042_wait_write_def outb_def)

lemma inb_outputs [simp]: "byte_outputs (io_trace (snd (inb E p s))) = byte_outputs (io_trace s)"
  by (simp add: inb_def Let_def)

lemma inb_steps [simp]: "length (io_trace (snd (inb E p s))) = Suc (length (io_trace s))"
  by (simp add: inb_def Let_def)

lemma keyboard_cfg_bits:
  "bit (keyboard_cfg cfg) 0 \<and> \<not> bit (keyboard_cfg cfg) 1 \<and> bit (keyboard_cfg cfg) 6"
  by (simp add: keyboard_cfg_def bit_simps)

definition keyboard_probe :: "(u16 \<times> u8) list" where
  "keyboard_probe = [(0x64, 0xAD), (0x64, 0xA7), (0x64, 0x20)]"

definition keyboard_test :: "u8 \<Rightarrow> (u16 \<times> u8) list" where
  "keyboard_test cfg = [(0x64, 0x60), (0x60, keyboard_cfg cfg), (0x64, 0xAB)]"

definition keyboard_enable :: "u8 \<Rightarrow> (u16 \<times> u8) list" where
  "keyboard_enable imr = [(0x64, 0xAE), (0x21, imr AND NOT 2)]"

lemma keyboard_init_outputs:
  "\<exists>outs. byte_outputs (io_trace (keyboard_init E s)) = byte_outputs (io_trace s) @ outs \<and>
     (outs = keyboard_probe \<or>
      (\<exists>cfg. outs = keyboard_probe @ keyboard_test cfg) \<or>
      (\<exists>cfg imr. outs = keyboard_probe @ keyboard_test cfg @ keyboard_enable imr))"
  unfolding keyboard_init_def Let_def i8042_flush_def i8042_wait_read_def
  by (simp add: split_beta keyboard_probe_def keyboard_test_def keyboard_enable_def outb_def) blast

text \<open>
  Every port access is counted: the rules push the cost of a step into an allowance \<open>a\<close>.
\<close>

lemma cost_rules:
  "length (io_trace s) + (a + 100001) \<le> n \<Longrightarrow> length (io_trace (i8042_send E p v s)) + a \<le> n"
  "length (io_trace s) + (a + 100000) \<le> n \<Longrightarrow>
     length (io_trace (snd (i8042_wait_read_loop E 100000 s))) + a \<le> n"
  "length (io_trace s) + (a + 32) \<le> n \<Longrightarrow>
     length (io_trace (i8042_flush_loop E 16 s)) + a \<le> n"
  "length (io_trace s) + (a + 1) \<le> n \<Longrightarrow> length (io_trace (snd (inb E p s))) + a \<le> n"
  "length (io_trace s) + (a + 1) \<le> n \<Longrightarrow> length (io_trace (outb p v s)) + a \<le> n"
  using send_steps [of E p v s] wait_read_steps [of E 100000 s] flush_steps [of E 16 s]
  by (simp_all add: outb_def)

lemma cost_if:
  "(c \<Longrightarrow> length (io_trace x) + a \<le> n) \<Longrightarrow> (\<not> c \<Longrightarrow> length (io_trace y) + a \<le> n) \<Longrightarrow>
   length (io_trace (if c then x else y)) + a \<le> n"
  by simp

lemma keyboard_init_steps:
  "length (io_trace (keyboard_init E s)) + 0 \<le> length (io_trace s) + 900043"
  unfolding keyboard_init_def Let_def i8042_flush_def i8042_wait_read_def split_beta
  by (intro cost_if cost_rules) simp_all

subsection \<open>Properties\<close>

text \<open>C16: over any number of keyboard interrupts, the two flags follow the modifier state
  machine on the scancodes read from port 0x60, one per interrupt.\<close>

theorem keyboard_refines_modifiers:
  "\<exists>scs. length scs = n \<and>
     io_trace ((keyboard_handler E ^^ n) s) = map (InB 0x60) (rev scs) @ io_trace s \<and>
     modifiers ((keyboard_handler E ^^ n) s) =
       fold (\<lambda>sc m. modifier_step m (key_event_of sc)) scs (modifiers s)"
  by (rule keyboard_handler_run)

text \<open>a letter key gives the capital letter when exactly one of shift and caps lock is on;
  any other key gives the entry of the shifted table under shift and ignores caps lock.\<close>

theorem keyboard_char_correct:
  assumes "unat sc < 128"
  shows "keyboard_char s sc =
    (let c = scancode_to_ascii ! unat sc; (shift, caps) = modifiers s
     in if is_lower c then (if shift \<noteq> caps then c - 32 else c)
        else if shift then scancode_to_ascii_shift ! unat sc else c)"
  using assms by (rule keyboard_char_spec)

theorem keyboard_char_correct_witness:
  "keyboard_char \<lparr>ram = \<lambda>_. 0, io_trace = [], timer_ticks = 0, system_uptime_seconds = 0,
     shift_pressed = 0, caps_lock = 1\<rparr> 0x1E = 65"
  by (subst keyboard_char_correct)
    (simp_all add: modifiers_def scancode_to_ascii_def asc_def is_lower_def)

text \<open>whatever the controller answers, the bytes \<open>keyboard_init\<close> writes are the probe
  sequence, the probe and test sequences, or these and the enable sequence; the keyboard's
  IRQ is unmasked only after the port is enabled.\<close>

theorem keyboard_init_commands:
  "\<exists>outs. byte_outputs (io_trace (keyboard_init E s)) = byte_outputs (io_trace s) @ outs \<and>
     (outs = keyboard_probe \<or>
      (\<exists>cfg. outs = keyboard_probe @ keyboard_test cfg) \<or>
      (\<exists>cfg imr. outs = keyboard_probe @ keyboard_test cfg @ keyboard_enable imr))"
  by (rule keyboard_init_outputs)

text \<open>\<open>keyboard_init\<close> ends after at most 900043 port accesses, also when the
  controller never becomes ready.\<close>

theorem keyboard_init_bounded:
  "length (io_trace (keyboard_init E s)) \<le> length (io_trace s) + 900043"
  using keyboard_init_steps [of E s] by simp

end
