(* ===== verification/Bootinfo.thy ===== *)
theory Bootinfo
  imports Machine
begin

section \<open>\<^verbatim>\<open>bootinfo.h\<close>: what the bootloader hands to the kernel\<close>

text \<open>
  \<open>BootInfo\<close> is filled by the bootloader and read by the kernel through a pointer; the
  model passes its contents. The memory map it points to stays in memory: \<open>read_descriptor\<close>
  reads the fields of one \<open>EfiMemoryDescriptor\<close> (40 bytes) at their offsets, and
  \<open>mmap_descriptor\<close> is the cursor arithmetic both \<open>pmm_init\<close> and \<open>mem_init\<close> use.
\<close>

record boot_info =
  magic :: u32
  framebuffer :: u64
  info_fb_width :: u64
  info_fb_height :: u64
  info_fb_pitch :: u64
  info_fb_format :: u32
  mmap :: u64
  mmap_size :: u64
  mmap_desc_size :: u64
  fw_vendor :: "u16 list"
  fw_revision :: u32

record efi_memory_descriptor =
  desc_type :: u32
  pad :: u32
  physical_start :: u64
  virtual_start :: u64
  number_of_pages :: u64
  attribute :: u64

abbreviation BOOTINFO_MAGIC :: u32 where "BOOTINFO_MAGIC \<equiv> 0xB007B007"
abbreviation EFI_CONVENTIONAL_MEMORY :: u32 where "EFI_CONVENTIONAL_MEMORY \<equiv> 7"
abbreviation EFI_MEMORY_DESCRIPTOR_SIZE :: u64 where "EFI_MEMORY_DESCRIPTOR_SIZE \<equiv> 40"

definition read_descriptor :: "ram \<Rightarrow> u64 \<Rightarrow> efi_memory_descriptor" where
  "read_descriptor m a =
     \<lparr>desc_type = load32 m a, pad = load32 m (a + 4), physical_start = load64 m (a + 8),
      virtual_start = load64 m (a + 16), number_of_pages = load64 m (a + 24),
      attribute = load64 m (a + 32)\<rparr>"

definition mmap_descriptor :: "ram \<Rightarrow> boot_info \<Rightarrow> nat \<Rightarrow> efi_memory_descriptor" where
  "mmap_descriptor m info i = read_descriptor m (mmap info + of_nat i * mmap_desc_size info)"

end
