(* ===== verification/Pmm.thy ===== *)
theory Pmm
  imports Keyboard Bootinfo
begin

section \<open>\<^verbatim>\<open>pmm.c\<close>: the physical frame allocator\<close>

text \<open>
  One bit per 4 KiB frame of the first 4 GiB, set when the frame is used. The bitmap array
  \<open>pmm_bitmap[131072]\<close> is a function of the index; every access is guarded by the frame
  bound, so no index reaches 131072. \<open>total_frames\<close> is 0 until \<open>pmm_init\<close> runs. The
  memory map is read from memory; a descriptor size of 0 is the divide fault \<open>None\<close>.

  \<open>pmm_avail\<close> is the abstraction: the set of free frame numbers. The locale
  \<open>frame_allocator\<close> states what the clients (\<open>paging.c\<close>, \<open>vmm.c\<close>, \<open>mem.c\<close>,
  \<open>kernel.c\<close>) rely on, and its interpretation \<open>pmm\<close> discharges it for this code.
\<close>

record pmm_state = keyboard_state +
  pmm_bitmap :: "nat \<Rightarrow> u8"
  total_frames :: u64

abbreviation PAGE_SIZE :: u64 where "PAGE_SIZE \<equiv> 4096"
abbreviation MAX_FRAMES :: u64 where "MAX_FRAMES \<equiv> 1048576"
definition BITMAP_SIZE :: nat where "BITMAP_SIZE = 131072"
definition RESERVED_FRAMES :: nat where "RESERVED_FRAMES = 2048"

definition pmm_set_bit :: "u64 \<Rightarrow> 'a pmm_state_scheme \<Rightarrow> 'a pmm_state_scheme" where
  "pmm_set_bit frame_idx s =
     (if frame_idx < MAX_FRAMES then
        let i = unat (frame_idx div 8)
        in s\<lparr>pmm_bitmap := (pmm_bitmap s)
               (i := pmm_bitmap s i OR push_bit (unat (frame_idx mod 8)) 1)\<rparr>
      else s)"

definition pmm_clear_bit :: "u64 \<Rightarrow> 'a pmm_state_scheme \<Rightarrow> 'a pmm_state_scheme" where
  "pmm_clear_bit frame_idx s =
     (if frame_idx < MAX_FRAMES then
        let i = unat (frame_idx div 8)
        in s\<lparr>pmm_bitmap := (pmm_bitmap s)
               (i := pmm_bitmap s i AND NOT (push_bit (unat (frame_idx mod 8)) 1))\<rparr>
      else s)"

definition pmm_test_bit :: "u64 \<Rightarrow> 'a pmm_state_scheme \<Rightarrow> bool" where
  "pmm_test_bit frame_idx s =
     (if MAX_FRAMES \<le> frame_idx then True
      else pmm_bitmap s (unat (frame_idx div 8)) AND push_bit (unat (frame_idx mod 8)) 1 \<noteq> 0)"

definition pmm_mark_descriptor ::
  "boot_info \<Rightarrow> nat \<Rightarrow> 'a pmm_state_scheme \<Rightarrow> 'a pmm_state_scheme" where
  "pmm_mark_descriptor info i s =
     (let desc = mmap_descriptor (ram s) info i
      in if desc_type desc = EFI_CONVENTIONAL_MEMORY then
           (let start_frame = physical_start desc div PAGE_SIZE
            in fold (\<lambda>f. pmm_clear_bit (start_frame + of_nat f))
                 [0..<unat (number_of_pages desc)] s)
         else s)"

definition pmm_init ::
  "boot_info \<Rightarrow> 'a pmm_state_scheme \<Rightarrow> 'a pmm_state_scheme option" where
  "pmm_init info s =
     (let s = s\<lparr>total_frames := MAX_FRAMES\<rparr>;
          s = fold (\<lambda>i s. s\<lparr>pmm_bitmap := (pmm_bitmap s)(i := 0xFF)\<rparr>) [0..<BITMAP_SIZE] s
      in if mmap_desc_size info = 0 then None
         else let count = mmap_size info div mmap_desc_size info;
                  s = fold (pmm_mark_descriptor info) [0..<unat count] s
              in Some (fold (\<lambda>f. pmm_set_bit (of_nat f)) [0..<RESERVED_FRAMES] s))"

function pmm_alloc_loop ::
  "nat \<Rightarrow> 'a pmm_state_scheme \<Rightarrow> u64 \<times> 'a pmm_state_scheme" where
  "pmm_alloc_loop i s =
     (if i < unat (total_frames s) then
        (if \<not> pmm_test_bit (of_nat i) s
         then (of_nat i * PAGE_SIZE, pmm_set_bit (of_nat i) s)
         else pmm_alloc_loop (Suc i) s)
      else (0, s))"
  by pat_completeness auto
termination
  by (relation "measure (\<lambda>(i, s). unat (total_frames s) - i)") auto

declare pmm_alloc_loop.simps [simp del]

definition pmm_alloc_frame :: "'a pmm_state_scheme \<Rightarrow> u64 \<times> 'a pmm_state_scheme" where
  "pmm_alloc_frame s = pmm_alloc_loop 0 s"

definition pmm_free_frame :: "u64 \<Rightarrow> 'a pmm_state_scheme \<Rightarrow> 'a pmm_state_scheme" where
  "pmm_free_frame frame s = pmm_clear_bit (frame div PAGE_SIZE) s"

definition pmm_get_free_frames :: "'a pmm_state_scheme \<Rightarrow> u64" where
  "pmm_get_free_frames s =
     fold (\<lambda>i n. if \<not> pmm_test_bit (of_nat i) s then n + 1 else n)
       [0..<unat (total_frames s)] 0"

subsection \<open>The abstraction: the set of free frames\<close>

definition frame_bit :: "'a pmm_state_scheme \<Rightarrow> nat \<Rightarrow> bool" where
  "frame_bit s f = bit (pmm_bitmap s (f div 8)) (f mod 8)"

definition pmm_avail :: "'a pmm_state_scheme \<Rightarrow> nat set" where
  "pmm_avail s = {f. f < 1048576 \<and> \<not> frame_bit s f}"

definition pmm_inv :: "'a pmm_state_scheme \<Rightarrow> bool" where
  "pmm_inv s \<longleftrightarrow> total_frames s = MAX_FRAMES \<and> (\<forall>f < RESERVED_FRAMES. frame_bit s f)"

lemma pmm_avail_bound: "f \<in> pmm_avail s \<Longrightarrow> f < 1048576"
  by (simp add: pmm_avail_def)

lemma pmm_avail_bit: "f \<in> pmm_avail s \<Longrightarrow> \<not> frame_bit s f"
  by (simp add: pmm_avail_def)

lemma finite_pmm_avail [simp]: "finite (pmm_avail s)"
  by (rule finite_subset [of _ "{..<1048576}"]) (auto simp: pmm_avail_def)

lemma unat_div_8: "unat (x div 8 :: u64) = unat x div 8"
  and unat_mod_8: "unat (x mod 8 :: u64) = unat x mod 8"
  by (simp_all add: unat_div unat_mod)

lemma test_bit_iff: "pmm_test_bit x s \<longleftrightarrow> 1048576 \<le> unat x \<or> frame_bit s (unat x)"
  by (auto simp: pmm_test_bit_def and_exp_eq_0_iff_not_bit unat_div_8 unat_mod_8 frame_bit_def word_le_nat_alt)

lemma test_bit_of_nat: "f < 1048576 \<Longrightarrow> pmm_test_bit (of_nat f) s \<longleftrightarrow> f \<notin> pmm_avail s"
  by (simp add: test_bit_iff unat_of_nat_u64 pmm_avail_def)

lemma frame_index_eq: "(f :: nat) div 8 = g div 8 \<Longrightarrow> f mod 8 = g mod 8 \<Longrightarrow> f = g"
  by (metis div_mult_mod_eq)

lemma frame_bit_set:
  "frame_bit (pmm_set_bit x s) f \<longleftrightarrow> frame_bit s f \<or> (unat x < 1048576 \<and> f = unat x)"
  by (auto simp: pmm_set_bit_def frame_bit_def unat_div_8 unat_mod_8 bit_simps Let_def
      word_less_nat_alt dest: frame_index_eq)

lemma frame_bit_clear:
  "frame_bit (pmm_clear_bit x s) f \<longleftrightarrow> frame_bit s f \<and> \<not> (unat x < 1048576 \<and> f = unat x)"
  by (auto simp: pmm_clear_bit_def frame_bit_def unat_div_8 unat_mod_8 bit_simps Let_def
      word_less_nat_alt dest: frame_index_eq)

lemma pmm_avail_set:
  "pmm_avail (pmm_set_bit x s) = pmm_avail s - {unat x}"
  by (auto simp: pmm_avail_def frame_bit_set)

lemma pmm_avail_clear:
  "pmm_avail (pmm_clear_bit x s) = pmm_avail s \<union> ({unat x} \<inter> {..<1048576})"
  by (auto simp: pmm_avail_def frame_bit_clear)

lemma total_frames_bit [simp]:
  "total_frames (pmm_set_bit x s) = total_frames s"
  "total_frames (pmm_clear_bit x s) = total_frames s"
  by (simp_all add: pmm_set_bit_def pmm_clear_bit_def Let_def)

lemma pmm_bit_frame [simp]:
  "ram (pmm_set_bit x s) = ram s" "ram (pmm_clear_bit x s) = ram s"
  "io_trace (pmm_set_bit x s) = io_trace s" "io_trace (pmm_clear_bit x s) = io_trace s"
  "pmm_state.more (pmm_set_bit x s) = pmm_state.more s"
  "pmm_state.more (pmm_clear_bit x s) = pmm_state.more s"
  by (simp_all add: pmm_set_bit_def pmm_clear_bit_def Let_def)

text \<open>A state is determined by its free frames, the bitmap beyond the array apart.\<close>

lemma set_clear_bit_id:
  assumes "unat x < 1048576" "\<not> frame_bit s (unat x)"
  shows "pmm_clear_bit x (pmm_set_bit x s) = s"
proof -
  let ?i = "unat x div 8" and ?k = "unat x mod 8"
  have "(pmm_bitmap s ?i OR push_bit ?k 1) AND NOT (push_bit ?k 1) = pmm_bitmap s ?i"
    using assms(2) by (intro bit_word_eqI) (auto simp: frame_bit_def bit_simps)
  then have "(pmm_bitmap s)(?i := (pmm_bitmap s ?i OR push_bit ?k 1) AND NOT (push_bit ?k 1))
      = pmm_bitmap s"
    by (simp only: fun_upd_triv)
  then show ?thesis using assms(1)
    by (simp add: pmm_set_bit_def pmm_clear_bit_def word_less_nat_alt unat_div_8 unat_mod_8)
qed

subsection \<open>Allocation\<close>

lemma pmm_alloc_loop_None:
  assumes "total_frames s = MAX_FRAMES" "\<forall>f \<in> pmm_avail s. f < i"
  shows "pmm_alloc_loop i s = (0, s)"
  using assms
proof (induction i s rule: pmm_alloc_loop.induct)
  case (1 i s)
  show ?case
  proof (cases "i < 1048576")
    case True
    then have "i \<notin> pmm_avail s" using 1(3) by auto
    then have "pmm_test_bit (of_nat i) s" using True by (simp add: test_bit_of_nat)
    moreover have "\<forall>f \<in> pmm_avail s. f < Suc i" using 1(3) less_SucI by blast
    ultimately show ?thesis using 1(1,2) True by (subst pmm_alloc_loop.simps) simp
  next
    case False
    then show ?thesis using 1(2) by (subst pmm_alloc_loop.simps) simp
  qed
qed

lemma pmm_alloc_loop_Some:
  assumes "total_frames s = MAX_FRAMES" "i \<le> f" "f \<in> pmm_avail s"
    and "\<And>g. g \<in> pmm_avail s \<Longrightarrow> i \<le> g \<Longrightarrow> f \<le> g"
  shows "pmm_alloc_loop i s = (of_nat f * PAGE_SIZE, pmm_set_bit (of_nat f) s)"
  using assms
proof (induction i s rule: pmm_alloc_loop.induct)
  case (1 i s)
  have f: "f < 1048576" using 1(4) by (rule pmm_avail_bound)
  show ?case
  proof (cases "i = f")
    case True
    then have "\<not> pmm_test_bit (of_nat i) s" using 1(4) f by (simp add: test_bit_of_nat)
    then show ?thesis using True 1(2) f by (subst pmm_alloc_loop.simps) simp
  next
    case False
    then have i: "i < f" using 1(3) by simp
    then have "i \<notin> pmm_avail s" using 1(5) by fastforce
    then have t: "pmm_test_bit (of_nat i) s" using i f by (simp add: test_bit_of_nat)
    have "pmm_alloc_loop (Suc i) s = (of_nat f * PAGE_SIZE, pmm_set_bit (of_nat f) s)"
      using 1(2-5) i f t by (intro 1(1)) auto
    then show ?thesis using t i f 1(2) by (subst pmm_alloc_loop.simps) simp
  qed
qed

lemma pmm_alloc_frame_none:
  "pmm_inv s \<Longrightarrow> pmm_avail s = {} \<Longrightarrow> pmm_alloc_frame s = (0, s)"
  unfolding pmm_alloc_frame_def by (rule pmm_alloc_loop_None) (simp_all add: pmm_inv_def)

lemma pmm_alloc_frame_some:
  assumes "pmm_inv s" "pmm_avail s \<noteq> {}"
  shows "pmm_alloc_frame s =
    (of_nat (Min (pmm_avail s)) * PAGE_SIZE, pmm_set_bit (of_nat (Min (pmm_avail s))) s)"
  unfolding pmm_alloc_frame_def using assms
  by (intro pmm_alloc_loop_Some) (simp_all add: pmm_inv_def)

lemma pmm_avail_reserved: "pmm_inv s \<Longrightarrow> f \<in> pmm_avail s \<Longrightarrow> 2048 \<le> f"
  by (auto simp: pmm_inv_def pmm_avail_def RESERVED_FRAMES_def not_less [symmetric])

lemma pmm_inv_set: "pmm_inv s \<Longrightarrow> pmm_inv (pmm_set_bit x s)"
  by (simp add: pmm_inv_def frame_bit_set)

lemma pmm_inv_clear: "pmm_inv s \<Longrightarrow> 2048 \<le> unat x \<Longrightarrow> pmm_inv (pmm_clear_bit x s)"
  by (auto simp: pmm_inv_def frame_bit_clear RESERVED_FRAMES_def)

lemma frame_address_div:
  assumes "f < 1048576"
  shows "(of_nat f * PAGE_SIZE) div PAGE_SIZE = (of_nat f :: u64)" "unat (of_nat f * PAGE_SIZE) = f * 4096"
proof -
  show a: "unat (of_nat f * PAGE_SIZE) = f * 4096"
    using assms by (simp add: unat_word_ariths unat_of_nat)
  show "(of_nat f * PAGE_SIZE) div PAGE_SIZE = (of_nat f :: u64)"
    using assms by (simp add: word_unat_eq_iff unat_div a unat_of_nat)
qed

subsection \<open>The interface the memory managers use\<close>

text \<open>
  A frame allocator hands out the address of the lowest available frame, or 0 (\<open>NULL\<close>)
  when there is none, and takes frames back. Frames below \<open>lo\<close> are never handed out, so a
  successful allocation is never \<open>NULL\<close>.
\<close>

locale frame_allocator =
  fixes alloc :: "'s \<Rightarrow> u64 \<times> 's"
    and free :: "u64 \<Rightarrow> 's \<Rightarrow> 's"
    and avail :: "'s \<Rightarrow> nat set"
    and invar :: "'s \<Rightarrow> bool"
    and lo :: nat
  assumes lo_pos: "0 < lo"
    and avail_range: "invar s \<Longrightarrow> f \<in> avail s \<Longrightarrow> lo \<le> f \<and> f < 1048576"
    and alloc_none: "invar s \<Longrightarrow> avail s = {} \<Longrightarrow> alloc s = (0, s)"
    and alloc_addr: "invar s \<Longrightarrow> avail s \<noteq> {} \<Longrightarrow> fst (alloc s) = of_nat (Min (avail s)) * 4096"
    and alloc_avail: "invar s \<Longrightarrow> avail s \<noteq> {} \<Longrightarrow> avail (snd (alloc s)) = avail s - {Min (avail s)}"
    and alloc_invar: "invar s \<Longrightarrow> invar (snd (alloc s))"
    and free_avail: "invar s \<Longrightarrow> lo \<le> f \<Longrightarrow> f < 1048576 \<Longrightarrow>
      avail (free (of_nat f * 4096) s) = insert f (avail s)"
    and free_invar: "invar s \<Longrightarrow> lo \<le> f \<Longrightarrow> f < 1048576 \<Longrightarrow> invar (free (of_nat f * 4096) s)"
    and free_alloc: "invar s \<Longrightarrow> avail s \<noteq> {} \<Longrightarrow> free (fst (alloc s)) (snd (alloc s)) = s"
begin

lemma finite_avail: "invar s \<Longrightarrow> finite (avail s)"
  by (rule finite_subset [of _ "{..<1048576}"]) (auto dest: avail_range)

lemma Min_avail: "invar s \<Longrightarrow> avail s \<noteq> {} \<Longrightarrow> Min (avail s) \<in> avail s"
  by (simp add: finite_avail)

lemma alloc_nonnull_iff: "invar s \<Longrightarrow> fst (alloc s) \<noteq> 0 \<longleftrightarrow> avail s \<noteq> {}"
proof (cases "avail s = {}")
  case False
  assume inv: "invar s"
  let ?f = "Min (avail s)"
  have r: "lo \<le> ?f" "?f < 1048576" using inv False Min_avail avail_range by blast+
  have "unat (fst (alloc s)) = ?f * 4096"
    using alloc_addr [OF inv False] r(2) by (simp add: frame_address_div)
  then have "unat (fst (alloc s)) \<noteq> 0" using r lo_pos by simp
  then show ?thesis using False by auto
qed (simp add: alloc_none)

lemma card_alloc:
  "invar s \<Longrightarrow> avail s \<noteq> {} \<Longrightarrow> card (avail s) = Suc (card (avail (snd (alloc s))))"
  by (metis alloc_avail card_Suc_Diff1 finite_avail Min_avail)

text \<open>Two allocations in a row never hand out the same frame.\<close>

lemma alloc_twice_distinct:
  assumes "invar s" "fst (alloc s) \<noteq> 0" "fst (alloc (snd (alloc s))) \<noteq> 0"
  shows "fst (alloc s) \<noteq> fst (alloc (snd (alloc s)))"
proof -
  let ?t = "snd (alloc s)"
  have ne: "avail s \<noteq> {}" "avail ?t \<noteq> {}" and inv: "invar ?t"
    using assms alloc_nonnull_iff alloc_invar by blast+
  have "Min (avail ?t) \<in> avail s - {Min (avail s)}"
    using Min_avail [OF inv ne(2)] alloc_avail [OF assms(1) ne(1)] by simp
  then have d: "Min (avail ?t) \<noteq> Min (avail s)" "Min (avail ?t) < 1048576"
    using avail_range [OF assms(1)] by blast+
  have "Min (avail s) < 1048576" using Min_avail avail_range assms(1) ne(1) by blast
  then have "unat (fst (alloc s)) = Min (avail s) * 4096"
    "unat (fst (alloc ?t)) = Min (avail ?t) * 4096"
    using alloc_addr [OF assms(1) ne(1)] alloc_addr [OF inv ne(2)] d(2)
    by (simp_all add: frame_address_div)
  then show ?thesis using d(1) by (metis mult_cancel2 zero_neq_numeral)
qed

end

interpretation pmm: frame_allocator pmm_alloc_frame pmm_free_frame pmm_avail pmm_inv 2048
proof (unfold_locales, goal_cases)
  case 1 show ?case by simp
next
  case (2 s f) then show ?case by (simp add: pmm_avail_reserved pmm_avail_bound)
next
  case (3 s) then show ?case by (rule pmm_alloc_frame_none)
next
  case (4 s) then show ?case by (simp add: pmm_alloc_frame_some)
next
  case (5 s)
  then have "Min (pmm_avail s) < 1048576" by (intro pmm_avail_bound [of _ s] Min_in) simp_all
  with 5 show ?case by (simp add: pmm_alloc_frame_some pmm_avail_set unat_of_nat_u64)
next
  case (6 s)
  then show ?case
    by (cases "pmm_avail s = {}") (simp_all add: pmm_alloc_frame_none pmm_alloc_frame_some pmm_inv_set)
next
  case (7 s f)
  then show ?case
    by (auto simp: pmm_free_frame_def frame_address_div pmm_avail_clear unat_of_nat_u64)
next
  case (8 s f)
  then show ?case
    by (simp add: pmm_free_frame_def frame_address_div pmm_inv_clear unat_of_nat_u64)
next
  case (9 s)
  let ?f = "Min (pmm_avail s)"
  have f: "?f \<in> pmm_avail s" using 9 by simp
  then have "?f < 1048576" by (rule pmm_avail_bound)
  with f 9 show ?case
    by (simp add: pmm_alloc_frame_some pmm_free_frame_def frame_address_div)
      (rule set_clear_bit_id, simp_all add: unat_of_nat_u64 pmm_avail_bit)
qed

subsection \<open>Counting free frames\<close>

lemma fold_count:
  "fold (\<lambda>i n. if P i then n + 1 else n) [0..<k] (c :: u64) = c + of_nat (card {i. i < k \<and> P i})"
proof (induction k)
  case 0
  then show ?case by simp
next
  case (Suc k)
  have "{i. i < Suc k \<and> P i} = (if P k then insert k {i. i < k \<and> P i} else {i. i < k \<and> P i})"
    by (auto simp: less_Suc_eq)
  then show ?case using Suc by simp
qed

lemma pmm_free_frames_card:
  assumes "pmm_inv s"
  shows "unat (pmm_get_free_frames s) = card (pmm_avail s)"
proof -
  have "{i. i < 1048576 \<and> \<not> pmm_test_bit (of_nat i) s} = pmm_avail s"
    by (rule set_eqI) (metis (lifting) mem_Collect_eq pmm_avail_bound test_bit_of_nat)
  then have "pmm_get_free_frames s = of_nat (card (pmm_avail s))"
    using assms fold_count [of "\<lambda>i. \<not> pmm_test_bit (of_nat i) s" 1048576 0]
    by (simp add: pmm_get_free_frames_def pmm_inv_def)
  moreover have "card (pmm_avail s) \<le> card {..<1048576 :: nat}"
    by (rule card_mono) (auto simp: pmm_avail_def)
  ultimately show ?thesis by (simp add: unat_of_nat_u64)
qed

subsection \<open>Initialisation\<close>

text \<open>The frames the memory map calls conventional, as the code computes their numbers.\<close>

definition conventional_frame :: "ram \<Rightarrow> boot_info \<Rightarrow> nat \<Rightarrow> bool" where
  "conventional_frame m info g \<longleftrightarrow>
     (\<exists>i < unat (mmap_size info div mmap_desc_size info).
        desc_type (mmap_descriptor m info i) = EFI_CONVENTIONAL_MEMORY \<and>
        (\<exists>k < unat (number_of_pages (mmap_descriptor m info i)).
           unat (physical_start (mmap_descriptor m info i) div PAGE_SIZE + of_nat k) = g))"

lemma pmm_avail_fold_clear:
  "pmm_avail (fold (\<lambda>f. pmm_clear_bit (a + of_nat f)) xs s) =
     pmm_avail s \<union> {g. g < 1048576 \<and> (\<exists>f \<in> set xs. unat (a + of_nat f) = g)}"
  by (induction xs arbitrary: s) (auto simp: pmm_avail_clear)

lemma fold_clear_frame [simp]:
  "ram (fold (\<lambda>f. pmm_clear_bit (a + of_nat f)) xs s) = ram s"
  "total_frames (fold (\<lambda>f. pmm_clear_bit (a + of_nat f)) xs s) = total_frames s"
  "pmm_state.more (fold (\<lambda>f. pmm_clear_bit (a + of_nat f)) xs s) = pmm_state.more s"
  by (induction xs arbitrary: s) simp_all

lemma mark_descriptor_frame [simp]:
  "ram (pmm_mark_descriptor info i s) = ram s"
  "total_frames (pmm_mark_descriptor info i s) = total_frames s"
  "pmm_state.more (pmm_mark_descriptor info i s) = pmm_state.more s"
  by (simp_all add: pmm_mark_descriptor_def Let_def)

lemma pmm_avail_mark:
  "pmm_avail (pmm_mark_descriptor info i s) = pmm_avail s \<union>
     {g. g < 1048576 \<and> desc_type (mmap_descriptor (ram s) info i) = EFI_CONVENTIONAL_MEMORY \<and>
        (\<exists>k < unat (number_of_pages (mmap_descriptor (ram s) info i)).
           unat (physical_start (mmap_descriptor (ram s) info i) div PAGE_SIZE + of_nat k) = g)}"
  by (auto simp: pmm_mark_descriptor_def Let_def pmm_avail_fold_clear)

lemma fold_mark_frame [simp]:
  "ram (fold (pmm_mark_descriptor info) xs s) = ram s"
  "total_frames (fold (pmm_mark_descriptor info) xs s) = total_frames s"
  "pmm_state.more (fold (pmm_mark_descriptor info) xs s) = pmm_state.more s"
  by (induction xs arbitrary: s) simp_all

lemma pmm_avail_fold_mark:
  "pmm_avail (fold (pmm_mark_descriptor info) xs s) = pmm_avail s \<union>
     {g. g < 1048576 \<and> (\<exists>i \<in> set xs.
        desc_type (mmap_descriptor (ram s) info i) = EFI_CONVENTIONAL_MEMORY \<and>
        (\<exists>k < unat (number_of_pages (mmap_descriptor (ram s) info i)).
           unat (physical_start (mmap_descriptor (ram s) info i) div PAGE_SIZE + of_nat k) = g))}"
  by (induction xs arbitrary: s) (auto simp: pmm_avail_mark)

lemma fold_fill_bitmap:
  "fold (\<lambda>i s. s\<lparr>pmm_bitmap := (pmm_bitmap s)(i := v)\<rparr>) [0..<n] s =
     s\<lparr>pmm_bitmap := (\<lambda>i. if i < n then v else pmm_bitmap s i)\<rparr>"
  by (induction n) (auto simp: fun_eq_iff less_Suc_eq)

lemma fold_reserve:
  "frame_bit (fold (\<lambda>f. pmm_set_bit (of_nat f)) [0..<n] s) g \<longleftrightarrow>
     frame_bit s g \<or> (\<exists>f < n. unat (of_nat f :: u64) < 1048576 \<and> g = unat (of_nat f :: u64))"
  by (induction n arbitrary: g) (auto simp: frame_bit_set less_Suc_eq)

lemma fold_reserve_frame [simp]:
  "total_frames (fold (\<lambda>f. pmm_set_bit (of_nat f)) [0..<n] s) = total_frames s"
  "ram (fold (\<lambda>f. pmm_set_bit (of_nat f)) [0..<n] s) = ram s"
  "pmm_state.more (fold (\<lambda>f. pmm_set_bit (of_nat f)) [0..<n] s) = pmm_state.more s"
  by (induction n) simp_all

lemma reserved_bits:
  "frame_bit (fold (\<lambda>f. pmm_set_bit (of_nat f)) [0..<RESERVED_FRAMES] s) g \<longleftrightarrow>
     frame_bit s g \<or> g < RESERVED_FRAMES"
proof -
  have "(\<exists>f < RESERVED_FRAMES. unat (of_nat f :: u64) < 1048576 \<and> g = unat (of_nat f :: u64)) \<longleftrightarrow>
      g < RESERVED_FRAMES"
    by (auto simp: unat_of_nat_u64 RESERVED_FRAMES_def intro!: exI [of _ g])
  then show ?thesis unfolding fold_reserve by simp
qed

lemma pmm_init_state:
  assumes "mmap_desc_size info \<noteq> 0"
  obtains t where "pmm_init info s = Some t" "pmm_inv t" "ram t = ram s" "pmm_state.more t = pmm_state.more s"
    "pmm_avail t = {g. RESERVED_FRAMES \<le> g \<and> g < 1048576 \<and> conventional_frame (ram s) info g}"
proof -
  let ?n = "unat (mmap_size info div mmap_desc_size info)"
  define s1 where "s1 = s\<lparr>total_frames := MAX_FRAMES,
    pmm_bitmap := (\<lambda>i. if i < BITMAP_SIZE then 0xFF else pmm_bitmap s i)\<rparr>"
  define s2 where "s2 = fold (pmm_mark_descriptor info) [0..<?n] s1"
  define t where "t = fold (\<lambda>f. pmm_set_bit (of_nat f)) [0..<RESERVED_FRAMES] s2"
  have bits: "frame_bit s1 f" if "f < 1048576" for f
  proof -
    have "f div 8 < BITMAP_SIZE" using that by (simp add: BITMAP_SIZE_def less_mult_imp_div_less)
    moreover have "bit (0xFF :: u8) (f mod 8)"
    proof -
      have "(0xFF :: u8) = mask 8" by (simp add: mask_eq_exp_minus_1)
      then show ?thesis by (simp only: bit_mask_iff) simp
    qed
    ultimately show ?thesis by (simp add: frame_bit_def s1_def)
  qed
  then have "pmm_avail s1 = {}" by (auto simp: pmm_avail_def)
  then have "pmm_avail s2 = {g. g < 1048576 \<and> conventional_frame (ram s) info g}"
    by (auto simp: s2_def pmm_avail_fold_mark conventional_frame_def s1_def)
  moreover have "pmm_avail t = pmm_avail s2 - {g. g < RESERVED_FRAMES}"
    unfolding pmm_avail_def t_def reserved_bits by blast
  ultimately have "pmm_avail t =
      {g. RESERVED_FRAMES \<le> g \<and> g < 1048576 \<and> conventional_frame (ram s) info g}"
    by (simp add: set_diff_eq not_less conj_commute conj_left_commute)
  moreover have "pmm_init info s = Some t"
    using assms by (simp add: pmm_init_def Let_def fold_fill_bitmap t_def s2_def s1_def cong: if_cong)
  moreover have "pmm_inv t" by (simp add: pmm_inv_def t_def reserved_bits s2_def s1_def)
  moreover have "ram t = ram s" "pmm_state.more t = pmm_state.more s" by (simp_all add: t_def s2_def s1_def)
  ultimately show ?thesis by (intro that)
qed

subsection \<open>Properties\<close>

text \<open>A bitmap with exactly the frames 2048, 2049 and 2050 free, for the witnesses.\<close>

definition sample_bitmap :: "nat \<Rightarrow> u8" where
  "sample_bitmap = (\<lambda>i. if i = 256 then 0xF8 else 0xFF)"

definition sample_pmm :: "pmm_state" where
  "sample_pmm =
     \<lparr>ram = \<lambda>_. 0, io_trace = [], timer_ticks = 0, system_uptime_seconds = 0,
      shift_pressed = 0, caps_lock = 0, pmm_bitmap = sample_bitmap, total_frames = MAX_FRAMES\<rparr>"

lemma full_byte: "k < 8 \<Longrightarrow> bit (0xFF :: u8) k"
proof -
  have "(0xFF :: u8) = mask 8" by (simp add: mask_eq_exp_minus_1)
  then show "k < 8 \<Longrightarrow> bit (0xFF :: u8) k" by (simp only: bit_mask_iff) simp
qed

lemma used_bitmap:
  assumes "pmm_bitmap s = (\<lambda>_. 0xFF)" "total_frames s = MAX_FRAMES"
  shows "pmm_avail s = {}" "pmm_inv s"
proof -
  have "frame_bit s f" for f
    unfolding frame_bit_def assms(1) by (rule full_byte) simp
  then show "pmm_avail s = {}" "pmm_inv s" using assms(2) by (simp_all add: pmm_avail_def pmm_inv_def)
qed

lemma sample_bit: "bit (sample_bitmap (f div 8)) (f mod 8) \<longleftrightarrow> f \<notin> {2048, 2049, 2050}"
proof (cases "f div 8 = 256")
  case True
  then have f: "f = 2048 + f mod 8" by presburger
  have "f mod 8 \<in> {0, 1, 2, 3, 4, 5, 6, 7}" by auto
  then show ?thesis using f True by (auto simp: sample_bitmap_def)
next
  case False
  moreover then have "f \<notin> {2048, 2049, 2050}" by auto
  ultimately show ?thesis using full_byte [of "f mod 8"] by (simp add: sample_bitmap_def)
qed

lemma sample_avail: "pmm_bitmap s = sample_bitmap \<Longrightarrow> pmm_avail s = {2048, 2049, 2050}"
  by (auto simp: pmm_avail_def frame_bit_def sample_bit)

lemma sample_inv: "pmm_bitmap s = sample_bitmap \<Longrightarrow> total_frames s = MAX_FRAMES \<Longrightarrow> pmm_inv s"
  by (simp add: pmm_inv_def frame_bit_def sample_bit RESERVED_FRAMES_def)

lemma sample_pmm_facts:
  "pmm_inv sample_pmm" "pmm_avail sample_pmm = {2048, 2049, 2050}"
  by (rule sample_inv sample_avail; simp add: sample_pmm_def)+

text \<open>C23: after \<open>pmm_init\<close> the free frames are exactly the frames of conventional memory
  between 8 MiB and 4 GiB, and the allocator's invariant holds.\<close>

theorem pmm_init_free_set:
  assumes "mmap_desc_size info \<noteq> 0"
  shows "\<exists>t. pmm_init info s = Some t \<and> pmm_inv t \<and> ram t = ram s \<and>
    pmm_avail t = {g. RESERVED_FRAMES \<le> g \<and> g < 1048576 \<and> conventional_frame (ram s) info g}"
  using pmm_init_state [OF assms, of s] by metis

theorem pmm_init_free_set_witness:
  "\<exists>t. pmm_init \<lparr>magic = 0, framebuffer = 0, info_fb_width = 0, info_fb_height = 0, info_fb_pitch = 0,
      info_fb_format = 0, mmap = 0x5000, mmap_size = 48, mmap_desc_size = 48,
      fw_vendor = [], fw_revision = 0\<rparr> (sample_pmm\<lparr>ram := store32 0x5000 7
        (store64 0x5008 0x800000 (store64 0x5018 2 (\<lambda>_. 0)))\<rparr>) = Some t \<and>
    pmm_avail t = {2048, 2049}"
proof -
  let ?m = "store32 0x5000 7 (store64 0x5008 0x800000 (store64 0x5018 2 (\<lambda>_. 0)))"
  let ?i = "\<lparr>magic = 0, framebuffer = 0, info_fb_width = 0, info_fb_height = 0, info_fb_pitch = 0,
      info_fb_format = 0, mmap = 0x5000, mmap_size = 48, mmap_desc_size = 48,
      fw_vendor = [], fw_revision = 0\<rparr>"
  have "load32 ?m 0x5000 = 7" "load64 ?m 0x5008 = 0x800000" "load64 ?m 0x5018 = 2"
    by (simp_all add: load_store_simps disj_range_def)
  moreover have "(\<exists>k < 2. P k) \<longleftrightarrow> P 0 \<or> P 1" for P :: "nat \<Rightarrow> bool"
    by (auto simp: less_2_cases_iff)
  moreover have "unat (48 div 48 :: u64) = 1" by (simp add: unat_div)
  ultimately have "conventional_frame ?m ?i g \<longleftrightarrow> g = 2048 \<or> g = 2049" for g
    unfolding conventional_frame_def mmap_descriptor_def read_descriptor_def by auto
  then show ?thesis
    using pmm_init_free_set [of ?i "sample_pmm\<lparr>ram := ?m\<rparr>"]
    by (force simp: RESERVED_FRAMES_def)
qed

text \<open>C3: \<open>pmm_alloc_frame\<close> returns the address of the lowest free frame and takes just that
  frame, or returns \<open>NULL\<close> and changes nothing when no frame is free.\<close>

theorem pmm_alloc_lowest:
  assumes "pmm_inv s"
  shows "if pmm_avail s = {} then pmm_alloc_frame s = (0, s)
    else unat (fst (pmm_alloc_frame s)) = Min (pmm_avail s) * 4096 \<and>
      pmm_avail (snd (pmm_alloc_frame s)) = pmm_avail s - {Min (pmm_avail s)} \<and>
      pmm_inv (snd (pmm_alloc_frame s))"
proof (cases "pmm_avail s = {}")
  case False
  then have "Min (pmm_avail s) < 1048576"
    using assms pmm.Min_avail pmm_avail_bound by blast
  then show ?thesis using False pmm.alloc_avail [OF assms False] pmm.alloc_invar [OF assms]
    by (simp add: pmm.alloc_addr [OF assms False] frame_address_div)
qed (simp add: assms pmm_alloc_frame_none)

theorem pmm_alloc_lowest_witness: "fst (pmm_alloc_frame sample_pmm) = 0x800000"
  using pmm_alloc_lowest [OF sample_pmm_facts(1)]
  by (simp add: sample_pmm_facts(2) word_unat_eq_iff)

text \<open>freeing the frame just allocated restores the allocator's state exactly.\<close>

theorem pmm_free_alloc_roundtrip:
  assumes "pmm_inv s" "pmm_avail s \<noteq> {}"
  shows "pmm_free_frame (fst (pmm_alloc_frame s)) (snd (pmm_alloc_frame s)) = s"
  using assms by (rule pmm.free_alloc)

theorem pmm_free_alloc_roundtrip_witness:
  "pmm_free_frame (fst (pmm_alloc_frame sample_pmm)) (snd (pmm_alloc_frame sample_pmm)) = sample_pmm"
  by (rule pmm_free_alloc_roundtrip) (simp_all add: sample_pmm_facts)

text \<open>\<open>pmm_get_free_frames\<close> returns the number of free frames.\<close>

theorem pmm_free_count:
  assumes "pmm_inv s"
  shows "unat (pmm_get_free_frames s) = card (pmm_avail s)"
  using assms by (rule pmm_free_frames_card)

theorem pmm_free_count_witness: "unat (pmm_get_free_frames sample_pmm) = 3"
  using pmm_free_count [OF sample_pmm_facts(1)] by (simp add: sample_pmm_facts(2))

text \<open>two successful allocations in a row return different frames.\<close>

theorem pmm_alloc_distinct:
  assumes "pmm_inv s" "fst (pmm_alloc_frame s) \<noteq> 0"
    and "fst (pmm_alloc_frame (snd (pmm_alloc_frame s))) \<noteq> 0"
  shows "fst (pmm_alloc_frame s) \<noteq> fst (pmm_alloc_frame (snd (pmm_alloc_frame s)))"
  using assms by (rule pmm.alloc_twice_distinct)

theorem pmm_alloc_distinct_witness:
  "fst (pmm_alloc_frame sample_pmm) \<noteq> fst (pmm_alloc_frame (snd (pmm_alloc_frame sample_pmm)))"
proof (rule pmm_alloc_distinct)
  have "pmm_avail (snd (pmm_alloc_frame sample_pmm)) = {2049, 2050}"
    using pmm.alloc_avail [OF sample_pmm_facts(1)] by (simp add: sample_pmm_facts(2)) 
  then show "fst (pmm_alloc_frame (snd (pmm_alloc_frame sample_pmm))) \<noteq> 0"
    by (subst pmm.alloc_nonnull_iff) (simp_all add: pmm.alloc_invar sample_pmm_facts)
qed (simp_all add: pmm.alloc_nonnull_iff sample_pmm_facts)

end
