(* ===== verification/Strings.thy ===== *)
theory Strings
  imports Machine
begin

section \<open>\<^verbatim>\<open>string.c\<close>: memcpy and memset\<close>

text \<open>
  Both routines of \<open>src/kernel/string.c\<close> have a byte loop and, for 16-byte aligned
  pointers and at least 16 bytes, a path of 64-bit accesses unrolled 8, 4, 2 and 1 times
  with a byte loop for the rest. \<open>blk_loop k\<close> is the loop
  \<open>for (; i + k <= n / 8; i += k)\<close> whose body is \<open>k\<close> accesses in the order written. Its
  counter cannot wrap (\<open>i + 8 <= 2 ^ 61\<close>), so it is a \<open>nat\<close>; addresses and the length are
  64-bit words. The references \<open>set_bytes\<close> and \<open>copy_bytes\<close> are the plain byte loops, and
  both routines are proved equal to them for every address, length and overlap.
\<close>

function blk_loop :: "nat \<Rightarrow> (nat \<Rightarrow> ram \<Rightarrow> ram) \<Rightarrow> nat \<Rightarrow> nat \<Rightarrow> ram \<Rightarrow> nat \<times> ram" where
  "blk_loop k body q i m =
     (if 0 < k \<and> i + k \<le> q
      then blk_loop k body q (i + k) (fold (\<lambda>j. body (i + j)) [0..<k] m)
      else (i, m))"
  by pat_completeness auto
termination
  by (relation "measure (\<lambda>(k, body, q, i, m). q - i)") auto

declare blk_loop.simps [simp del]

definition set_byte_at :: "u64 \<Rightarrow> u8 \<Rightarrow> nat \<Rightarrow> ram \<Rightarrow> ram" where
  "set_byte_at p b k m = m(p + of_nat k := b)"

definition copy_byte_at :: "u64 \<Rightarrow> u64 \<Rightarrow> nat \<Rightarrow> ram \<Rightarrow> ram" where
  "copy_byte_at d s k m = m(d + of_nat k := m (s + of_nat k))"

definition set_word_at :: "u64 \<Rightarrow> u64 \<Rightarrow> nat \<Rightarrow> ram \<Rightarrow> ram" where
  "set_word_at p pattern i m = store64 (p + of_nat (8 * i)) pattern m"

definition copy_word_at :: "u64 \<Rightarrow> u64 \<Rightarrow> nat \<Rightarrow> ram \<Rightarrow> ram" where
  "copy_word_at d s i m =
     store64 (d + of_nat (8 * i)) (load64 m (s + of_nat (8 * i))) m"

definition memset_pattern :: "u8 \<Rightarrow> u64" where
  "memset_pattern b =
     (ucast b OR push_bit 8 (ucast b) OR push_bit 16 (ucast b) OR push_bit 24 (ucast b) OR
      push_bit 32 (ucast b) OR push_bit 40 (ucast b) OR push_bit 48 (ucast b) OR
      push_bit 56 (ucast b))"

definition memcpy :: "u64 \<Rightarrow> u64 \<Rightarrow> u64 \<Rightarrow> ram \<Rightarrow> u64 \<times> ram" where
  "memcpy dest src n m =
     (if n = 0 \<or> src = dest then (dest, m)
      else if dest mod 16 = 0 \<and> src mod 16 = 0 \<and> 16 \<le> n then
        (let q = unat n div 8;
             (i, m) = blk_loop 8 (copy_word_at dest src) q 0 m;
             (i, m) = blk_loop 4 (copy_word_at dest src) q i m;
             (i, m) = blk_loop 2 (copy_word_at dest src) q i m;
             (i, m) = blk_loop 1 (copy_word_at dest src) q i m
         in (dest, fold (copy_byte_at dest src) [i * 8..<unat n] m))
      else (dest, fold (copy_byte_at dest src) [0..<unat n] m))"

definition memset :: "u64 \<Rightarrow> u32 \<Rightarrow> u64 \<Rightarrow> ram \<Rightarrow> u64 \<times> ram" where
  "memset p c n m =
     (let b = (ucast c :: u8) in
      if n = 0 then (p, m)
      else if p mod 16 = 0 \<and> 16 \<le> n then
        (let pattern = memset_pattern b;
             q = unat n div 8;
             (i, m) = blk_loop 8 (set_word_at p pattern) q 0 m;
             (i, m) = blk_loop 4 (set_word_at p pattern) q i m;
             (i, m) = blk_loop 2 (set_word_at p pattern) q i m;
             (i, m) = blk_loop 1 (set_word_at p pattern) q i m
         in (p, fold (set_byte_at p b) [i * 8..<unat n] m))
      else (p, fold (set_byte_at p b) [0..<unat n] m))"

subsection \<open>The reference byte loops\<close>

definition set_bytes :: "u64 \<Rightarrow> u8 \<Rightarrow> nat \<Rightarrow> ram \<Rightarrow> ram" where
  "set_bytes p b n m = fold (set_byte_at p b) [0..<n] m"

definition copy_bytes :: "u64 \<Rightarrow> u64 \<Rightarrow> nat \<Rightarrow> ram \<Rightarrow> ram" where
  "copy_bytes d s n m = fold (copy_byte_at d s) [0..<n] m"

subsection \<open>The unrolled loops\<close>

lemma fold_upt_add:
  "fold (\<lambda>j. body (i + j)) [0..<k] m = fold body [i..<i + k] m"
proof -
  have "[i..<i + k] = map (\<lambda>j. i + j) [0..<k]"
    using map_add_upt [of i k] by (simp add: add.commute)
  then show ?thesis by (simp add: fold_map comp_def)
qed

lemma fold_upt_trans:
  "i \<le> j \<Longrightarrow> j \<le> k \<Longrightarrow> fold f [j..<k] (fold f [i..<j] m) = fold f [i..<k] m"
  using upt_add_eq_append [of i j "k - j"] by simp

lemma blk_loop_fold:
  "0 < k \<Longrightarrow> i \<le> q \<Longrightarrow>
   blk_loop k body q i m =
     (i + k * ((q - i) div k), fold body [i..<i + k * ((q - i) div k)] m)"
proof (induction k body q i m rule: blk_loop.induct)
  case (1 k body q i m)
  show ?case
  proof (cases "i + k \<le> q")
    case True
    let ?j = "(q - (i + k)) div k"
    have d: "(q - i) div k = Suc ?j"
      using True 1(2) by (subst le_div_geq) (auto simp: diff_diff_eq)
    have "blk_loop k body q i m = blk_loop k body q (i + k) (fold body [i..<i + k] m)"
      using True 1(2) by (subst blk_loop.simps) (simp add: fold_upt_add)
    also have "\<dots> = (i + k + k * ?j,
        fold body [i + k..<i + k + k * ?j] (fold body [i..<i + k] m))"
      using 1(1) 1(2) True by (simp add: fold_upt_add)
    also have "fold body [i + k..<i + k + k * ?j] (fold body [i..<i + k] m)
        = fold body [i..<i + k + k * ?j] m"
      by (simp add: fold_upt_trans)
    finally show ?thesis by (simp add: d add.assoc)
  next
    case False
    then have "(q - i) div k = 0" using 1(2) by (intro div_less) linarith
    then show ?thesis using False by (subst blk_loop.simps) simp
  qed
qed

lemma fold_words_bytes:
  assumes "\<And>i m. i < q \<Longrightarrow> word i m = fold byte [8 * i..<8 * i + 8] m"
  shows "fold word [0..<q] m = fold byte [0..<8 * q] m"
  using assms
proof (induction q arbitrary: m)
  case 0
  then show ?case by simp
next
  case (Suc q)
  have "fold word [0..<Suc q] m = word q (fold byte [0..<8 * q] m)"
    using Suc by simp
  also have "\<dots> = fold byte ([0..<8 * q] @ [8 * q..<8 * q + 8]) m"
    using Suc.prems by simp
  also have "[0..<8 * q] @ [8 * q..<8 * q + 8] = [0..<8 * Suc q]"
    using upt_add_eq_append [of 0 "8 * q" 8] by (simp add: add.commute)
  finally show ?case .
qed

lemma blk_loop_ex:
  assumes "0 < k" "i \<le> q"
  shows "\<exists>j. i \<le> j \<and> j \<le> q \<and> (\<forall>m. blk_loop k body q i m = (j, fold body [i..<j] m))"
proof -
  have "i + k * ((q - i) div k) \<le> q"
    using times_div_less_eq_dividend [of k "q - i"] assms by linarith
  then show ?thesis using assms
    by (intro exI [of _ "i + k * ((q - i) div k)"]) (simp add: blk_loop_fold)
qed

text \<open>The four unrolled loops together run the body once for each index below \<open>q\<close>.\<close>

lemma unrolled_loops:
  "(let (i, m) = blk_loop 8 body q 0 m;
        (i, m) = blk_loop 4 body q i m;
        (i, m) = blk_loop 2 body q i m;
        (i, m) = blk_loop 1 body q i m
    in f i m) = f q (fold body [0..<q] m)"
proof -
  obtain a where a: "a \<le> q" "\<And>m. blk_loop 8 body q 0 m = (a, fold body [0..<a] m)"
    using blk_loop_ex [of 8 0 q body] by auto
  obtain b where b: "a \<le> b" "b \<le> q" "\<And>m. blk_loop 4 body q a m = (b, fold body [a..<b] m)"
    using blk_loop_ex [of 4 a q body] a by auto
  obtain c where c: "b \<le> c" "c \<le> q" "\<And>m. blk_loop 2 body q b m = (c, fold body [b..<c] m)"
    using blk_loop_ex [of 2 b q body] b by auto
  have d: "blk_loop 1 body q c m = (q, fold body [c..<q] m)" for m
    using c by (simp add: blk_loop_fold)
  show ?thesis using a b c d by (simp add: fold_upt_trans)
qed

subsection \<open>A word access is eight byte accesses\<close>

lemma fold_writes:
  fixes p :: u64 and m :: ram
  assumes "hi \<le> 2 ^ 64"
  shows "fold (\<lambda>k m. m(p + of_nat k := f k)) [lo..<hi] m x =
     (if lo \<le> unat (x - p) \<and> unat (x - p) < hi then f (unat (x - p)) else m x)"
  using assms
proof (induction hi)
  case 0
  then show ?case by simp
next
  case (Suc hi)
  have "unat (x - p) = hi \<longleftrightarrow> x = p + of_nat hi"
    using Suc.prems by (intro unat_sub_eq_iff) simp
  then show ?case using Suc by (auto simp: less_Suc_eq unat_of_nat)
qed

lemma set_bytes_apply:
  "n \<le> 2 ^ 64 \<Longrightarrow> set_bytes p b n m x = (if unat (x - p) < n then b else m x)"
  using fold_writes [of n p "\<lambda>_. b" 0 m x]
  by (simp add: set_bytes_def set_byte_at_def [abs_def])

lemma load_set_bytes_disj:
  assumes "n \<le> 2 ^ 64" "disj_range p n a k"
  shows "load_bytes k a (set_bytes p b n m) = load_bytes k a m"
proof (rule nth_equalityI)
  fix i
  assume "i < length (load_bytes k a (set_bytes p b n m))"
  then have i: "i < k" by simp
  then have "n \<le> unat (a + of_nat i - p)" by (rule disj_range_offset [OF assms(2)])
  then show "load_bytes k a (set_bytes p b n m) ! i = load_bytes k a m ! i"
    using assms(1) i by (simp add: nth_load_bytes set_bytes_apply)
qed simp

lemma load64_set_bytes_disj:
  "n \<le> 2 ^ 64 \<Longrightarrow> disj_range p n a 8 \<Longrightarrow> load64 (set_bytes p b n m) a = load64 m a"
  by (simp add: load64_def load_set_bytes_disj)

lemma load32_set_bytes_disj:
  "n \<le> 2 ^ 64 \<Longrightarrow> disj_range p n a 4 \<Longrightarrow> load32 (set_bytes p b n m) a = load32 m a"
  by (simp add: load32_def load_set_bytes_disj)

lemma load64_set_bytes_zero:
  assumes "n \<le> 2 ^ 64" "unat (a - p) + 8 \<le> n"
  shows "load64 (set_bytes p 0 n m) a = 0"
proof (rule bit_word_eqI)
  fix k
  assume "k < LENGTH(64)"
  then have k: "k div 8 < 8" by simp
  have "unat (a - p + of_nat (k div 8)) = unat (a - p) + k div 8"
  proof (rule unat_add_of_nat)
    have "unat (a - p) + k div 8 < n" using assms(2) k by linarith
    then show "unat (a - p) + k div 8 < 2 ^ 64" using assms(1) by (rule less_le_trans)
  qed
  moreover have "a + of_nat (k div 8) - p = a - p + of_nat (k div 8)" by simp
  ultimately have "unat (a + of_nat (k div 8) - p) = unat (a - p) + k div 8" by (simp only:)
  then have "unat (a + of_nat (k div 8) - p) < n" using assms(2) k by linarith
  then show "bit (load64 (set_bytes p 0 n m) a) k = bit (0 :: u64) k"
    using assms(1) by (simp add: bit_load64 set_bytes_apply)
qed

lemma memset_pattern_le_word: "memset_pattern b = le_word (replicate 8 b)"
  by (simp add: memset_pattern_def numeral_eq_Suc push_bit_or or.assoc)

lemma store64_writes:
  assumes "8 * i + 8 \<le> 2 ^ 64"
    and "\<And>j. j < 8 \<Longrightarrow> ucast (drop_bit (8 * j) v) = f (8 * i + j)"
  shows "store64 (p + of_nat (8 * i)) v m =
    fold (\<lambda>k m. m(p + of_nat k := f k)) [8 * i..<8 * i + 8] m"
proof
  fix x
  note sh = unat_sub_shift [of "8 * i" 8 x p]
  show "store64 (p + of_nat (8 * i)) v m x =
    fold (\<lambda>k m. m(p + of_nat k := f k)) [8 * i..<8 * i + 8] m x"
  proof (cases "unat (x - (p + of_nat (8 * i))) < 8")
    case True
    let ?j = "unat (x - (p + of_nat (8 * i)))"
    have r: "8 * i \<le> unat (x - p)" "unat (x - p) < 8 * i + 8"
      using True sh(1) assms(1) by auto
    have j: "?j = unat (x - p) - 8 * i" using sh(2) r assms(1) by simp
    have "8 * i + ?j = unat (x - p)" unfolding j using r by simp
    then show ?thesis using True assms(2) [OF True] r assms(1)
      by (simp add: store64_apply fold_writes del: of_nat_mult)
  next
    case False
    then show ?thesis using sh(1) assms(1)
      by (auto simp add: store64_apply fold_writes simp del: of_nat_mult)
  qed
qed

lemma set_word_bytes:
  assumes "8 * i + 8 \<le> 2 ^ 64"
  shows "set_word_at p (memset_pattern b) i m = fold (set_byte_at p b) [8 * i..<8 * i + 8] m"
  unfolding set_word_at_def set_byte_at_def memset_pattern_le_word
  using assms by (intro store64_writes) (simp_all add: byte_le_word)

lemma word_index_bound:
  fixes n :: u64
  assumes "i < unat n div 8"
  shows "8 * i + 8 \<le> 2 ^ 64"
proof -
  have "8 * i + 8 \<le> 8 * (unat n div 8)" using assms by simp
  also have "\<dots> \<le> unat n" by simp
  finally show ?thesis using unat_u64_bound [of n] by simp
qed

lemma memset_set_bytes: "memset p c n m = (p, set_bytes p (ucast c) (unat n) m)"
proof (cases "p mod 16 = 0 \<and> 16 \<le> n")
  case True
  let ?b = "ucast c :: u8" and ?q = "unat n div 8"
  have w: "fold (set_word_at p (memset_pattern ?b)) [0..<?q] m = fold (set_byte_at p ?b) [0..<8 * ?q] m"
    by (rule fold_words_bytes) (rule set_word_bytes, rule word_index_bound)
  have "n \<noteq> 0" using True by auto
  then have "memset p c n m = (p, fold (set_byte_at p ?b) [?q * 8..<unat n]
      (fold (set_word_at p (memset_pattern ?b)) [0..<?q] m))"
    unfolding memset_def Let_def if_P [OF True]
    using unrolled_loops [of "set_word_at p (memset_pattern ?b)" ?q m
        "\<lambda>i m. (p, fold (set_byte_at p ?b) [i * 8..<unat n] m)", unfolded Let_def]
    by (simp only: if_False True simp_thms)
  then show ?thesis
    by (simp add: w set_bytes_def fold_upt_trans mult.commute [of _ 8])
next
  case False
  then show ?thesis unfolding memset_def Let_def if_not_P [OF False]
    by (auto simp: set_bytes_def)
qed

subsection \<open>memcpy is the byte loop\<close>

text \<open>
  Where no source byte of the block is one of its destination bytes, the loop reads the
  memory it started from.
\<close>

lemma fold_copy_writes:
  assumes "n \<le> 2 ^ 64" "lo \<le> n"
    and "\<And>j k. lo \<le> j \<Longrightarrow> j < n \<Longrightarrow> lo \<le> k \<Longrightarrow> k < j \<Longrightarrow> s + of_nat j \<noteq> d + of_nat k"
  shows "fold (copy_byte_at d s) [lo..<n] m =
    fold (\<lambda>k m'. m'(d + of_nat k := m (s + of_nat k))) [lo..<n] m"
  using assms
proof (induction n)
  case 0
  then show ?case by simp
next
  case (Suc n)
  show ?case
  proof (cases "lo \<le> n")
    case False
    then show ?thesis by simp
  next
    case True
    let ?m = "fold (\<lambda>k m'. m'(d + of_nat k := m (s + of_nat k))) [lo..<n] m"
    have IH: "fold (copy_byte_at d s) [lo..<n] m = ?m"
      using Suc.prems True by (intro Suc.IH) auto
    have "\<not> (lo \<le> unat (s + of_nat n - d) \<and> unat (s + of_nat n - d) < n)"
      using Suc.prems(3) [of n "unat (s + of_nat n - d)"] True by (auto simp: add_unat_sub)
    then have "?m (s + of_nat n) = m (s + of_nat n)"
      using Suc.prems(1) by (subst fold_writes) auto
    then have "copy_byte_at d s n ?m = ?m(d + of_nat n := m (s + of_nat n))"
      unfolding copy_byte_at_def by (rule arg_cong)
    then show ?thesis
      by (simp only: upt_Suc_append [OF True] fold_append comp_apply IH fold_simps id_apply)
  qed
qed

lemma copy_word_bytes:
  assumes "8 * i + 8 \<le> 2 ^ 64"
    and "\<And>j k. j < 8 \<Longrightarrow> k < j \<Longrightarrow> s + of_nat (8 * i) + of_nat j \<noteq> d + of_nat (8 * i) + of_nat k"
  shows "copy_word_at d s i m = fold (copy_byte_at d s) [8 * i..<8 * i + 8] m"
proof -
  have "copy_word_at d s i m =
      fold (\<lambda>k m'. m'(d + of_nat k := m (s + of_nat k))) [8 * i..<8 * i + 8] m"
    unfolding copy_word_at_def load64_def using assms(1)
    by (intro store64_writes) (simp_all add: byte_le_word nth_load_bytes add.assoc)
  also have "\<dots> = fold (copy_byte_at d s) [8 * i..<8 * i + 8] m"
  proof (rule fold_copy_writes [symmetric])
    fix j k
    assume jk: "8 * i \<le> j" "j < 8 * i + 8" "8 * i \<le> k" "k < j"
    then have "s + of_nat (8 * i) + of_nat (j - 8 * i) \<noteq> d + of_nat (8 * i) + of_nat (k - 8 * i)"
      by (intro assms(2)) auto
    then show "s + of_nat j \<noteq> d + of_nat k"
      using jk by (simp add: add.assoc of_nat_diff)
  qed (use assms(1) in simp_all)
  finally show ?thesis .
qed

lemma aligned_offsets_differ:
  fixes s d :: u64
  assumes "s mod 16 = 0" "d mod 16 = 0" "j < 8" "k < j"
  shows "s + of_nat j \<noteq> d + of_nat k"
proof
  assume eq: "s + of_nat j = d + of_nat k"
  have s: "unat s mod 16 = 0" and d: "unat d mod 16 = 0"
    using arg_cong [OF assms(1), of unat] arg_cong [OF assms(2), of unat]
    by (simp_all add: unat_mod)
  have m: "unat (a + of_nat i) mod 16 = (unat a + i) mod 16" for a :: u64 and i
    by (simp add: unat_word_ariths unat_of_nat mod_mod_cancel mod_add_right_eq)
  have "(unat s + j) mod 16 = (unat d + k) mod 16"
    using arg_cong [OF eq, of "\<lambda>a. unat a mod 16"] by (simp only: m)
  then have "j mod 16 = k mod 16" using s d by (metis add_0 mod_add_left_eq)
  then show False using assms by simp
qed

lemma memcpy_copy_bytes: "memcpy d s n m = (d, copy_bytes d s (unat n) m)"
proof (cases "s = d")
  case True
  have "fold (copy_byte_at d d) xs m = m" for xs
    by (induction xs) (simp_all add: copy_byte_at_def)
  then show ?thesis using True by (simp add: memcpy_def copy_bytes_def)
next
  case ne: False
  show ?thesis
  proof (cases "d mod 16 = 0 \<and> s mod 16 = 0 \<and> 16 \<le> n")
    case True
    let ?q = "unat n div 8"
    have w: "fold (copy_word_at d s) [0..<?q] m = fold (copy_byte_at d s) [0..<8 * ?q] m"
    proof (rule fold_words_bytes, rule copy_word_bytes)
      fix i j k :: nat
      assume "j < 8" "k < j"
      then have "s + of_nat j \<noteq> d + of_nat k"
        using True by (intro aligned_offsets_differ) auto
      then show "s + of_nat (8 * i) + of_nat j \<noteq> d + of_nat (8 * i) + of_nat k"
        by (simp add: algebra_simps)
    qed (rule word_index_bound)
    have "\<not> (n = 0 \<or> s = d)" using True ne by auto
    then have "memcpy d s n m = (d, fold (copy_byte_at d s) [?q * 8..<unat n]
        (fold (copy_word_at d s) [0..<?q] m))"
      unfolding memcpy_def Let_def if_P [OF True]
      using unrolled_loops [of "copy_word_at d s" ?q m
          "\<lambda>i m. (d, fold (copy_byte_at d s) [i * 8..<unat n] m)", unfolded Let_def]
      by (simp only: if_False simp_thms)
    then show ?thesis
      by (simp add: w copy_bytes_def fold_upt_trans mult.commute [of _ 8])
  next
    case False
    then show ?thesis unfolding memcpy_def Let_def if_not_P [OF False]
      using ne by (auto simp: copy_bytes_def)
  qed
qed

lemma copy_bytes_apply:
  assumes "n \<le> 2 ^ 64" "disj_range d n s n"
  shows "copy_bytes d s n m x = (if unat (x - d) < n then m (s + (x - d)) else m x)"
proof -
  have "s + of_nat j \<noteq> d + of_nat k" if "j < n" "k < j" for j k
  proof
    assume "s + of_nat j = d + of_nat k"
    then have "unat (s + of_nat j - d) = k"
      using that assms(1) by (simp add: unat_of_nat)
    then show False using disj_range_offset [OF assms(2) that(1)] that by simp
  qed
  then have "copy_bytes d s n m =
      fold (\<lambda>k m'. m'(d + of_nat k := m (s + of_nat k))) [0..<n] m"
    unfolding copy_bytes_def using assms(1) by (intro fold_copy_writes) auto
  then show ?thesis using assms(1) by (simp add: fold_writes)
qed

subsection \<open>Properties\<close>

text \<open>C22: \<open>memset\<close> returns its first argument and sets exactly the \<open>n\<close> bytes from it to
  the low byte of \<open>c\<close>, for every alignment and length, also across the end of the address space.\<close>

theorem memset_correct:
  "memset p c n m = (p, \<lambda>x. if unat (x - p) < unat n then ucast c else m x)"
  using unat_u64_bound [of n] by (simp add: memset_set_bytes set_bytes_apply fun_eq_iff)

text \<open>C1: \<open>memcpy\<close>, whose aligned path moves 64-bit words in unrolled blocks, has on every
  input the effect of the ascending byte loop, overlapping ranges included.\<close>

theorem memcpy_equiv_bytewise: "memcpy d s n m = (d, copy_bytes d s (unat n) m)"
  by (rule memcpy_copy_bytes)

text \<open>when the two ranges do not meet, \<open>memcpy\<close> makes the destination a copy of the
  source and changes nothing else.\<close>

theorem memcpy_disjoint:
  assumes "disj_range d (unat n) s (unat n)"
  shows "snd (memcpy d s n m) = (\<lambda>x. if unat (x - d) < unat n then m (s + (x - d)) else m x)"
  using assms unat_u64_bound [of n]
  by (simp add: memcpy_copy_bytes copy_bytes_apply fun_eq_iff)

theorem memcpy_disjoint_witness:
  "snd (memcpy 0x1000 0x2000 100 (\<lambda>a. ucast a)) 0x1023 = 0x23"
proof -
  have "disj_range 0x1000 (unat (100 :: u64)) 0x2000 (unat (100 :: u64))"
    by (simp add: disj_range_def)
  from memcpy_disjoint [OF this, of "\<lambda>a. ucast a"] show ?thesis by simp
qed

end
