(* ===== verification/Paging.thy ===== *)
theory Paging
  imports Pmm Strings
begin

section \<open>\<^verbatim>\<open>paging.c\<close>: the four-level page tables\<close>

text \<open>
  \<open>PageTable\<close> is 512 eight-byte entries followed by a 32-bit \<open>ref_count\<close>, so the count of
  a table at address \<open>t\<close> lies at \<open>t + 4096\<close>: in the frame after the table's own. The model
  reads and writes the bytes of memory at exactly those addresses.

  A table pointer 0 is \<open>NULL\<close>; using it is the fault \<open>None\<close>. \<open>paging_init\<close> takes the value
  of \<open>CR3\<close>, and each \<open>invlpg\<close> is logged in \<open>tlb_flushes\<close>.
\<close>

record paging_state = pmm_state +
  pml4 :: u64
  tlb_flushes :: "u64 list"

abbreviation PAGE_PRESENT :: u64 where "PAGE_PRESENT \<equiv> 1"
abbreviation PAGE_WRITABLE :: u64 where "PAGE_WRITABLE \<equiv> 2"

text \<open>\<open>table->entries[index]\<close> and \<open>table->ref_count\<close>\<close>

definition entry_addr :: "u64 \<Rightarrow> u64 \<Rightarrow> u64" where
  "entry_addr table index = table + 8 * index"

definition ref_addr :: "u64 \<Rightarrow> u64" where
  "ref_addr table = table + 4096"

definition get_entry :: "u64 \<Rightarrow> u64 \<Rightarrow> 'a paging_state_scheme \<Rightarrow> u64" where
  "get_entry table index s = load64 (ram s) (entry_addr table index)"

definition set_entry :: "u64 \<Rightarrow> u64 \<Rightarrow> u64 \<Rightarrow> 'a paging_state_scheme \<Rightarrow> 'a paging_state_scheme" where
  "set_entry table index v s = s\<lparr>ram := store64 (entry_addr table index) v (ram s)\<rparr>"

definition get_ref :: "u64 \<Rightarrow> 'a paging_state_scheme \<Rightarrow> u32" where
  "get_ref table s = load32 (ram s) (ref_addr table)"

definition set_ref :: "u64 \<Rightarrow> u32 \<Rightarrow> 'a paging_state_scheme \<Rightarrow> 'a paging_state_scheme" where
  "set_ref table v s = s\<lparr>ram := store32 (ref_addr table) v (ram s)\<rparr>"

definition invlpg :: "u64 \<Rightarrow> 'a paging_state_scheme \<Rightarrow> 'a paging_state_scheme" where
  "invlpg vaddr s = s\<lparr>tlb_flushes := vaddr # tlb_flushes s\<rparr>"

definition pml4_idx :: "u64 \<Rightarrow> u64" where "pml4_idx vaddr = drop_bit 39 vaddr AND 0x1FF"
definition pdpt_idx :: "u64 \<Rightarrow> u64" where "pdpt_idx vaddr = drop_bit 30 vaddr AND 0x1FF"
definition pd_idx :: "u64 \<Rightarrow> u64" where "pd_idx vaddr = drop_bit 21 vaddr AND 0x1FF"
definition pt_idx :: "u64 \<Rightarrow> u64" where "pt_idx vaddr = drop_bit 12 vaddr AND 0x1FF"

definition paging_init :: "u64 \<Rightarrow> 'a paging_state_scheme \<Rightarrow> 'a paging_state_scheme" where
  "paging_init cr3 s = s\<lparr>pml4 := cr3 AND NOT 0xFFF\<rparr>"

definition get_next_table ::
  "u64 \<Rightarrow> u64 \<Rightarrow> bool \<Rightarrow> 'a paging_state_scheme \<Rightarrow> (u64 \<times> 'a paging_state_scheme) option" where
  "get_next_table table index create s =
     (if table = 0 then None
      else if get_entry table index s AND PAGE_PRESENT = 0 then
        (if \<not> create then Some (0, s)
         else let (new_frame, s) = pmm_alloc_frame s
              in if new_frame = 0 then Some (0, s)
                 else let s = s\<lparr>ram := snd (memset new_frame 0 PAGE_SIZE (ram s))\<rparr>;
                          s = set_entry table index
                                (new_frame OR PAGE_PRESENT OR PAGE_WRITABLE) s;
                          s = set_ref new_frame 0 s;
                          s = set_ref table (get_ref table s + 1) s
                      in Some (get_entry table index s AND NOT 0xFFF, s))
      else Some (get_entry table index s AND NOT 0xFFF, s))"

definition paging_map ::
  "u64 \<Rightarrow> u64 \<Rightarrow> 'a paging_state_scheme \<Rightarrow> 'a paging_state_scheme option" where
  "paging_map vaddr paddr s =
     (if pml4 s = 0 then Some s
      else do {
        (pdpt, s) \<leftarrow> get_next_table (pml4 s) (pml4_idx vaddr) True s;
        (pd, s) \<leftarrow> get_next_table pdpt (pdpt_idx vaddr) True s;
        (pt, s) \<leftarrow> get_next_table pd (pd_idx vaddr) True s;
        (if pt = 0 then Some s
         else let s = (if get_entry pt (pt_idx vaddr) s AND PAGE_PRESENT = 0
                       then set_ref pt (get_ref pt s + 1) s else s);
                  s = set_entry pt (pt_idx vaddr)
                        ((paddr AND NOT 0xFFF) OR PAGE_PRESENT OR PAGE_WRITABLE) s
              in Some (invlpg vaddr s))
      })"

text \<open>
  The cascade of \<open>paging_unmap\<close>: a table whose count reaches 0 is given back and its entry
  in the parent cleared. The root is never given back.
\<close>

definition paging_release ::
  "u64 \<Rightarrow> u64 \<Rightarrow> u64 \<Rightarrow> u64 \<Rightarrow> u64 \<Rightarrow> 'a paging_state_scheme \<Rightarrow> 'a paging_state_scheme" where
  "paging_release root pdpt pd pt vaddr s =
     (if get_ref pt s \<noteq> 0 then s
      else let s = pmm_free_frame pt s;
               s = set_entry pd (pd_idx vaddr) 0 s;
               s = set_ref pd (get_ref pd s - 1) s
           in if get_ref pd s \<noteq> 0 then s
              else let s = pmm_free_frame pd s;
                       s = set_entry pdpt (pdpt_idx vaddr) 0 s;
                       s = set_ref pdpt (get_ref pdpt s - 1) s
                   in if get_ref pdpt s \<noteq> 0 then s
                      else let s = pmm_free_frame pdpt s
                           in set_entry root (pml4_idx vaddr) 0 s)"

definition paging_unmap :: "u64 \<Rightarrow> 'a paging_state_scheme \<Rightarrow> 'a paging_state_scheme option" where
  "paging_unmap vaddr s =
     (if pml4 s = 0 then Some s
      else do {
        (pdpt, s) \<leftarrow> get_next_table (pml4 s) (pml4_idx vaddr) False s;
        (if pdpt = 0 then Some s else do {
        (pd, s) \<leftarrow> get_next_table pdpt (pdpt_idx vaddr) False s;
        (if pd = 0 then Some s else do {
        (pt, s) \<leftarrow> get_next_table pd (pd_idx vaddr) False s;
        (if pt = 0 then Some s else
         let s = (if get_entry pt (pt_idx vaddr) s AND PAGE_PRESENT \<noteq> 0 then
                    (let s = set_entry pt (pt_idx vaddr)
                               (get_entry pt (pt_idx vaddr) s AND NOT PAGE_PRESENT) s;
                         s = set_ref pt (get_ref pt s - 1) s
                     in paging_release (pml4 s) pdpt pd pt vaddr s)
                  else s)
         in Some (invlpg vaddr s)) }) }) })"

definition paging_get_physical :: "u64 \<Rightarrow> 'a paging_state_scheme \<Rightarrow> u64 option" where
  "paging_get_physical vaddr s =
     (if pml4 s = 0 then Some 0
      else do {
        (pdpt, s) \<leftarrow> get_next_table (pml4 s) (pml4_idx vaddr) False s;
        (if pdpt = 0 then Some 0 else do {
        (pd, s) \<leftarrow> get_next_table pdpt (pdpt_idx vaddr) False s;
        (if pd = 0 then Some 0 else do {
        (pt, s) \<leftarrow> get_next_table pd (pd_idx vaddr) False s;
        (if pt = 0 then Some 0
         else if get_entry pt (pt_idx vaddr) s AND PAGE_PRESENT = 0 then Some 0
         else Some ((get_entry pt (pt_idx vaddr) s AND NOT 0xFFF) OR (vaddr AND 0xFFF)))
        }) }) })"

subsection \<open>The walk\<close>

text \<open>
  The table an entry leads to, or 0. Without \<open>create\<close>, \<open>get_next_table\<close> is this read; the
  three-level walk is total, and \<open>paging_get_physical\<close> is a function of memory and root.
\<close>

definition next_table :: "ram \<Rightarrow> u64 \<Rightarrow> u64 \<Rightarrow> u64" where
  "next_table m table index =
     (if load64 m (entry_addr table index) AND PAGE_PRESENT = 0 then 0
      else load64 m (entry_addr table index) AND NOT 0xFFF)"

definition translate :: "ram \<Rightarrow> u64 \<Rightarrow> u64 \<Rightarrow> u64" where
  "translate m root vaddr =
     (let pdpt = next_table m root (pml4_idx vaddr);
          pd = next_table m pdpt (pdpt_idx vaddr);
          pt = next_table m pd (pd_idx vaddr);
          e = load64 m (entry_addr pt (pt_idx vaddr))
      in if root = 0 \<or> pdpt = 0 \<or> pd = 0 \<or> pt = 0 \<or> e AND PAGE_PRESENT = 0 then 0
         else (e AND NOT 0xFFF) OR (vaddr AND 0xFFF))"

lemma get_next_table_lookup:
  "table \<noteq> 0 \<Longrightarrow> get_next_table table index False s = Some (next_table (ram s) table index, s)"
  by (simp add: get_next_table_def next_table_def get_entry_def)

lemma get_next_table_present:
  "table \<noteq> 0 \<Longrightarrow> get_entry table index s AND PAGE_PRESENT \<noteq> 0 \<Longrightarrow>
   get_next_table table index create s = Some (next_table (ram s) table index, s)"
  by (simp add: get_next_table_def next_table_def get_entry_def)

lemma get_physical_translate:
  "paging_get_physical vaddr s = Some (translate (ram s) (pml4 s) vaddr)"
  by (simp add: paging_get_physical_def translate_def get_next_table_lookup Let_def get_entry_def)

subsection \<open>Addresses and flags\<close>

lemma and_1FF_bound: "unat (x AND 0x1FF :: u64) < 512"
proof -
  have "x AND 0x1FF \<le> (0x1FF :: u64)" by (rule word_and_le1)
  then show ?thesis by (simp add: word_le_nat_alt)
qed

lemma idx_bounds [simp]:
  "unat (pml4_idx v) < 512" "unat (pdpt_idx v) < 512" "unat (pd_idx v) < 512" "unat (pt_idx v) < 512"
  by (simp_all add: pml4_idx_def pdpt_idx_def pd_idx_def pt_idx_def and_1FF_bound)

lemma unat_entry_addr:
  assumes "unat i < 512" "unat t + 4096 \<le> 2 ^ 64"
  shows "unat (entry_addr t i) = unat t + 8 * unat i"
proof -
  have "unat (8 * i) = 8 * unat i" using assms(1) by (simp add: unat_word_ariths)
  then show ?thesis using assms by (simp add: entry_addr_def unat_word_ariths)
qed

lemma unat_ref_addr: "unat t + 4096 < 2 ^ 64 \<Longrightarrow> unat (ref_addr t) = unat t + 4096"
  by (simp add: ref_addr_def unat_word_ariths)

lemma entry_ref_disj:
  assumes "unat i < 512"
  shows "disj_range (entry_addr t i) 8 (ref_addr t) 4" "disj_range (ref_addr t) 4 (entry_addr t i) 8"
proof -
  have u: "unat (8 * i) = 8 * unat i" using assms by (simp add: unat_word_ariths)
  have "unat (4096 - 8 * i) = 4096 - 8 * unat i"
    using assms u by (simp add: unat_sub_if_size)
  moreover have "unat (8 * i - 4096) = 8 * unat i + 2 ^ 64 - 4096"
    using assms u by (simp add: unat_sub_if_size word_size)
  moreover have "ref_addr t - entry_addr t i = 4096 - 8 * i" "entry_addr t i - ref_addr t = 8 * i - 4096"
    by (simp_all add: ref_addr_def entry_addr_def)
  ultimately show "disj_range (entry_addr t i) 8 (ref_addr t) 4"
    using assms by (simp add: disj_range_def)
  then show "disj_range (ref_addr t) 4 (entry_addr t i) 8" by (simp add: disj_range_sym)
qed

lemma xFFF_mask: "(0xFFF :: u64) = mask 12"
  by (simp add: mask_eq_exp_minus_1)

lemma entry_address_bits:
  "((p :: u64) AND NOT 0xFFF OR PAGE_PRESENT OR PAGE_WRITABLE) AND NOT 0xFFF = p AND NOT 0xFFF"
  by (simp add: bit.conj_disj_distrib2 and.assoc or.assoc)

lemma entry_present_bit:
  "(p OR PAGE_PRESENT OR PAGE_WRITABLE) AND PAGE_PRESENT \<noteq> (0 :: u64)"
proof -
  have "bit ((p OR PAGE_PRESENT OR PAGE_WRITABLE) AND PAGE_PRESENT) 0" by (simp add: bit_simps)
  then show ?thesis by auto
qed

lemma clear_present_bit: "(e AND NOT PAGE_PRESENT) AND PAGE_PRESENT = (0 :: u64)"
  by (rule bit_word_eqI) (auto simp: bit_simps)

lemma frame_address_aligned:
  assumes "f < 1048576"
  shows "(of_nat f * PAGE_SIZE :: u64) AND NOT 0xFFF = of_nat f * PAGE_SIZE"
proof -
  have "(of_nat f * PAGE_SIZE :: u64) = push_bit 12 (of_nat f)"
    by (simp add: push_bit_eq_mult)
  then show ?thesis unfolding xFFF_mask by (simp, intro bit_word_eqI) (auto simp: bit_simps)
qed

subsection \<open>Mapping through existing tables\<close>

text \<open>Byte ranges, pairwise disjoint.\<close>

definition separate_from :: "u64 \<Rightarrow> nat \<Rightarrow> (u64 \<times> nat) list \<Rightarrow> bool" where
  "separate_from a n rs = list_all (\<lambda>(b, k). disj_range a n b k) rs"

fun separate :: "(u64 \<times> nat) list \<Rightarrow> bool" where
  "separate [] = True"
| "separate ((a, n) # rs) = (list_all (\<lambda>(b, k). disj_range a n b k) rs \<and> separate rs)"

text \<open>
  The tables on the way to \<open>v\<close> exist, and the four entries of the walk and the reference
  counts of the three lower tables lie at different bytes.
\<close>

definition walk_ok :: "ram \<Rightarrow> u64 \<Rightarrow> u64 \<Rightarrow> bool" where
  "walk_ok m root v =
     (let pdpt = next_table m root (pml4_idx v);
          pd = next_table m pdpt (pdpt_idx v);
          pt = next_table m pd (pd_idx v)
      in root \<noteq> 0 \<and> pdpt \<noteq> 0 \<and> pd \<noteq> 0 \<and> pt \<noteq> 0 \<and>
         separate [(entry_addr root (pml4_idx v), 8), (entry_addr pdpt (pdpt_idx v), 8),
           (entry_addr pd (pd_idx v), 8), (entry_addr pt (pt_idx v), 8),
           (ref_addr pdpt, 4), (ref_addr pd, 4), (ref_addr pt, 4)])"

lemma next_table_cong:
  "load64 m' (entry_addr t i) = load64 m (entry_addr t i) \<Longrightarrow> next_table m' t i = next_table m t i"
  by (simp add: next_table_def)

lemma next_table_present:
  "next_table (ram s) t i \<noteq> 0 \<Longrightarrow> get_entry t i s AND PAGE_PRESENT \<noteq> 0"
  by (simp add: next_table_def get_entry_def split: if_splits)

lemma paging_map_existing:
  assumes "walk_ok (ram s) (pml4 s) v"
  defines "pt \<equiv> next_table (ram s) (next_table (ram s) (next_table (ram s) (pml4 s) (pml4_idx v))
      (pdpt_idx v)) (pd_idx v)"
  shows "paging_map v p s =
    Some (invlpg v (set_entry pt (pt_idx v) ((p AND NOT 0xFFF) OR PAGE_PRESENT OR PAGE_WRITABLE)
      (if get_entry pt (pt_idx v) s AND PAGE_PRESENT = 0 then set_ref pt (get_ref pt s + 1) s else s)))"
proof -
  let ?pdpt = "next_table (ram s) (pml4 s) (pml4_idx v)"
  let ?pd = "next_table (ram s) ?pdpt (pdpt_idx v)"
  have ne: "pml4 s \<noteq> 0" "?pdpt \<noteq> 0" "?pd \<noteq> 0" "pt \<noteq> 0"
    using assms(1) by (simp_all add: walk_ok_def Let_def pt_def)
  then have "get_next_table (pml4 s) (pml4_idx v) True s = Some (?pdpt, s)"
    "get_next_table ?pdpt (pdpt_idx v) True s = Some (?pd, s)"
    "get_next_table ?pd (pd_idx v) True s = Some (pt, s)"
    unfolding pt_def by (intro get_next_table_present next_table_present; simp)+
  then show ?thesis using ne by (simp add: paging_map_def)
qed

lemma translate_walk:
  assumes "root \<noteq> 0"
    and "next_table m root (pml4_idx v) = pdpt" "pdpt \<noteq> 0"
    and "next_table m pdpt (pdpt_idx v) = pd" "pd \<noteq> 0"
    and "next_table m pd (pd_idx v) = pt" "pt \<noteq> 0"
  shows "translate m root v =
    (if load64 m (entry_addr pt (pt_idx v)) AND PAGE_PRESENT = 0 then 0
     else (load64 m (entry_addr pt (pt_idx v)) AND NOT 0xFFF) OR (v AND 0xFFF))"
  using assms by (simp add: translate_def Let_def)

lemma ram_simps [simp]:
  "ram (set_entry t i v s) = store64 (entry_addr t i) v (ram s)"
  "ram (set_ref t c s) = store32 (ref_addr t) c (ram s)"
  "ram (invlpg v s) = ram s"
  "ram (pmm_free_frame a s) = ram s"
  by (simp_all add: set_entry_def set_ref_def invlpg_def pmm_free_frame_def)

lemma pml4_simps [simp]:
  "pml4 (set_entry t i v s) = pml4 s" "pml4 (set_ref t c s) = pml4 s"
  "pml4 (invlpg v s) = pml4 s" "pml4 (pmm_free_frame a s) = pml4 s"
  "pml4 (pmm_set_bit x s) = pml4 s" "pml4 (pmm_clear_bit x s) = pml4 s"
  by (simp_all add: set_entry_def set_ref_def invlpg_def pmm_free_frame_def
      pmm_set_bit_def pmm_clear_bit_def Let_def)

text \<open>The ranges of \<open>walk_ok\<close>, as rewrite rules for the reads after each write.\<close>

lemma walk_okD:
  assumes "walk_ok m root v"
  obtains pdpt pd pt where
    "next_table m root (pml4_idx v) = pdpt" "next_table m pdpt (pdpt_idx v) = pd"
    "next_table m pd (pd_idx v) = pt" "root \<noteq> 0" "pdpt \<noteq> 0" "pd \<noteq> 0" "pt \<noteq> 0"
    "separate [(entry_addr root (pml4_idx v), 8), (entry_addr pdpt (pdpt_idx v), 8),
       (entry_addr pd (pd_idx v), 8), (entry_addr pt (pt_idx v), 8),
       (ref_addr pdpt, 4), (ref_addr pd, 4), (ref_addr pt, 4)]"
  using assms by (simp add: walk_ok_def Let_def)

lemma translate_kept:
  assumes "root \<noteq> 0"
    and "next_table m root (pml4_idx v) = pdpt" "pdpt \<noteq> 0"
    and "next_table m pdpt (pdpt_idx v) = pd" "pd \<noteq> 0"
    and "next_table m pd (pd_idx v) = pt" "pt \<noteq> 0"
    and "load64 m' (entry_addr root (pml4_idx v)) = load64 m (entry_addr root (pml4_idx v))"
    and "load64 m' (entry_addr pdpt (pdpt_idx v)) = load64 m (entry_addr pdpt (pdpt_idx v))"
    and "load64 m' (entry_addr pd (pd_idx v)) = load64 m (entry_addr pd (pd_idx v))"
  shows "translate m' root v =
    (if load64 m' (entry_addr pt (pt_idx v)) AND PAGE_PRESENT = 0 then 0
     else (load64 m' (entry_addr pt (pt_idx v)) AND NOT 0xFFF) OR (v AND 0xFFF))"
  by (rule translate_walk [OF assms(1) _ assms(3) _ assms(5) _ assms(7)])
    (simp_all only: next_table_cong [OF assms(8)] next_table_cong [OF assms(9)]
      next_table_cong [OF assms(10)] assms)

lemma paging_map_translate:
  assumes "walk_ok (ram s) (pml4 s) v"
  obtains t where "paging_map v p s = Some t" "pml4 t = pml4 s"
    "translate (ram t) (pml4 t) v = (p AND NOT 0xFFF) OR (v AND 0xFFF)"
proof -
  obtain pdpt pd pt where
    w: "next_table (ram s) (pml4 s) (pml4_idx v) = pdpt" "next_table (ram s) pdpt (pdpt_idx v) = pd"
      "next_table (ram s) pd (pd_idx v) = pt" "pml4 s \<noteq> 0" "pdpt \<noteq> 0" "pd \<noteq> 0" "pt \<noteq> 0"
    and sep: "separate [(entry_addr (pml4 s) (pml4_idx v), 8), (entry_addr pdpt (pdpt_idx v), 8),
       (entry_addr pd (pd_idx v), 8), (entry_addr pt (pt_idx v), 8),
       (ref_addr pdpt, 4), (ref_addr pd, 4), (ref_addr pt, 4)]"
    using assms by (rule walk_okD)
  let ?s1 = "if get_entry pt (pt_idx v) s AND PAGE_PRESENT = 0
    then set_ref pt (get_ref pt s + 1) s else s"
  let ?t = "invlpg v (set_entry pt (pt_idx v) ((p AND NOT 0xFFF) OR PAGE_PRESENT OR PAGE_WRITABLE) ?s1)"
  have run: "paging_map v p s = Some ?t" using paging_map_existing [OF assms] by (simp add: w)
  have keep: "load64 (ram ?t) (entry_addr (pml4 s) (pml4_idx v)) = load64 (ram s) (entry_addr (pml4 s) (pml4_idx v))"
    "load64 (ram ?t) (entry_addr pdpt (pdpt_idx v)) = load64 (ram s) (entry_addr pdpt (pdpt_idx v))"
    "load64 (ram ?t) (entry_addr pd (pd_idx v)) = load64 (ram s) (entry_addr pd (pd_idx v))"
    using sep by (simp_all add: load_store_simps)
  have "translate (ram ?t) (pml4 s) v =
    (if load64 (ram ?t) (entry_addr pt (pt_idx v)) AND PAGE_PRESENT = 0 then 0
     else (load64 (ram ?t) (entry_addr pt (pt_idx v)) AND NOT 0xFFF) OR (v AND 0xFFF))"
    by (rule translate_kept [OF w(4,1,5,2,6,3,7) keep])
  also have "\<dots> = (p AND NOT 0xFFF) OR (v AND 0xFFF)"
    using entry_present_bit [of "p AND NOT 0xFFF"] entry_address_bits [of p] by simp
  finally show ?thesis using run by (intro that [of ?t]) (auto split: if_splits)
qed

text \<open>
  A mapping of another address stays what it was as long as the bytes its walk reads are
  none of the bytes \<open>paging_map\<close> writes: the leaf entry and the leaf table's count.
\<close>

definition walk_reads :: "ram \<Rightarrow> u64 \<Rightarrow> u64 \<Rightarrow> (u64 \<times> nat) list" where
  "walk_reads m root v =
     (let pdpt = next_table m root (pml4_idx v);
          pd = next_table m pdpt (pdpt_idx v);
          pt = next_table m pd (pd_idx v)
      in [(entry_addr root (pml4_idx v), 8), (entry_addr pdpt (pdpt_idx v), 8),
          (entry_addr pd (pd_idx v), 8), (entry_addr pt (pt_idx v), 8)])"

definition leaf_table :: "ram \<Rightarrow> u64 \<Rightarrow> u64 \<Rightarrow> u64" where
  "leaf_table m root v =
     next_table m (next_table m (next_table m root (pml4_idx v)) (pdpt_idx v)) (pd_idx v)"

lemma translate_cong:
  assumes "\<forall>(a, n) \<in> set (walk_reads m root v). load64 m' a = load64 m a"
  shows "translate m' root v = translate m root v"
proof -
  let ?pdpt = "next_table m root (pml4_idx v)"
  let ?pd = "next_table m ?pdpt (pdpt_idx v)"
  let ?pt = "next_table m ?pd (pd_idx v)"
  have e: "load64 m' (entry_addr root (pml4_idx v)) = load64 m (entry_addr root (pml4_idx v))"
    "load64 m' (entry_addr ?pdpt (pdpt_idx v)) = load64 m (entry_addr ?pdpt (pdpt_idx v))"
    "load64 m' (entry_addr ?pd (pd_idx v)) = load64 m (entry_addr ?pd (pd_idx v))"
    "load64 m' (entry_addr ?pt (pt_idx v)) = load64 m (entry_addr ?pt (pt_idx v))"
    using assms by (simp_all add: walk_reads_def Let_def)
  show ?thesis
    unfolding translate_def Let_def next_table_cong [OF e(1)] next_table_cong [OF e(2)]
      next_table_cong [OF e(3)] e(4) by (rule refl)
qed

lemma paging_map_other:
  assumes "walk_ok (ram s) (pml4 s) v" "paging_map v p s = Some t"
    and "separate_from (entry_addr (leaf_table (ram s) (pml4 s) v) (pt_idx v)) 8 (walk_reads (ram s) (pml4 s) w)"
    and "separate_from (ref_addr (leaf_table (ram s) (pml4 s) v)) 4 (walk_reads (ram s) (pml4 s) w)"
  shows "translate (ram t) (pml4 t) w = translate (ram s) (pml4 s) w"
proof -
  let ?pt = "leaf_table (ram s) (pml4 s) v"
  have t: "t = invlpg v (set_entry ?pt (pt_idx v) ((p AND NOT 0xFFF) OR PAGE_PRESENT OR PAGE_WRITABLE)
      (if get_entry ?pt (pt_idx v) s AND PAGE_PRESENT = 0 then set_ref ?pt (get_ref ?pt s + 1) s else s))"
    using paging_map_existing [OF assms(1), of p] assms(2) by (simp add: leaf_table_def)
  have "pml4 t = pml4 s" by (simp add: t)
  moreover have "\<forall>(a, n) \<in> set (walk_reads (ram s) (pml4 s) w). load64 (ram t) a = load64 (ram s) a"
    using assms(3,4) unfolding t
    by (auto simp: separate_from_def walk_reads_def Let_def load_store_simps)
  ultimately show ?thesis by (simp add: translate_cong)
qed

subsection \<open>Unmapping\<close>

lemma paging_unmap_existing:
  assumes "next_table (ram s) (pml4 s) (pml4_idx v) = pdpt" "next_table (ram s) pdpt (pdpt_idx v) = pd"
    "next_table (ram s) pd (pd_idx v) = pt" "pml4 s \<noteq> 0" "pdpt \<noteq> 0" "pd \<noteq> 0" "pt \<noteq> 0"
  shows "paging_unmap v s = Some (invlpg v
    (if get_entry pt (pt_idx v) s AND PAGE_PRESENT \<noteq> 0 then
       paging_release (pml4 s) pdpt pd pt v
         (set_ref pt (get_ref pt s - 1)
           (set_entry pt (pt_idx v) (get_entry pt (pt_idx v) s AND NOT PAGE_PRESENT) s))
     else s))"
  using assms
  by (simp add: paging_unmap_def get_next_table_lookup Let_def get_ref_def get_entry_def
      load_store_simps entry_ref_disj)

lemma paging_unmap_total: "\<exists>t. paging_unmap v s = Some t"
  by (simp add: paging_unmap_def get_next_table_lookup Let_def)

lemma release_pml4 [simp]: "pml4 (paging_release root pdpt pd pt v s) = pml4 s"
  by (simp add: paging_release_def Let_def)

text \<open>Whatever the cascade frees, the walk to \<open>v\<close> now ends in an absent entry.\<close>

lemma release_translate:
  assumes w: "root \<noteq> 0" "next_table (ram s) root (pml4_idx v) = pdpt" "pdpt \<noteq> 0"
    "next_table (ram s) pdpt (pdpt_idx v) = pd" "pd \<noteq> 0"
    "next_table (ram s) pd (pd_idx v) = pt" "pt \<noteq> 0"
    and gone: "load64 (ram s) (entry_addr pt (pt_idx v)) AND PAGE_PRESENT = 0"
    and sep: "separate [(entry_addr root (pml4_idx v), 8), (entry_addr pdpt (pdpt_idx v), 8),
       (entry_addr pd (pd_idx v), 8), (entry_addr pt (pt_idx v), 8),
       (ref_addr pdpt, 4), (ref_addr pd, 4), (ref_addr pt, 4)]"
  shows "translate (ram (paging_release root pdpt pd pt v s)) root v = 0"
proof -
  let ?m0 = "ram s"
  let ?r = "entry_addr root (pml4_idx v)" and ?a = "entry_addr pdpt (pdpt_idx v)"
    and ?b = "entry_addr pd (pd_idx v)"
  let ?m1 = "store32 (ref_addr pd) (load32 (store64 ?b 0 ?m0) (ref_addr pd) - 1) (store64 ?b 0 ?m0)"
  let ?m2 = "store32 (ref_addr pdpt) (load32 (store64 ?a 0 ?m1) (ref_addr pdpt) - 1) (store64 ?a 0 ?m1)"
  let ?m3 = "store64 ?r 0 ?m2"
  have absent: "next_table m t i = 0" if "load64 m (entry_addr t i) = 0" for m t i
    using that by (simp add: next_table_def)
  have z0: "translate ?m0 root v = 0"
    using translate_walk [OF w] gone by simp
  have z1: "translate ?m1 root v = 0"
  proof -
    have k: "load64 ?m1 ?r = load64 ?m0 ?r" "load64 ?m1 ?a = load64 ?m0 ?a" "load64 ?m1 ?b = 0"
      using sep by (simp_all add: load_store_simps)
    show ?thesis
      by (simp add: translate_def next_table_cong [OF k(1)] next_table_cong [OF k(2)] w absent [OF k(3)])
  qed
  have z2: "translate ?m2 root v = 0"
  proof -
    have k: "load64 ?m2 ?r = load64 ?m0 ?r" "load64 ?m2 ?a = 0"
      using sep by (simp_all add: load_store_simps)
    show ?thesis
      by (simp add: translate_def next_table_cong [OF k(1)] w absent [OF k(2)])
  qed
  have z3: "translate ?m3 root v = 0"
    by (simp add: translate_def absent)
  have "ram (paging_release root pdpt pd pt v s) \<in> {?m0, ?m1, ?m2, ?m3}"
    by (simp add: paging_release_def Let_def get_ref_def)
  then show ?thesis using z0 z1 z2 z3 by (elim insertE) simp_all
qed

lemma paging_unmap_translate:
  assumes "walk_ok (ram s) (pml4 s) v"
  obtains t where "paging_unmap v s = Some t" "pml4 t = pml4 s" "translate (ram t) (pml4 t) v = 0"
proof -
  obtain pdpt pd pt where
    w: "next_table (ram s) (pml4 s) (pml4_idx v) = pdpt" "next_table (ram s) pdpt (pdpt_idx v) = pd"
      "next_table (ram s) pd (pd_idx v) = pt" "pml4 s \<noteq> 0" "pdpt \<noteq> 0" "pd \<noteq> 0" "pt \<noteq> 0"
    and sep: "separate [(entry_addr (pml4 s) (pml4_idx v), 8), (entry_addr pdpt (pdpt_idx v), 8),
       (entry_addr pd (pd_idx v), 8), (entry_addr pt (pt_idx v), 8),
       (ref_addr pdpt, 4), (ref_addr pd, 4), (ref_addr pt, 4)]"
    using assms by (rule walk_okD)
  let ?s1 = "set_ref pt (get_ref pt s - 1)
    (set_entry pt (pt_idx v) (get_entry pt (pt_idx v) s AND NOT PAGE_PRESENT) s)"
  note run = paging_unmap_existing [OF w]
  show ?thesis
  proof (cases "get_entry pt (pt_idx v) s AND PAGE_PRESENT = 0")
    case True
    then have "translate (ram s) (pml4 s) v = 0"
      using translate_walk [OF w(4,1,5,2,6,3,7)] by (simp add: get_entry_def)
    then show ?thesis using run True by (intro that [of "invlpg v s"]) simp_all
  next
    case False
    have k: "load64 (ram ?s1) (entry_addr (pml4 s) (pml4_idx v)) = load64 (ram s) (entry_addr (pml4 s) (pml4_idx v))"
      "load64 (ram ?s1) (entry_addr pdpt (pdpt_idx v)) = load64 (ram s) (entry_addr pdpt (pdpt_idx v))"
      "load64 (ram ?s1) (entry_addr pd (pd_idx v)) = load64 (ram s) (entry_addr pd (pd_idx v))"
      using sep by (simp_all add: load_store_simps)
    have g: "load64 (ram ?s1) (entry_addr pt (pt_idx v)) AND PAGE_PRESENT = 0"
      using clear_present_bit [of "get_entry pt (pt_idx v) s"]
      by (simp add: load_store_simps entry_ref_disj)
    have "translate (ram (paging_release (pml4 s) pdpt pd pt v ?s1)) (pml4 s) v = 0"
      using w by (intro release_translate [OF _ _ _ _ _ _ _ g sep])
        (simp_all only: next_table_cong [OF k(1)] next_table_cong [OF k(2)] next_table_cong [OF k(3)] not_False_eq_True)
    then show ?thesis using run False
      by (intro that [of "invlpg v (paging_release (pml4 s) pdpt pd pt v ?s1)"]) simp_all
  qed
qed

subsection \<open>Creating a table\<close>

text \<open>
  The memory after \<open>get_next_table\<close> made the table \<open>new\<close>: the frame cleared, the parent's
  entry set, and the two reference counts written, both outside the tables' own frames.
\<close>

definition created_ram :: "u64 \<Rightarrow> u64 \<Rightarrow> u64 \<Rightarrow> ram \<Rightarrow> ram" where
  "created_ram table index new m =
     (let m = set_bytes new 0 4096 m;
          m = store64 (entry_addr table index) (new OR PAGE_PRESENT OR PAGE_WRITABLE) m;
          m = store32 (ref_addr new) 0 m
      in store32 (ref_addr table) (load32 m (ref_addr table) + 1) m)"

lemma pmm_fields_ram_update [simp]:
  "pmm_avail (s\<lparr>ram := m\<rparr>) = pmm_avail s" "pmm_inv (s\<lparr>ram := m\<rparr>) = pmm_inv s"
  by (simp_all add: pmm_avail_def pmm_inv_def frame_bit_def)

lemma get_next_table_create:
  assumes "table \<noteq> 0" "get_entry table index s AND PAGE_PRESENT = 0"
    and "pmm_inv s" "pmm_avail s \<noteq> {}"
  defines "new \<equiv> of_nat (Min (pmm_avail s)) * PAGE_SIZE"
  defines "m \<equiv> created_ram table index new (ram s)"
  shows "get_next_table table index True s =
    Some (load64 m (entry_addr table index) AND NOT 0xFFF,
      (pmm_set_bit (of_nat (Min (pmm_avail s))) s)\<lparr>ram := m\<rparr>)"
proof -
  have "new \<noteq> 0"
    using pmm.alloc_nonnull_iff [OF assms(3)] assms(3,4)
    by (simp add: pmm_alloc_frame_some new_def)
  then show ?thesis using assms
    by (simp add: get_next_table_def pmm_alloc_frame_some get_entry_def get_ref_def set_entry_def
        set_ref_def created_ram_def memset_set_bytes Let_def)
qed

text \<open>The allocation failure that \<open>paging_map\<close> does not check.\<close>

lemma get_next_table_oom:
  assumes "table \<noteq> 0" "get_entry table index s AND PAGE_PRESENT = 0"
    and "pmm_inv s" "pmm_avail s = {}"
  shows "get_next_table table index True s = Some (0, s)"
  using assms by (simp add: get_next_table_def pmm_alloc_frame_none)

lemma get_next_table_null: "get_next_table 0 index create s = None"
  by (simp add: get_next_table_def)

lemma paging_map_oom:
  assumes "pml4 s \<noteq> 0" "get_entry (pml4 s) (pml4_idx v) s AND PAGE_PRESENT = 0"
    and "pmm_inv s" "pmm_avail s = {}"
  shows "paging_map v p s = None"
  using get_next_table_oom [OF assms] assms(1) by (simp add: paging_map_def get_next_table_null)

subsection \<open>A reference count is the first entry of the next frame\<close>

text \<open>
  With two free frames in a row, the new page directory pointer table gets the first and the
  new page directory the second, so counting the directory's parent up writes 1 over entry 0
  of the directory: a present entry that leads to address 0.
\<close>

lemma created_ram_next_frame:
  assumes "unat (ref_addr table - new) + 8 \<le> 4096"
    and "disj_range (entry_addr table index) 8 (ref_addr table) 8"
    and "disj_range (ref_addr new) 4 (ref_addr table) 8"
  shows "load64 (created_ram table index new m) (ref_addr table) = 1"
proof -
  let ?m = "store32 (ref_addr new) 0
    (store64 (entry_addr table index) (new OR PAGE_PRESENT OR PAGE_WRITABLE) (set_bytes new 0 4096 m))"
  have z: "load64 ?m (ref_addr table) = 0"
    using assms by (simp add: load64_store32_disj load64_store64_disj load64_set_bytes_zero)
  then have "load32 ?m (ref_addr table) = 0" by (simp add: load32_eq_load64)
  then show ?thesis using z by (simp add: created_ram_def Let_def load64_store32_low)
qed

lemma created_ram_entry:
  assumes "unat index < 512" "disj_range (ref_addr new) 4 (entry_addr table index) 8"
  shows "load64 (created_ram table index new m) (entry_addr table index) =
    new OR PAGE_PRESENT OR PAGE_WRITABLE"
  using assms by (simp add: created_ram_def Let_def load64_store32_disj entry_ref_disj)

lemma created_ram_keep:
  assumes "disj_range new 4096 a 8" "disj_range (entry_addr table index) 8 a 8"
    and "disj_range (ref_addr new) 4 a 8" "disj_range (ref_addr table) 4 a 8"
  shows "load64 (created_ram table index new m) a = load64 m a"
  using assms
  by (simp add: created_ram_def Let_def load64_store32_disj load64_store64_disj load64_set_bytes_disj)

lemma created_ram_zero:
  assumes "unat (a - new) + 8 \<le> 4096" "disj_range (entry_addr table index) 8 a 8"
    and "disj_range (ref_addr new) 4 a 8" "disj_range (ref_addr table) 4 a 8"
  shows "load64 (created_ram table index new m) a = 0"
  using assms
  by (simp add: created_ram_def Let_def load64_store32_disj load64_store64_disj load64_set_bytes_zero)

text \<open>Addresses in the root table and in the frames \<open>f\<close> to \<open>f + 2\<close>.\<close>

lemma root_frames_disj:
  assumes "unat root + 4100 \<le> f * 4096 \<or> ((f + 3) * 4096 \<le> unat root \<and> unat root + 4100 \<le> 2 ^ 64)"
    and "f + 2 < 1048576"
    and "0 < n" "0 < k" "unat root \<le> unat a" "unat a + n \<le> unat root + 4100"
    and "f * 4096 \<le> unat b" "unat b + k \<le> (f + 3) * 4096"
  shows "disj_range a n b k" "disj_range b k a n"
proof -
  show "disj_range a n b k"
    using assms(1)
  proof
    assume "unat root + 4100 \<le> f * 4096"
    then show ?thesis using assms(2-8) by (intro disj_rangeI) auto
  next
    assume "(f + 3) * 4096 \<le> unat root \<and> unat root + 4100 \<le> 2 ^ 64"
    then show ?thesis using assms(2-8) by (intro disj_rangeI2) auto
  qed
  then show "disj_range b k a n" by (simp add: disj_range_sym)
qed

lemma flagged_frame:
  assumes "f < 1048576"
  shows "(of_nat f * PAGE_SIZE OR PAGE_PRESENT OR PAGE_WRITABLE) AND NOT 0xFFF = (of_nat f * PAGE_SIZE :: u64)"
  using entry_address_bits [of "of_nat f * PAGE_SIZE"] by (simp only: frame_address_aligned [OF assms])

lemma paging_map_lost:
  fixes s :: "'a paging_state_scheme"
  assumes inv: "pmm_inv s" and root: "pml4 s \<noteq> 0"
    and absent: "get_entry (pml4 s) (pml4_idx v) s AND PAGE_PRESENT = 0"
    and f: "f = Min (pmm_avail s)" "f \<in> pmm_avail s" "Suc f \<in> pmm_avail s" "f + 2 < 1048576"
    and far: "unat (pml4 s) + 4100 \<le> f * 4096 \<or>
      ((f + 3) * 4096 \<le> unat (pml4 s) \<and> unat (pml4 s) + 4100 \<le> 2 ^ 64)"
    and pd0: "pd_idx v = 0"
  obtains t where "paging_map v p s = Some t" "pml4 t = pml4 s" "translate (ram t) (pml4 t) v = 0"
proof -
  let ?root = "pml4 s" and ?F0 = "of_nat f * PAGE_SIZE" and ?F1 = "of_nat (Suc f) * PAGE_SIZE"
  let ?e0 = "entry_addr ?root (pml4_idx v)" and ?e1 = "entry_addr ?F0 (pdpt_idx v)"
  define m1 where "m1 = created_ram ?root (pml4_idx v) ?F0 (ram s)"
  define m2 where "m2 = created_ram ?F0 (pdpt_idx v) ?F1 m1"
  define s1 where "s1 = (pmm_set_bit (of_nat f) s)\<lparr>ram := m1\<rparr>"
  define s2 where "s2 = (pmm_set_bit (of_nat (Suc f)) s1)\<lparr>ram := m2\<rparr>"
  have f2048: "2048 \<le> f" using inv f(2) by (rule pmm_avail_reserved)
  have uF0: "unat ?F0 = f * 4096" and uF1: "unat ?F1 = Suc f * 4096"
    using f(4) by (intro frame_address_div; simp)+
  have r0: "ref_addr ?F0 = ?F1" by (simp add: ref_addr_def algebra_simps)
  have uR1: "unat (ref_addr ?F1) = (f + 2) * 4096"
    using f(4) by (subst unat_ref_addr) (simp_all only: uF1, simp_all)
  have ue0: "unat ?e0 = unat ?root + 8 * unat (pml4_idx v)" and uR: "unat (ref_addr ?root) = unat ?root + 4096"
    using far f(4) by (auto intro!: unat_entry_addr unat_ref_addr)
  have ue1: "unat ?e1 = f * 4096 + 8 * unat (pdpt_idx v)"
    using f(4) by (subst unat_entry_addr) (simp_all only: uF0 idx_bounds, simp)
  have i0: "unat (pml4_idx v) \<le> 511" and i1: "unat (pdpt_idx v) \<le> 511"
    using idx_bounds(1,2) [of v] by linarith+
  note rd = root_frames_disj [OF far f(4)]
  have ne: "?F0 \<noteq> 0" "?F1 \<noteq> 0" using uF0 uF1 f2048 by (auto simp del: of_nat_Suc)
  have v0: "load64 m1 ?e0 = ?F0 OR PAGE_PRESENT OR PAGE_WRITABLE"
    unfolding m1_def using i0 by (intro created_ram_entry rd) (simp_all only: r0 ue0 uF1 idx_bounds, simp_all)
  have step1: "get_next_table ?root (pml4_idx v) True s = Some (?F0, s1)"
  proof -
    have ne_s: "pmm_avail s \<noteq> {}" and fb: "f < 1048576" using f by auto
    show ?thesis
      using get_next_table_create [OF root absent inv ne_s, folded f(1), folded m1_def, folded s1_def]
      by (simp only: v0 flagged_frame [OF fb])
  qed
  have s1: "ram s1 = m1" "pmm_inv s1" "pmm_avail s1 = pmm_avail s - {f}" "pml4 s1 = pml4 s"
    using inv f(4) by (simp_all add: s1_def pmm_inv_set pmm_avail_set unat_of_nat_u64)
  have Min1: "Min (pmm_avail s1) = Suc f" "pmm_avail s1 \<noteq> {}"
  proof -
    have "Suc f \<le> g" if "g \<in> pmm_avail s - {f}" for g
      using that f(1) finite_pmm_avail [of s] by (simp add: Suc_le_eq order.strict_iff_order)
    then show "Min (pmm_avail s1) = Suc f" "pmm_avail s1 \<noteq> {}"
      using f(3) finite_pmm_avail [of s] by (auto simp: s1 intro!: Min_eqI)
  qed
  have d1: "unat (?e1 - ?F0) + 8 \<le> 4096"
    using i1 by (simp add: entry_addr_def unat_word_ariths)
  have z1: "load64 m1 ?e1 = 0"
    unfolding m1_def using d1 i0 i1
    by (intro created_ram_zero rd entry_ref_disj) (simp_all only: ue0 ue1 uR idx_bounds, simp_all)
  have c21: "disj_range (ref_addr ?F1) 4 ?e1 8"
    using i1 f(4) by (intro disj_rangeI2) (simp_all only: uR1 ue1, simp_all)
  have v1: "load64 m2 ?e1 = ?F1 OR PAGE_PRESENT OR PAGE_WRITABLE"
    unfolding m2_def using c21 by (intro created_ram_entry) (simp_all only: idx_bounds)
  have step2: "get_next_table ?F0 (pdpt_idx v) True s1 = Some (?F1, s2)"
  proof -
    have g0: "get_entry ?F0 (pdpt_idx v) s1 AND PAGE_PRESENT = 0"
      by (simp add: get_entry_def s1 z1)
    have fb: "Suc f < 1048576" using f(4) by simp
    show ?thesis
      using get_next_table_create [OF ne(1) g0 s1(2) Min1(2), unfolded Min1(1) s1(1),
          folded m2_def, folded s2_def]
      by (simp only: v1 flagged_frame [OF fb])
  qed
  have v2: "load64 m2 ?F1 = 1"
    unfolding m2_def using i1 f(4)
    by (subst r0 [symmetric], intro created_ram_next_frame)
      (simp_all only: r0, simp, (intro disj_rangeI; simp only: ue1 uF1; simp),
        (intro disj_rangeI2; simp only: uR1 uF1; simp))
  have eF1: "entry_addr ?F1 0 = ?F1" by (simp add: entry_addr_def)
  have s2: "ram s2 = m2" "pml4 s2 = pml4 s" by (simp_all add: s2_def s1)
  have step3: "get_next_table ?F1 (pd_idx v) True s2 = Some (0, s2)"
    using get_next_table_present [OF ne(2), of 0 s2 True] v2
    by (simp add: pd0 get_entry_def next_table_def eF1 s2 del: of_nat_Suc)
  have k0: "load64 m2 ?e0 = load64 m1 ?e0"
    unfolding m2_def using i0 i1 f(4)
    by (intro created_ram_keep rd) (simp_all only: r0 ue0 ue1 uF1 uR1, simp_all)
  have "translate m2 ?root v = 0"
  proof -
    have "f < 1048576" "Suc f < 1048576" using f(4) by simp_all
    then have "next_table m2 ?root (pml4_idx v) = ?F0" "next_table m2 ?F0 (pdpt_idx v) = ?F1"
      by (simp_all only: next_table_def k0 v0 v1 entry_present_bit flagged_frame if_True not_False_eq_True if_False)
    moreover have "next_table m2 ?F1 (pd_idx v) = 0"
      using v2 by (simp only: pd0 next_table_def eF1) simp
    ultimately show ?thesis by (simp add: translate_def Let_def)
  qed
  then show ?thesis using step1 step2 step3 root
    by (intro that [of s2]) (simp_all add: paging_map_def s2 del: of_nat_Suc)
qed

subsection \<open>What the page-table code leaves alone\<close>

text \<open>
  The operations of \<open>pmm.c\<close> and \<open>paging.c\<close> change memory, the bitmap and the flush log
  only; the components built on them (the fields of \<open>paging_state.more\<close>) keep their state.
  Mapping takes frames and gives none back; unmapping only gives frames back.
\<close>

lemma paging_more [simp]:
  "paging_state.more (pmm_set_bit x s) = paging_state.more s"
  "paging_state.more (pmm_clear_bit x s) = paging_state.more s"
  "paging_state.more (set_entry t i v s) = paging_state.more s"
  "paging_state.more (set_ref t c s) = paging_state.more s"
  "paging_state.more (invlpg v s) = paging_state.more s"
  "paging_state.more (pmm_free_frame a s) = paging_state.more s"
  by (simp_all add: pmm_set_bit_def pmm_clear_bit_def set_entry_def set_ref_def invlpg_def
      pmm_free_frame_def Let_def)

lemma pmm_paging_simps [simp]:
  "pmm_avail (set_entry t i v s) = pmm_avail s" "pmm_inv (set_entry t i v s) = pmm_inv s"
  "pmm_avail (set_ref t c s) = pmm_avail s" "pmm_inv (set_ref t c s) = pmm_inv s"
  "pmm_avail (invlpg v s) = pmm_avail s" "pmm_inv (invlpg v s) = pmm_inv s"
  by (simp_all add: set_entry_def set_ref_def invlpg_def pmm_avail_def pmm_inv_def frame_bit_def)

lemma alloc_loop_state:
  "snd (pmm_alloc_loop i s) = s \<or> (\<exists>f. snd (pmm_alloc_loop i s) = pmm_set_bit f s)"
  by (induction i s rule: pmm_alloc_loop.induct) (subst (1 2) pmm_alloc_loop.simps, auto)

lemma pmm_alloc_frame_state:
  assumes "pmm_alloc_frame s = (a, t)"
  shows "t = s \<or> (\<exists>f. t = pmm_set_bit f s)"
  using alloc_loop_state [of 0 s] assms by (auto simp: pmm_alloc_frame_def)

text \<open>\<open>t\<close> differs from \<open>s\<close> by pages taken.\<close>

definition takes_frames :: "'a paging_state_scheme \<Rightarrow> 'a paging_state_scheme \<Rightarrow> bool" where
  "takes_frames s t \<longleftrightarrow> paging_state.more t = paging_state.more s \<and> pml4 t = pml4 s \<and>
     pmm_avail t \<subseteq> pmm_avail s \<and> (pmm_inv s \<longrightarrow> pmm_inv t)"

lemma takes_frames_refl [simp]: "takes_frames s s"
  by (simp add: takes_frames_def)

lemma takes_frames_trans: "takes_frames s t \<Longrightarrow> takes_frames t u \<Longrightarrow> takes_frames s u"
  by (auto simp: takes_frames_def)

lemma takes_frames_step [simp]:
  "takes_frames s (set_entry t i v u) = takes_frames s u"
  "takes_frames s (set_ref t c u) = takes_frames s u"
  "takes_frames s (invlpg v u) = takes_frames s u"
  "takes_frames s (u\<lparr>ram := m\<rparr>) = takes_frames s u"
  by (simp_all add: takes_frames_def)

lemma takes_frames_alloc: "pmm_alloc_frame s = (a, t) \<Longrightarrow> takes_frames s t"
  by (drule pmm_alloc_frame_state) (auto simp: takes_frames_def pmm_avail_set pmm_inv_set)

lemma takes_frames_next_table:
  "get_next_table table index create s = Some (a, t) \<Longrightarrow> takes_frames s t"
  by (auto simp: get_next_table_def Let_def split: if_splits prod.splits dest: takes_frames_alloc)

lemma takes_frames_map: "paging_map v p s = Some t \<Longrightarrow> takes_frames s t"
  by (auto simp: paging_map_def Let_def bind_eq_Some_conv split: if_splits
      dest!: takes_frames_next_table intro: takes_frames_trans)

text \<open>\<open>t\<close> differs from \<open>s\<close> by pages given back.\<close>

definition gives_frames :: "'a paging_state_scheme \<Rightarrow> 'a paging_state_scheme \<Rightarrow> bool" where
  "gives_frames s t \<longleftrightarrow> paging_state.more t = paging_state.more s \<and> pml4 t = pml4 s \<and>
     pmm_avail s \<subseteq> pmm_avail t"

lemma gives_frames_refl [simp]: "gives_frames s s"
  by (simp add: gives_frames_def)

lemma gives_frames_trans: "gives_frames s t \<Longrightarrow> gives_frames t u \<Longrightarrow> gives_frames s u"
  by (auto simp: gives_frames_def)

lemma gives_frames_step [simp]:
  "gives_frames s (set_entry t i v u) = gives_frames s u"
  "gives_frames s (set_ref t c u) = gives_frames s u"
  "gives_frames s (invlpg v u) = gives_frames s u"
  by (simp_all add: gives_frames_def)

lemma gives_frames_free: "gives_frames s u \<Longrightarrow> gives_frames s (pmm_free_frame a u)"
  by (auto simp: gives_frames_def pmm_free_frame_def pmm_avail_clear)

lemma gives_frames_release: "gives_frames s u \<Longrightarrow> gives_frames s (paging_release root pdpt pd pt v u)"
  by (simp add: paging_release_def Let_def gives_frames_free)

lemma gives_frames_unmap: "paging_unmap v s = Some t \<Longrightarrow> gives_frames s t"
  by (auto simp: paging_unmap_def Let_def get_next_table_lookup gives_frames_release split: if_splits)

subsection \<open>Properties\<close>

text \<open>Tables at 0x1000, 0x3000, 0x5000 and 0x7000 (one spare frame after each), for the
  witnesses: the walk to address 0 exists and its page is absent.\<close>

definition sample_ram :: ram where
  "sample_ram = store64 0x1000 0x3003 (store64 0x3000 0x5003 (store64 0x5000 0x7003 (\<lambda>_. 0)))"

definition sample_paging :: "ram \<Rightarrow> (nat \<Rightarrow> u8) \<Rightarrow> paging_state" where
  "sample_paging m bitmap =
     \<lparr>ram = m, io_trace = [], timer_ticks = 0, system_uptime_seconds = 0,
      shift_pressed = 0, caps_lock = 0, pmm_bitmap = bitmap, total_frames = MAX_FRAMES,
      pml4 = 0x1000, tlb_flushes = []\<rparr>"

lemma sample_paging_simps [simp]:
  "ram (sample_paging m b) = m" "pml4 (sample_paging m b) = 0x1000"
  "pmm_bitmap (sample_paging m b) = b" "total_frames (sample_paging m b) = MAX_FRAMES"
  by (simp_all add: sample_paging_def)

lemma load64_zero [simp]: "load64 (\<lambda>_. 0) a = 0"
  by (rule bit_word_eqI) (simp add: bit_load64)

lemma load32_zero [simp]: "load32 (\<lambda>_. 0) a = 0"
  by (rule bit_word_eqI) (simp add: bit_load32)

lemma zero_idx [simp]: "pml4_idx 0 = 0" "pdpt_idx 0 = 0" "pd_idx 0 = 0" "pt_idx 0 = 0"
  by (simp_all add: pml4_idx_def pdpt_idx_def pd_idx_def pt_idx_def)

lemma sample_walk:
  "next_table sample_ram 0x1000 0 = 0x3000" "next_table sample_ram 0x3000 0 = 0x5000"
  "next_table sample_ram 0x5000 0 = 0x7000" "load64 sample_ram 0x7000 = 0"
  by (simp_all add: next_table_def sample_ram_def entry_addr_def load_store_simps disj_range_def)

lemma sample_walk_ok: "walk_ok sample_ram 0x1000 0"
  by (simp add: walk_ok_def Let_def sample_walk entry_addr_def ref_addr_def disj_range_def)

text \<open>\<open>paging_get_physical\<close> never faults and returns the hardware's four-level
  translation of the address, or 0 when an entry on the way is absent.\<close>

theorem paging_get_physical_correct:
  "paging_get_physical vaddr s = Some (translate (ram s) (pml4 s) vaddr)"
  by (rule get_physical_translate)

text \<open>C2: when the tables on the way exist and do not overlap, \<open>paging_map\<close> makes
  \<open>paging_get_physical\<close> return the mapped frame with the offset of the address.\<close>

theorem paging_map_get_physical:
  assumes "walk_ok (ram s) (pml4 s) v"
  shows "\<exists>t. paging_map v p s = Some t \<and>
    paging_get_physical v t = Some ((p AND NOT 0xFFF) OR (v AND 0xFFF))"
  using paging_map_translate [OF assms, where p = p] by (metis get_physical_translate)

theorem paging_map_get_physical_witness:
  "\<exists>t. paging_map 0 0x9ABC (sample_paging sample_ram sample_bitmap) = Some t \<and>
    paging_get_physical 0 t = Some 0x9000"
  using paging_map_get_physical [of "sample_paging sample_ram sample_bitmap" 0, where p = "0x9ABC"]
  by (simp add: sample_walk_ok)

text \<open>that mapping leaves the translation of every other address alone, when the leaf
  table's entry and its reference count do not overlap the entries of the other walk.\<close>

theorem paging_map_frame:
  assumes "walk_ok (ram s) (pml4 s) v" "paging_map v p s = Some t"
    and "separate_from (entry_addr (leaf_table (ram s) (pml4 s) v) (pt_idx v)) 8 (walk_reads (ram s) (pml4 s) w)"
    and "separate_from (ref_addr (leaf_table (ram s) (pml4 s) v)) 4 (walk_reads (ram s) (pml4 s) w)"
  shows "paging_get_physical w t = paging_get_physical w s"
  using paging_map_other [OF assms] by (simp add: get_physical_translate)

theorem paging_map_frame_witness:
  "\<exists>t. paging_map 0 0x9000 (sample_paging sample_ram sample_bitmap) = Some t \<and>
    paging_get_physical 0x1000 t = paging_get_physical 0x1000 (sample_paging sample_ram sample_bitmap)"
proof -
  let ?s = "sample_paging sample_ram sample_bitmap"
  have i: "pml4_idx 0x1000 = 0" "pdpt_idx 0x1000 = 0" "pd_idx 0x1000 = 0" "pt_idx 0x1000 = 1"
    by (simp_all add: pml4_idx_def pdpt_idx_def pd_idx_def pt_idx_def)
  obtain t where t: "paging_map 0 0x9000 ?s = Some t"
    using paging_map_translate [of ?s 0, where p = "0x9000"] sample_walk_ok by auto
  have "paging_get_physical 0x1000 t = paging_get_physical 0x1000 ?s"
    by (rule paging_map_frame [of _ 0, OF _ t])
      (simp_all add: sample_walk_ok separate_from_def walk_reads_def leaf_table_def Let_def i
        sample_walk entry_addr_def ref_addr_def disj_range_def)
  then show ?thesis using t by blast
qed



text \<open>out of memory, \<open>paging_map\<close> of an address without a second-level table
  dereferences the null pointer \<open>get_next_table\<close> returned.\<close>

theorem paging_map_oom_fault:
  assumes "pml4 s \<noteq> 0" "get_entry (pml4 s) (pml4_idx v) s AND PAGE_PRESENT = 0"
    and "pmm_inv s" "pmm_avail s = {}"
  shows "paging_map v p s = None"
  using assms by (rule paging_map_oom)

theorem paging_map_oom_fault_witness:
  "paging_map 0 0x9000 (sample_paging (\<lambda>_. 0) (\<lambda>_. 0xFF)) = None"
  by (rule paging_map_oom_fault)
    (simp_all add: get_entry_def used_bitmap)



end
