(* ===== verification/Vmm.thy ===== *)
theory Vmm
  imports Paging
begin

section \<open>\<^verbatim>\<open>vmm.c\<close>: virtual regions\<close>

text \<open>
  \<open>vmm_alloc\<close> takes fresh frames, maps them at \<open>next_vaddr\<close>, and records the region in a
  list threaded through the static array \<open>vma_nodes\<close>. The list is modelled with its links:
  a \<open>VMA *\<close> is \<open>None\<close> (\<open>NULL\<close>) or an index of the array. Walking the list is a
  \<open>partial_function\<close>: that it ends is proved from the invariant that every link goes to a
  lower index. \<open>None\<close> as a result is a fault of \<open>paging_map\<close> or a walk that never ends.

  The abstraction is the list of live regions (\<open>vmm_rep\<close>): allocation puts a region in
  front, \<open>vmm_free\<close> removes the first one with the given address.
\<close>

record vma =
  vma_vaddr :: u64
  vma_size :: u64
  vma_next :: "nat option"

record vmm_state = paging_state +
  vma_list :: "nat option"
  next_vaddr :: u64
  vma_nodes :: "nat \<Rightarrow> vma"
  vma_count :: nat

definition vmm_init :: "'a vmm_state_scheme \<Rightarrow> 'a vmm_state_scheme" where
  "vmm_init s = s\<lparr>vma_list := None\<rparr>"

text \<open>The allocation loop from page \<open>i\<close> on, with \<open>k\<close> pages to go; \<open>False\<close> is the early
  \<open>return NULL\<close>.\<close>

fun vmm_map_pages ::
  "u64 \<Rightarrow> nat \<Rightarrow> nat \<Rightarrow> 'a paging_state_scheme \<Rightarrow> (bool \<times> 'a paging_state_scheme) option" where
  "vmm_map_pages vaddr i 0 s = Some (True, s)"
| "vmm_map_pages vaddr i (Suc k) s =
     (let (paddr, s) = pmm_alloc_frame s
      in if paddr = 0 then Some (False, s)
         else do {
           s \<leftarrow> paging_map (vaddr + of_nat i * 4096) paddr s;
           vmm_map_pages vaddr (Suc i) k s
         })"

definition vma_push :: "u64 \<Rightarrow> u64 \<Rightarrow> 'a vmm_state_scheme \<Rightarrow> 'a vmm_state_scheme" where
  "vma_push vaddr sz s =
     (if vma_count s < 128 then
        s\<lparr>vma_nodes := (vma_nodes s)
            (vma_count s := \<lparr>vma_vaddr = vaddr, vma_size = sz, vma_next = vma_list s\<rparr>),
          vma_list := Some (vma_count s),
          vma_count := vma_count s + 1\<rparr>
      else s)"

definition vmm_alloc :: "u64 \<Rightarrow> 'a vmm_state_scheme \<Rightarrow> (u64 \<times> 'a vmm_state_scheme) option" where
  "vmm_alloc sz s =
     (let num_pages = (sz + 4095) div 4096;
          vaddr = next_vaddr s
      in do {
        (ok, s) \<leftarrow> vmm_map_pages vaddr 0 (unat num_pages) s;
        (if \<not> ok then Some (0, s)
         else let s = vma_push vaddr (num_pages * 4096) s
              in Some (vaddr, s\<lparr>next_vaddr := next_vaddr s + num_pages * 4096\<rparr>))
      })"

text \<open>The search of \<open>vmm_free\<close>: the node of the region and the one before it.\<close>

partial_function (option) vma_find ::
  "(nat \<Rightarrow> vma) \<Rightarrow> u64 \<Rightarrow> nat option \<Rightarrow> nat option \<Rightarrow> (nat option \<times> nat) option option" where
  "vma_find nodes ptr prev cur =
     (if cur = None then Some None
      else if vma_vaddr (nodes (the cur)) = ptr then Some (Some (prev, the cur))
      else vma_find nodes ptr cur (vma_next (nodes (the cur))))"

definition vmm_free_page ::
  "u64 \<Rightarrow> 'a paging_state_scheme \<Rightarrow> 'a paging_state_scheme option" where
  "vmm_free_page vaddr s = do {
     paddr \<leftarrow> paging_get_physical vaddr s;
     (if paddr \<noteq> 0 then do {
        s \<leftarrow> paging_unmap vaddr s;
        Some (pmm_free_frame (paddr AND NOT 0xFFF) s)
      } else Some s)
   }"

fun vmm_free_pages ::
  "u64 \<Rightarrow> nat \<Rightarrow> nat \<Rightarrow> 'a paging_state_scheme \<Rightarrow> 'a paging_state_scheme option" where
  "vmm_free_pages vaddr i 0 s = Some s"
| "vmm_free_pages vaddr i (Suc k) s = do {
     s \<leftarrow> vmm_free_page (vaddr + of_nat i * 4096) s;
     vmm_free_pages vaddr (Suc i) k s
   }"

definition vma_unlink :: "nat option \<Rightarrow> nat \<Rightarrow> 'a vmm_state_scheme \<Rightarrow> 'a vmm_state_scheme" where
  "vma_unlink prev c s =
     (case prev of
        Some p \<Rightarrow> s\<lparr>vma_nodes := (vma_nodes s)
                      (p := (vma_nodes s p)\<lparr>vma_next := vma_next (vma_nodes s c)\<rparr>)\<rparr>
      | None \<Rightarrow> s\<lparr>vma_list := vma_next (vma_nodes s c)\<rparr>)"

definition vmm_free :: "u64 \<Rightarrow> 'a vmm_state_scheme \<Rightarrow> 'a vmm_state_scheme option" where
  "vmm_free ptr s = do {
     found \<leftarrow> vma_find (vma_nodes s) ptr None (vma_list s);
     (case found of
        None \<Rightarrow> Some s
      | Some (prev, c) \<Rightarrow> do {
          s \<leftarrow> vmm_free_pages (vma_vaddr (vma_nodes s c)) 0
                 (unat (vma_size (vma_nodes s c) div 4096)) s;
          Some (vma_unlink prev c s)
        })
   }"

subsection \<open>The list of regions\<close>

primrec vma_path :: "(nat \<Rightarrow> vma) \<Rightarrow> nat option \<Rightarrow> nat list \<Rightarrow> bool" where
  "vma_path nodes c [] \<longleftrightarrow> c = None"
| "vma_path nodes c (i # ns) \<longleftrightarrow> c = Some i \<and> vma_path nodes (vma_next (nodes i)) ns"

definition vma_region :: "(nat \<Rightarrow> vma) \<Rightarrow> nat \<Rightarrow> u64 \<times> u64" where
  "vma_region nodes i = (vma_vaddr (nodes i), vma_size (nodes i))"

text \<open>The links go down from below \<open>vma_count\<close>; the regions are those of the nodes.\<close>

definition vmm_rep :: "'a vmm_state_scheme \<Rightarrow> (u64 \<times> u64) list \<Rightarrow> bool" where
  "vmm_rep s rs \<longleftrightarrow>
     (\<exists>ns. vma_path (vma_nodes s) (vma_list s) ns \<and> sorted_wrt (>) ns \<and>
        (\<forall>i \<in> set ns. i < vma_count s) \<and> rs = map (vma_region (vma_nodes s)) ns)"

text \<open>Regions from high to low that do not overlap and end at or below \<open>hi\<close>.\<close>

fun regions_below :: "nat \<Rightarrow> (u64 \<times> u64) list \<Rightarrow> bool" where
  "regions_below hi [] \<longleftrightarrow> True"
| "regions_below hi ((a, n) # rs) \<longleftrightarrow> unat a + unat n \<le> hi \<and> regions_below (unat a) rs"

text \<open>The specification of \<open>vmm_free\<close> on the list.\<close>

fun remove_region :: "u64 \<Rightarrow> (u64 \<times> u64) list \<Rightarrow> (u64 \<times> u64) list" where
  "remove_region p [] = []"
| "remove_region p (r # rs) = (if fst r = p then rs else r # remove_region p rs)"

lemma vma_path_cong:
  "(\<And>i. i \<in> set ns \<Longrightarrow> vma_next (nodes' i) = vma_next (nodes i)) \<Longrightarrow>
   vma_path nodes' c ns \<longleftrightarrow> vma_path nodes c ns"
  by (induction ns arbitrary: c) auto

lemma vma_path_unique: "vma_path nodes c ns \<Longrightarrow> vma_path nodes c ms \<Longrightarrow> ns = ms"
proof (induction ns arbitrary: c ms)
  case Nil
  then show ?case by (cases ms) auto
next
  case (Cons i ns)
  then show ?case by (cases ms) auto
qed

lemma vmm_rep_unique: "vmm_rep s rs \<Longrightarrow> vmm_rep s rs' \<Longrightarrow> rs = rs'"
  unfolding vmm_rep_def by (metis vma_path_unique)

lemma regions_below_mono: "regions_below h rs \<Longrightarrow> h \<le> h' \<Longrightarrow> regions_below h' rs"
  by (cases rs) auto

lemma regions_below_remove: "regions_below h rs \<Longrightarrow> regions_below h (remove_region p rs)"
  by (induction h rs rule: regions_below.induct) (auto elim: regions_below_mono)

subsection \<open>The search and the unlinking\<close>

lemma vma_find_absent:
  "vma_path nodes cur ns \<Longrightarrow> \<forall>i \<in> set ns. vma_vaddr (nodes i) \<noteq> ptr \<Longrightarrow>
   vma_find nodes ptr prev cur = Some None"
  by (induction ns arbitrary: cur prev) (subst vma_find.simps, simp)+

lemma vma_find_first:
  "vma_path nodes cur (pre @ c # post) \<Longrightarrow> \<forall>i \<in> set pre. vma_vaddr (nodes i) \<noteq> ptr \<Longrightarrow>
   vma_vaddr (nodes c) = ptr \<Longrightarrow>
   vma_find nodes ptr prev cur = Some (Some (if pre = [] then prev else Some (last pre), c))"
  by (induction pre arbitrary: cur prev) (subst vma_find.simps, simp)+

lemma vma_path_split:
  "vma_path nodes cur (pre @ c # post) \<Longrightarrow> vma_path nodes (vma_next (nodes c)) post"
  by (induction pre arbitrary: cur) auto

lemma vma_path_bypass:
  assumes "vma_path nodes cur (pre @ c # post)" "pre \<noteq> []" "distinct (pre @ c # post)"
  shows "vma_path (nodes(last pre := (nodes (last pre))\<lparr>vma_next := vma_next (nodes c)\<rparr>)) cur (pre @ post)"
  using assms
proof (induction pre arbitrary: cur)
  case Nil
  then show ?case by simp
next
  case (Cons p pre)
  let ?l = "last (p # pre)"
  let ?nodes = "nodes(?l := (nodes ?l)\<lparr>vma_next := vma_next (nodes c)\<rparr>)"
  show ?case
  proof (cases "pre = []")
    case True
    then have "vma_path ?nodes (vma_next (nodes c)) post"
      using Cons.prems by (subst vma_path_cong [where nodes = nodes]) auto
    then show ?thesis using True Cons.prems(1) by (simp del: fun_upd_apply) simp
  next
    case False
    then have "p \<noteq> ?l" using Cons.prems(3) by auto
    then show ?thesis using Cons False by simp
  qed
qed

lemma vma_region_bypass:
  "vma_region (nodes(p := (nodes p)\<lparr>vma_next := x\<rparr>)) = vma_region nodes"
  by (auto simp: vma_region_def fun_eq_iff)

lemma remove_region_map:
  assumes "\<forall>i \<in> set pre. vma_vaddr (nodes i) \<noteq> ptr" "vma_vaddr (nodes c) = ptr"
  shows "remove_region ptr (map (vma_region nodes) (pre @ c # post)) = map (vma_region nodes) (pre @ post)"
  using assms by (induction pre) (auto simp: vma_region_def)

lemma remove_region_absent: "ptr \<notin> fst ` set rs \<Longrightarrow> remove_region ptr rs = rs"
  by (induction rs) auto

lemma sorted_wrt_remove: "sorted_wrt R (pre @ c # post) \<Longrightarrow> sorted_wrt R (pre @ post)"
  by (simp add: sorted_wrt_append)

lemma sorted_gt_distinct: "sorted_wrt (>) (ns :: nat list) \<Longrightarrow> distinct ns"
  by (induction ns) auto

lemma vmm_rep_unlink:
  assumes path: "vma_path (vma_nodes s) (vma_list s) (pre @ c # post)"
    and sorted: "sorted_wrt (>) (pre @ c # post)"
    and less: "\<forall>i \<in> set (pre @ c # post). i < vma_count s"
  shows "vmm_rep (vma_unlink (if pre = [] then None else Some (last pre)) c s)
    (map (vma_region (vma_nodes s)) (pre @ post))"
proof -
  have d: "distinct (pre @ c # post)"
    using sorted by (rule sorted_gt_distinct)
  show ?thesis
  proof (cases "pre = []")
    case True
    then show ?thesis using assms sorted_wrt_remove [OF sorted] vma_path_split [OF path]
      unfolding vmm_rep_def by (intro exI [of _ post]) (simp add: vma_unlink_def)
  next
    case False
    then show ?thesis using less sorted_wrt_remove [OF sorted] vma_path_bypass [OF path False d]
      unfolding vmm_rep_def
      by (intro exI [of _ "pre @ post"]) (simp add: vma_unlink_def vma_region_bypass)
  qed
qed

text \<open>A node pushed in front: the link from the new node, the old nodes unchanged.\<close>

lemma vmm_rep_push:
  assumes "vmm_rep s rs" "vma_count s < 128"
  shows "vmm_rep (vma_push a n s) ((a, n) # rs)"
proof -
  obtain ns where ns: "vma_path (vma_nodes s) (vma_list s) ns" "sorted_wrt (>) ns"
    "\<forall>i \<in> set ns. i < vma_count s" "rs = map (vma_region (vma_nodes s)) ns"
    using assms(1) by (auto simp: vmm_rep_def)
  let ?v = "\<lparr>vma_vaddr = a, vma_size = n, vma_next = vma_list s\<rparr>"
  let ?nodes = "(vma_nodes s)(vma_count s := ?v)"
  have "vma_path ?nodes (vma_list s) ns"
    using ns(1,3) by (subst vma_path_cong [where nodes = "vma_nodes s"]) auto
  moreover have "map (vma_region ?nodes) ns = rs" using ns(3,4) by (auto simp: vma_region_def)
  moreover have "i < Suc (vma_count s)" if "i \<in> set ns" for i using ns(3) that by auto
  ultimately show ?thesis using ns assms(2) unfolding vmm_rep_def
    by (intro exI [of _ "vma_count s # ns"]) (simp add: vma_push_def vma_region_def)
qed

subsection \<open>The page loops\<close>

lemma takes_frames_pages: "vmm_map_pages vaddr i k s = Some (ok, t) \<Longrightarrow> takes_frames s t"
proof (induction vaddr i k s arbitrary: ok t rule: vmm_map_pages.induct)
  case (1 vaddr i s)
  then show ?case by simp
next
  case (2 vaddr i k s)
  obtain paddr s1 where a: "pmm_alloc_frame s = (paddr, s1)" by force
  show ?case
  proof (cases "paddr = 0")
    case True
    then show ?thesis using 2(2) a takes_frames_alloc [OF a] by simp
  next
    case False
    then obtain s2 where s2: "paging_map (vaddr + of_nat i * 4096) paddr s1 = Some s2"
      "vmm_map_pages vaddr (Suc i) k s2 = Some (ok, t)"
      using 2(2) a by (auto simp: bind_eq_Some_conv)
    then have "takes_frames s2 t" using 2(1) [OF a [symmetric] refl False] by blast
    then show ?thesis
      using takes_frames_alloc [OF a] takes_frames_map [OF s2(1)] takes_frames_trans by blast
  qed
qed

text \<open>The early return is taken only when no frame is left.\<close>

lemma vmm_map_pages_null:
  "vmm_map_pages vaddr i k s = Some (False, t) \<Longrightarrow> pmm_inv s \<Longrightarrow> pmm_avail t = {}"
proof (induction vaddr i k s arbitrary: t rule: vmm_map_pages.induct)
  case (1 vaddr i s)
  then show ?case by simp
next
  case (2 vaddr i k s)
  obtain paddr s1 where a: "pmm_alloc_frame s = (paddr, s1)" by force
  show ?case
  proof (cases "paddr = 0")
    case True
    then have "pmm_avail s = {}" using pmm.alloc_nonnull_iff [OF 2(3)] a by simp
    then show ?thesis using True 2(2) a takes_frames_alloc [OF a] by (auto simp: takes_frames_def)
  next
    case False
    then obtain s2 where s2: "paging_map (vaddr + of_nat i * 4096) paddr s1 = Some s2"
      "vmm_map_pages vaddr (Suc i) k s2 = Some (False, t)"
      using 2(2) a by (auto simp: bind_eq_Some_conv)
    have "pmm_inv s2" using takes_frames_alloc [OF a] takes_frames_map [OF s2(1)] 2(3)
      by (simp add: takes_frames_def)
    then show ?thesis using 2(1) [OF a [symmetric] refl False s2] by blast
  qed
qed

lemma vmm_free_page_total: "\<exists>t. vmm_free_page v s = Some t \<and> gives_frames s t"
proof -
  obtain t where t: "paging_unmap v s = Some t" using paging_unmap_total by blast
  then show ?thesis using gives_frames_unmap [OF t]
    by (simp add: vmm_free_page_def get_physical_translate gives_frames_free)
qed

lemma vmm_free_pages_total: "\<exists>t. vmm_free_pages v i k s = Some t \<and> gives_frames s t"
proof (induction v i k s rule: vmm_free_pages.induct)
  case (2 v i k s)
  obtain u where u: "vmm_free_page (v + of_nat i * 4096) s = Some u" "gives_frames s u"
    using vmm_free_page_total by blast
  then obtain t where "vmm_free_pages v (Suc i) k u = Some t" "gives_frames u t"
    using 2 by blast
  then show ?case using u gives_frames_trans by (auto simp: bind_eq_Some_conv)
qed simp

subsection \<open>Allocation and release on the list\<close>

lemma vmm_fields_more:
  assumes "paging_state.more s = paging_state.more t"
  shows "vma_list s = vma_list t" "next_vaddr s = next_vaddr t"
    "vma_nodes s = vma_nodes t" "vma_count s = vma_count t"
  using assms by (cases s, cases t, simp)+

lemma vmm_rep_more: "paging_state.more s = paging_state.more t \<Longrightarrow> vmm_rep s rs = vmm_rep t rs"
  using vmm_fields_more [of s t] by (simp add: vmm_rep_def)

lemma vmm_alloc_cases:
  assumes "vmm_alloc sz s = Some (v, t)"
  obtains ok u where
    "vmm_map_pages (next_vaddr s) 0 (unat ((sz + 4095) div 4096)) s = Some (ok, u)" "takes_frames s u"
    "\<not> ok \<Longrightarrow> v = 0 \<and> t = u"
    "ok \<Longrightarrow> v = next_vaddr s \<and>
       t = vma_push v ((sz + 4095) div 4096 * 4096) u\<lparr>next_vaddr := v + (sz + 4095) div 4096 * 4096\<rparr>"
proof -
  obtain ok u where u:
    "vmm_map_pages (next_vaddr s) 0 (unat ((sz + 4095) div 4096)) s = Some (ok, u)"
    using assms by (auto simp: vmm_alloc_def Let_def bind_eq_Some_conv)
  note f = takes_frames_pages [OF u]
  then have "next_vaddr u = next_vaddr s" by (auto simp: takes_frames_def dest: vmm_fields_more)
  then show ?thesis using that [OF u f] assms u
    by (auto simp: vmm_alloc_def Let_def vma_push_def split: if_splits)
qed

lemma vmm_rep_next [simp]: "vmm_rep (s\<lparr>next_vaddr := a\<rparr>) rs = vmm_rep s rs"
  by (simp add: vmm_rep_def)

lemma vma_push_full: "vma_count s = 128 \<Longrightarrow> vma_push a n s = s"
  by (simp add: vma_push_def)

lemma vmm_free_absent:
  assumes "vmm_rep s rs" "p \<notin> fst ` set rs"
  shows "vmm_free p s = Some s"
proof -
  obtain ns where ns: "vma_path (vma_nodes s) (vma_list s) ns"
    "rs = map (vma_region (vma_nodes s)) ns"
    using assms(1) by (auto simp: vmm_rep_def)
  then have "\<forall>i \<in> set ns. vma_vaddr (vma_nodes s i) \<noteq> p"
    using assms(2) by (auto simp: vma_region_def image_iff)
  from vma_find_absent [OF ns(1) this] show ?thesis by (simp add: vmm_free_def)
qed

lemma vmm_free_present:
  assumes "vmm_rep s rs" "p \<in> fst ` set rs"
  obtains t where "vmm_free p s = Some t" "vmm_rep t (remove_region p rs)"
    "next_vaddr t = next_vaddr s" "pmm_avail s \<subseteq> pmm_avail t"
proof -
  let ?nodes = "vma_nodes s"
  obtain ns where ns: "vma_path ?nodes (vma_list s) ns" "sorted_wrt (>) ns"
    "\<forall>i \<in> set ns. i < vma_count s" "rs = map (vma_region ?nodes) ns"
    using assms(1) by (auto simp: vmm_rep_def)
  then have "\<exists>i \<in> set ns. vma_vaddr (?nodes i) = p" using assms(2) by (auto simp: vma_region_def)
  then obtain pre c post where sp: "ns = pre @ c # post" "vma_vaddr (?nodes c) = p"
    "\<forall>i \<in> set pre. vma_vaddr (?nodes i) \<noteq> p"
    by (auto elim!: split_list_first_propE)
  let ?prev = "if pre = [] then None else Some (last pre)"
  obtain u where u: "vmm_free_pages p 0 (unat (vma_size (?nodes c) div 4096)) s = Some u"
    "gives_frames s u"
    using vmm_free_pages_total by blast
  then have fields: "vma_list u = vma_list s" "vma_nodes u = vma_nodes s" "vma_count u = vma_count s"
    "next_vaddr u = next_vaddr s"
    by (auto simp: gives_frames_def dest: vmm_fields_more)
  have "vmm_free p s = Some (vma_unlink ?prev c u)"
    using vma_find_first [OF ns(1) [unfolded sp(1)] sp(3,2), of None] u(1) sp(2)
    by (simp add: vmm_free_def)
  moreover have "vmm_rep (vma_unlink ?prev c u) (remove_region p rs)"
    using vmm_rep_unlink [of u pre c post] ns sp remove_region_map [OF sp(3,2)] by (simp add: fields)
  moreover have "next_vaddr (vma_unlink ?prev c u) = next_vaddr s"
    "pmm_avail (vma_unlink ?prev c u) = pmm_avail u"
    by (simp_all add: vma_unlink_def fields pmm_avail_def frame_bit_def)
  moreover have "pmm_avail s \<subseteq> pmm_avail u" using u(2) by (simp add: gives_frames_def)
  ultimately show ?thesis by (intro that [of "vma_unlink ?prev c u"]) simp_all
qed

lemma num_pages_bounds:
  fixes sz :: u64
  assumes "unat sz + 4095 < 2 ^ 64"
  shows "unat sz \<le> unat ((sz + 4095) div 4096 * 4096)"
    "unat ((sz + 4095) div 4096 * 4096) \<le> unat sz + 4095"
proof -
  have a: "unat (sz + 4095) = unat sz + 4095" using assms by (simp add: unat_word_ariths)
  have r: "m div 4096 * 4096 \<le> m" "m < m div 4096 * 4096 + 4096" for m :: nat
    by (simp_all add: div_times_less_eq_dividend dividend_less_div_times)
  have "unat ((sz + 4095) div 4096) * unat (4096 :: u64) < 2 ^ 64"
    using r(1) [of "unat sz + 4095"] assms by (simp add: unat_div a)
  then have "unat ((sz + 4095) div 4096 * 4096) = (unat sz + 4095) div 4096 * 4096"
    by (subst unat_mult_lem [THEN iffD1]) (simp_all add: unat_div a)
  then show "unat sz \<le> unat ((sz + 4095) div 4096 * 4096)"
    "unat ((sz + 4095) div 4096 * 4096) \<le> unat sz + 4095"
    using r [of "unat sz + 4095"] by linarith+
qed

lemma page_multiple_low: "(x * 4096 :: u64) AND 0xFFF = 0"
proof -
  have "x * 4096 = push_bit 12 x" by (simp add: push_bit_eq_mult)
  then show ?thesis unfolding xFFF_mask by (simp only:) (auto intro!: bit_word_eqI simp: bit_simps)
qed

subsection \<open>Properties\<close>


text \<open>For the witnesses: page tables that reach address 0x1000, no region yet.\<close>

definition sample_vmm :: "nat \<Rightarrow> u8 \<Rightarrow> vmm_state" where
  "sample_vmm cnt free =
     \<lparr>ram = sample_ram, io_trace = [], timer_ticks = 0, system_uptime_seconds = 0,
      shift_pressed = 0, caps_lock = 0,
      pmm_bitmap = (if free = 0 then (\<lambda>_. 0xFF) else sample_bitmap), total_frames = MAX_FRAMES,
      pml4 = 0x1000, tlb_flushes = [], vma_list = None, next_vaddr = 0x1000,
      vma_nodes = (\<lambda>_. \<lparr>vma_vaddr = 0, vma_size = 0, vma_next = None\<rparr>), vma_count = cnt\<rparr>"

lemma sample_vmm_rep: "vmm_rep (sample_vmm cnt free) []"
  by (simp add: vmm_rep_def sample_vmm_def)

lemma sample_idx [simp]:
  "pml4_idx 0x1000 = 0" "pdpt_idx 0x1000 = 0" "pd_idx 0x1000 = 0" "pt_idx 0x1000 = 1"
  by (simp_all add: pml4_idx_def pdpt_idx_def pd_idx_def pt_idx_def)

lemma sample_walk_ok': "walk_ok sample_ram 0x1000 0x1000"
  by (simp add: walk_ok_def Let_def sample_walk entry_addr_def ref_addr_def disj_range_def)

lemma vmm_map_pages_none: "vmm_map_pages vaddr i 0 = (\<lambda>s. Some (True, s))"
  by (rule ext) simp

lemma vmm_map_pages_one:
  "vmm_map_pages vaddr i 1 s =
     (let (paddr, s) = pmm_alloc_frame s
      in if paddr = 0 then Some (False, s)
         else do { s \<leftarrow> paging_map (vaddr + of_nat i * 4096) paddr s; Some (True, s) })"
proof -
  have "vmm_map_pages vaddr i (Suc 0) s =
     (let (paddr, s) = pmm_alloc_frame s
      in if paddr = 0 then Some (False, s)
         else do { s \<leftarrow> paging_map (vaddr + of_nat i * 4096) paddr s; Some (True, s) })"
    by (simp add: vmm_map_pages_none split: prod.split)
  then show ?thesis by simp
qed

lemma sample_vmm_alloc: "\<exists>t. vmm_alloc 100 (sample_vmm cnt 1) = Some (0x1000, t)"
proof -
  let ?s = "sample_vmm cnt 1"
  have inv: "pmm_inv ?s" and av: "pmm_avail ?s = {2048, 2049, 2050}"
    by (rule sample_inv sample_avail; simp add: sample_vmm_def)+
  have a: "pmm_alloc_frame ?s = (0x800000, pmm_set_bit 2048 ?s)"
    using pmm_alloc_frame_some [OF inv] by (simp add: av)
  have "walk_ok (ram (pmm_set_bit 2048 ?s)) (pml4 (pmm_set_bit 2048 ?s)) 0x1000"
    using sample_walk_ok' by (simp add: sample_vmm_def)
  from paging_map_translate [OF this, where p = "0x800000"]
  obtain t where "paging_map 0x1000 0x800000 (pmm_set_bit 2048 ?s) = Some t" by metis
  moreover have "next_vaddr ?s = 0x1000" by (simp add: sample_vmm_def)
  moreover have "unat ((100 + 4095) div 4096 :: u64) = 1" by (simp add: unat_div)
  ultimately show ?thesis by (simp add: vmm_alloc_def Let_def vmm_map_pages_one a)
qed


text \<open>when \<open>vmm_alloc\<close> runs out of frames it returns \<open>NULL\<close> and leaves the region list
  and \<open>next_vaddr\<close> alone, and every frame of the machine is taken: the frames it had
  already mapped are not given back.\<close>

theorem vmm_alloc_null_leaks:
  assumes "vmm_alloc sz s = Some (0, t)" "next_vaddr s \<noteq> 0" "pmm_inv s"
  shows "pmm_avail t = {} \<and> next_vaddr t = next_vaddr s \<and> (\<forall>rs. vmm_rep t rs = vmm_rep s rs)"
proof -
  obtain ok u where u:
    "vmm_map_pages (next_vaddr s) 0 (unat ((sz + 4095) div 4096)) s = Some (ok, u)"
    "takes_frames s u" "\<not> ok \<Longrightarrow> t = u" "ok \<Longrightarrow> 0 = next_vaddr s"
    using vmm_alloc_cases [OF assms(1)] by metis
  then have ok: "\<not> ok" "t = u" using assms(2) by auto
  have "pmm_avail t = {}"
    by (rule vmm_map_pages_null [OF _ assms(3)]) (use u(1) ok in simp)
  moreover have "paging_state.more t = paging_state.more s"
    using u(2) ok by (simp add: takes_frames_def)
  ultimately show ?thesis using vmm_fields_more [of t s] vmm_rep_more [of t s] by auto
qed

theorem vmm_alloc_null_leaks_witness:
  "\<exists>t. vmm_alloc 100 (sample_vmm 0 0) = Some (0, t) \<and> pmm_avail t = {}"
proof -
  let ?s = "sample_vmm 0 0"
  have inv: "pmm_inv ?s" and av: "pmm_avail ?s = {}"
    by (rule used_bitmap; simp add: sample_vmm_def)+
  have "unat ((100 + 4095) div 4096 :: u64) = 1" by (simp add: unat_div)
  then have "vmm_alloc 100 ?s = Some (0, ?s)"
    by (simp add: vmm_alloc_def Let_def vmm_map_pages_one
        pmm_alloc_frame_none [OF inv av])
  then show ?thesis using vmm_alloc_null_leaks [OF _ _ inv] by (auto simp: sample_vmm_def)
qed



text \<open>the 129th region is not recorded: \<open>vmm_free\<close> of the address \<open>vmm_alloc\<close> returned
  finds nothing and changes nothing, so its frames are lost. Nodes are never reused, so this
  holds from then on, however many regions were freed.\<close>

theorem vmm_alloc_untracked:
  assumes "vmm_rep s rs" "vma_count s = 128" "next_vaddr s \<notin> fst ` set rs"
    and "vmm_alloc sz s = Some (v, t)" "v \<noteq> 0"
  shows "vma_count t = 128 \<and> vmm_rep t rs \<and> vmm_free v t = Some t"
proof -
  obtain ok u n where u: "takes_frames s u" "\<not> ok \<Longrightarrow> v = 0" "ok \<Longrightarrow> v = next_vaddr s \<and>
       t = vma_push v n u\<lparr>next_vaddr := v + n\<rparr>"
    using vmm_alloc_cases [OF assms(4)] by metis
  then have ok: "ok" using assms(5) by blast
  have m: "paging_state.more u = paging_state.more s" using u(1) by (simp add: takes_frames_def)
  then have c: "vma_count u = 128" using vmm_fields_more(4) [OF m] assms(2) by simp
  then have t: "t = u\<lparr>next_vaddr := v + n\<rparr>" using u(3) ok by (simp add: vma_push_full)
  then have rep: "vmm_rep t rs" using assms(1) vmm_rep_more [OF m] by simp
  have "v \<notin> fst ` set rs" using assms(3) u(3) ok by simp
  from vmm_free_absent [OF rep this] show ?thesis using rep c t by simp
qed

theorem vmm_alloc_untracked_witness:
  "\<exists>t. vmm_alloc 100 (sample_vmm 128 1) = Some (0x1000, t) \<and> vmm_free 0x1000 t = Some t"
proof -
  obtain t where t: "vmm_alloc 100 (sample_vmm 128 1) = Some (0x1000, t)"
    using sample_vmm_alloc by blast
  have "vma_count (sample_vmm 128 1) = 128" by (simp add: sample_vmm_def)
  with vmm_alloc_untracked [OF sample_vmm_rep _ _ t] t show ?thesis by auto
qed

end
