(* ===== verification/Mem.thy ===== *)
theory Mem
  imports Vmm
begin

section \<open>\<^verbatim>\<open>mem.c\<close>: boot-time initialisation and the page-granular allocator\<close>

text \<open>
  \<open>mem_init\<close> runs the three managers and then sums the conventional memory; its argument
  is a pointer, \<open>None\<close> for \<open>NULL\<close>, which \<open>pmm_init\<close> dereferences before \<open>mem_init\<close>
  checks it. \<open>mem_alloc\<close> takes one frame for a block's header and first bytes and then as
  many more as the size needs, one by one, wherever they are; \<open>mem_free\<close> gives back as
  many consecutive frames as the header says.
\<close>

record mem_state = vmm_state +
  total_ram_bytes :: u64

definition mem_count_descriptor :: "boot_info \<Rightarrow> nat \<Rightarrow> 'a mem_state_scheme \<Rightarrow> 'a mem_state_scheme" where
  "mem_count_descriptor info i s =
     (let desc = mmap_descriptor (ram s) info i
      in if desc_type desc = EFI_CONVENTIONAL_MEMORY
         then s\<lparr>total_ram_bytes := total_ram_bytes s + number_of_pages desc * PAGE_SIZE\<rparr>
         else s)"

definition mem_init ::
  "u64 \<Rightarrow> boot_info option \<Rightarrow> 'a mem_state_scheme \<Rightarrow> 'a mem_state_scheme option" where
  "mem_init cr3 pinfo s = do {
     info \<leftarrow> pinfo;
     s \<leftarrow> pmm_init info s;
     let s = paging_init cr3 s;
     let s = vmm_init s;
     let s = s\<lparr>total_ram_bytes := 0\<rparr>;
     (if mmap info = 0 \<or> mmap_desc_size info < EFI_MEMORY_DESCRIPTOR_SIZE then Some s
      else let count = mmap_size info div mmap_desc_size info
           in Some (fold (mem_count_descriptor info) [0..<unat count] s))
   }"

definition mem_total_bytes :: "'a mem_state_scheme \<Rightarrow> u64" where
  "mem_total_bytes s = total_ram_bytes s"

definition mem_pages :: "u64 \<Rightarrow> u64" where
  "mem_pages sz = (let total_size = sz + 8 in (total_size + PAGE_SIZE - 1) div PAGE_SIZE)"

definition mem_alloc :: "u64 \<Rightarrow> 'a pmm_state_scheme \<Rightarrow> u64 \<times> 'a pmm_state_scheme" where
  "mem_alloc sz s =
     (let pages = mem_pages sz;
          (pframe, s) = pmm_alloc_frame s
      in if pframe = 0 then (0, s)
         else let s = s\<lparr>ram := store64 pframe pages (ram s)\<rparr>;
                  s = fold (\<lambda>i s. snd (pmm_alloc_frame s)) [1..<unat pages] s
              in (pframe + 8, s))"

definition mem_free :: "u64 \<Rightarrow> 'a pmm_state_scheme \<Rightarrow> 'a pmm_state_scheme" where
  "mem_free ptr s =
     (if ptr = 0 then s
      else let header = ptr - 8;
               pages = load64 (ram s) header
           in fold (\<lambda>i. pmm_free_frame (header + of_nat i * PAGE_SIZE)) [0..<unat pages] s)"

subsection \<open>Taking several frames\<close>

fun drop_lowest :: "nat \<Rightarrow> nat set \<Rightarrow> nat set" where
  "drop_lowest 0 A = A"
| "drop_lowest (Suc n) A = drop_lowest n (A - {Min A})"

lemma drop_lowest_subset: "drop_lowest n A \<subseteq> A"
  by (induction n A rule: drop_lowest.induct) auto

lemma drop_lowest_run:
  assumes "finite A" "{f..<f + n} \<subseteq> A" "\<forall>g \<in> A. f \<le> g"
  shows "drop_lowest n A = A - {f..<f + n}"
  using assms
proof (induction n arbitrary: f A)
  case 0
  then show ?case by simp
next
  case (Suc n)
  have m: "Min A = f" using Suc.prems by (intro Min_eqI) auto
  have "\<forall>g \<in> A - {f}. Suc f \<le> g" using Suc.prems(3) by (simp add: Suc_le_eq order.strict_iff_order)
  then have "drop_lowest n (A - {f}) = A - {f} - {Suc f..<Suc f + n}"
  proof (rule Suc.IH [rotated -1])
    show "{Suc f..<Suc f + n} \<subseteq> A - {f}" using Suc.prems(2) by (auto simp: subset_eq)
  qed (use Suc.prems(1) in simp_all)
  moreover have "{f..<f + Suc n} = insert f {Suc f..<Suc f + n}" by auto
  moreover have "A - {f} - S = A - insert f S" for S by blast
  ultimately show ?case by (simp only: drop_lowest.simps m)
qed

lemma drop_lowest_not_Min:
  assumes "finite A" "A \<noteq> {}"
  shows "Min A \<notin> drop_lowest (Suc n) A"
  using drop_lowest_subset [of n "A - {Min A}"] by auto

context frame_allocator
begin

lemma alloc_many:
  "invar s \<Longrightarrow> avail (fold (\<lambda>i s. snd (alloc s)) xs s) = drop_lowest (length xs) (avail s)"
proof (induction xs arbitrary: s)
  case Nil
  then show ?case by simp
next
  case (Cons x xs)
  have "avail (snd (alloc s)) = avail s - {Min (avail s)}"
    using Cons.prems alloc_none alloc_avail by (cases "avail s = {}") auto
  then show ?case using Cons alloc_invar by simp
qed

lemma alloc_many_invar: "invar s \<Longrightarrow> invar (fold (\<lambda>i s. snd (alloc s)) xs s)"
  by (induction xs arbitrary: s) (auto intro: alloc_invar)

end

lemma pmm_alloc_frame_ram [simp]: "ram (snd (pmm_alloc_frame s)) = ram s"
  using pmm_alloc_frame_state [of "s" "fst (pmm_alloc_frame s)" "snd (pmm_alloc_frame s)"] by auto

subsection \<open>Blocks\<close>

lemma mem_alloc_some:
  assumes "pmm_inv s" "pmm_avail s \<noteq> {}"
  defines "f \<equiv> Min (pmm_avail s)"
  shows "fst (mem_alloc sz s) = of_nat f * PAGE_SIZE + 8"
    "pmm_avail (snd (mem_alloc sz s)) = drop_lowest (Suc (unat (mem_pages sz) - 1)) (pmm_avail s)"
    "ram (snd (mem_alloc sz s)) = store64 (of_nat f * PAGE_SIZE) (mem_pages sz) (ram s)"
    "pmm_inv (snd (mem_alloc sz s))"
proof -
  have ne: "of_nat f * PAGE_SIZE \<noteq> (0 :: u64)"
    using pmm.alloc_nonnull_iff [OF assms(1)] pmm.alloc_addr [OF assms(1,2)] assms(2) by (simp add: f_def)
  have a: "pmm_alloc_frame s = (of_nat f * PAGE_SIZE, pmm_set_bit (of_nat f) s)"
    using pmm_alloc_frame_some [OF assms(1,2)] by (simp add: f_def)
  let ?s = "(pmm_set_bit (of_nat f) s)\<lparr>ram := store64 (of_nat f * PAGE_SIZE) (mem_pages sz) (ram s)\<rparr>"
  let ?t = "fold (\<lambda>i s. snd (pmm_alloc_frame s)) [1..<unat (mem_pages sz)] ?s"
  have t: "mem_alloc sz s = (of_nat f * PAGE_SIZE + 8, ?t)"
    using a ne by (simp add: mem_alloc_def Let_def)
  have inv: "pmm_inv ?s" using assms(1) by (simp add: pmm_inv_set)
  have av: "pmm_avail (pmm_set_bit (of_nat f) s) = pmm_avail s - {f}"
    using pmm.alloc_avail [OF assms(1,2)] a by (simp only: f_def snd_conv)
  have r: "ram (fold (\<lambda>i s. snd (pmm_alloc_frame s)) xs u) = ram u" for xs :: "nat list" and u :: "'a pmm_state_scheme"
    by (induction xs arbitrary: u) simp_all
  show "fst (mem_alloc sz s) = of_nat f * PAGE_SIZE + 8" by (simp add: t)
  show "pmm_avail (snd (mem_alloc sz s)) = drop_lowest (Suc (unat (mem_pages sz) - 1)) (pmm_avail s)"
    using pmm.alloc_many [OF inv, of "[1..<unat (mem_pages sz)]"] by (simp add: t av f_def [symmetric])
  show "ram (snd (mem_alloc sz s)) = store64 (of_nat f * PAGE_SIZE) (mem_pages sz) (ram s)"
    by (simp add: t r)
  show "pmm_inv (snd (mem_alloc sz s))" using pmm.alloc_many_invar [OF inv] by (simp add: t)
qed

lemma free_frames_run:
  assumes "f + n \<le> 1048576"
  shows "pmm_avail (fold (\<lambda>i. pmm_free_frame (of_nat f * PAGE_SIZE + of_nat i * PAGE_SIZE)) [0..<n] s)
    = pmm_avail s \<union> {f..<f + n}"
  using assms
proof (induction n)
  case 0
  then show ?case by simp
next
  case (Suc n)
  have e: "of_nat f * PAGE_SIZE + of_nat n * PAGE_SIZE = (of_nat (f + n) * PAGE_SIZE :: u64)"
    by (simp add: algebra_simps)
  have "pmm_avail (pmm_free_frame (of_nat (f + n) * PAGE_SIZE) u) = insert (f + n) (pmm_avail u)"
    for u :: "'a pmm_state_scheme"
    using Suc.prems frame_address_div(1) [of "f + n"] unat_of_nat_u64 [of "f + n"]
    by (simp add: pmm_free_frame_def pmm_avail_clear del: of_nat_add)
  moreover have "{f..<f + Suc n} = insert (f + n) {f..<f + n}" by auto
  ultimately show ?case using Suc by (simp add: e del: of_nat_add)
qed

text \<open>What a block's release does to the free frames: it gives back the consecutive run
  from the first frame, whatever frames the allocation took.\<close>

lemma mem_alloc_free_avail:
  fixes s :: "'a pmm_state_scheme" and sz :: u64
  assumes "pmm_inv s" "pmm_avail s \<noteq> {}"
  defines "f \<equiv> Min (pmm_avail s)" and "n \<equiv> unat (mem_pages sz)"
  assumes "f + n \<le> 1048576"
  shows "pmm_avail (mem_free (fst (mem_alloc sz s)) (snd (mem_alloc sz s))) =
    drop_lowest (Suc (n - 1)) (pmm_avail s) \<union> {f..<f + n}"
proof -
  note a = mem_alloc_some [OF assms(1,2), of sz, folded f_def]
  have f: "f < 1048576" using pmm.Min_avail [OF assms(1,2)] pmm_avail_bound by (auto simp: f_def)
  have "unat (of_nat f * PAGE_SIZE + 8 :: u64) = f * 4096 + 8"
    using frame_address_div(2) [OF f] f by (subst unat_add_lem [THEN iffD1]) simp_all
  then have "of_nat f * PAGE_SIZE + 8 \<noteq> (0 :: u64)" by (auto simp del: unat_eq_0)
  then have "mem_free (of_nat f * PAGE_SIZE + 8) (snd (mem_alloc sz s)) =
      fold (\<lambda>i. pmm_free_frame (of_nat f * PAGE_SIZE + of_nat i * PAGE_SIZE)) [0..<n] (snd (mem_alloc sz s))"
    by (simp add: mem_free_def Let_def a n_def)
  then show ?thesis by (simp only: a(1,2) free_frames_run [OF assms(5)] n_def [symmetric])
qed

subsection \<open>Counting the memory\<close>

definition conventional_bytes :: "ram \<Rightarrow> boot_info \<Rightarrow> nat \<Rightarrow> u64" where
  "conventional_bytes m info i =
     (if desc_type (mmap_descriptor m info i) = EFI_CONVENTIONAL_MEMORY
      then number_of_pages (mmap_descriptor m info i) * PAGE_SIZE else 0)"

lemma count_descriptor_simps [simp]:
  "total_ram_bytes (mem_count_descriptor info i s) =
     total_ram_bytes s + conventional_bytes (ram s) info i"
  "ram (mem_count_descriptor info i s) = ram s"
  "pmm_avail (mem_count_descriptor info i s) = pmm_avail s"
  "pmm_inv (mem_count_descriptor info i s) = pmm_inv s"
  "pml4 (mem_count_descriptor info i s) = pml4 s"
  "vma_list (mem_count_descriptor info i s) = vma_list s"
  by (simp_all add: mem_count_descriptor_def conventional_bytes_def Let_def pmm_avail_def
      pmm_inv_def frame_bit_def)

lemma fold_count_descriptor [simp]:
  "ram (fold (mem_count_descriptor info) xs s) = ram s"
  "pmm_avail (fold (mem_count_descriptor info) xs s) = pmm_avail s"
  "pmm_inv (fold (mem_count_descriptor info) xs s) = pmm_inv s"
  "pml4 (fold (mem_count_descriptor info) xs s) = pml4 s"
  "vma_list (fold (mem_count_descriptor info) xs s) = vma_list s"
  by (induction xs arbitrary: s) simp_all

lemma total_count_descriptor:
  "total_ram_bytes (fold (mem_count_descriptor info) xs s) = total_ram_bytes s + (\<Sum>i\<leftarrow>xs. conventional_bytes (ram s) info i)"
  by (induction xs arbitrary: s) (simp_all add: add.assoc)

lemma count_descriptor_more [simp]:
  "mem_state.more (fold (mem_count_descriptor info) xs s) = mem_state.more s"
  "next_vaddr (fold (mem_count_descriptor info) xs s) = next_vaddr s"
  by (induction xs arbitrary: s) (simp_all add: mem_count_descriptor_def Let_def)

lemma pmm_state_more_fields:
  fixes s t :: "'a mem_state_scheme"
  assumes "pmm_state.more s = pmm_state.more t"
  shows "mem_state.more s = mem_state.more t" "next_vaddr s = next_vaddr t"
  using assms by (cases s, cases t, simp)+

lemma mem_init_state:
  assumes "mmap info \<noteq> 0" "EFI_MEMORY_DESCRIPTOR_SIZE \<le> mmap_desc_size info"
  obtains t where "mem_init cr3 (Some info) s = Some t" "pmm_inv t" "pml4 t = cr3 AND NOT 0xFFF" "vmm_rep t []"
    "pmm_avail t = {g. RESERVED_FRAMES \<le> g \<and> g < 1048576 \<and> conventional_frame (ram s) info g}"
    "mem_total_bytes t =
      (\<Sum>i\<leftarrow>[0..<unat (mmap_size info div mmap_desc_size info)]. conventional_bytes (ram s) info i)"
    "ram t = ram s" "next_vaddr t = next_vaddr s" "mem_state.more t = mem_state.more s"
proof -
  have nz: "mmap_desc_size info \<noteq> 0" using assms(2) by auto
  obtain u where u: "pmm_init info s = Some u" "pmm_inv u" "ram u = ram s"
    "pmm_avail u = {g. RESERVED_FRAMES \<le> g \<and> g < 1048576 \<and> conventional_frame (ram s) info g}"
    and more: "pmm_state.more u = pmm_state.more s"
    by (rule pmm_init_state [OF nz])
  define w where "w = vmm_init (paging_init cr3 u)\<lparr>total_ram_bytes := 0\<rparr>"
  have k: "pmm_inv w" "pmm_avail w = pmm_avail u" "ram w = ram s" "pml4 w = cr3 AND NOT 0xFFF"
    "vma_list w = None" "total_ram_bytes w = 0" "mem_state.more w = mem_state.more u" "next_vaddr w = next_vaddr u"
    using u(2,3) by (simp_all add: w_def vmm_init_def paging_init_def pmm_inv_def pmm_avail_def frame_bit_def)
  define t where "t = fold (mem_count_descriptor info) [0..<unat (mmap_size info div mmap_desc_size info)] w"
  have t: "pmm_inv t" "pmm_avail t = pmm_avail u" "pml4 t = cr3 AND NOT 0xFFF" "vma_list t = None"
    "total_ram_bytes t = (\<Sum>i\<leftarrow>[0..<unat (mmap_size info div mmap_desc_size info)]. conventional_bytes (ram s) info i)"
    "ram t = ram s" "next_vaddr t = next_vaddr u" "mem_state.more t = mem_state.more u"
    by (simp_all only: t_def fold_count_descriptor total_count_descriptor count_descriptor_more k add_0)
  have "\<not> mmap_desc_size info < EFI_MEMORY_DESCRIPTOR_SIZE" using assms(2) by (simp only: not_less)
  then have "mem_init cr3 (Some info) s = Some t"
    using assms(1) u(1) by (simp only: mem_init_def bind.bind_lunit Let_def w_def [symmetric] t_def
        [symmetric] if_False simp_thms)
  moreover have "vmm_rep t []" using t(4) by (simp add: vmm_rep_def)
  ultimately show ?thesis
    using t u(4) pmm_state_more_fields [OF more] by (intro that [of t]) (simp_all only: mem_total_bytes_def)
qed

subsection \<open>Properties\<close>

text \<open>C26: with a usable memory map \<open>mem_init\<close> leaves the frames of conventional memory from
  8 MiB on free, the page tables of \<open>CR3\<close> current, no region live, and
  \<open>mem_total_bytes\<close> the sum of the sizes of the conventional areas.\<close>

theorem mem_init_correct:
  assumes "mmap info \<noteq> 0" "EFI_MEMORY_DESCRIPTOR_SIZE \<le> mmap_desc_size info"
  shows "\<exists>t. mem_init cr3 (Some info) s = Some t \<and> pmm_inv t \<and> pml4 t = cr3 AND NOT 0xFFF \<and> vmm_rep t [] \<and>
    pmm_avail t = {g. RESERVED_FRAMES \<le> g \<and> g < 1048576 \<and> conventional_frame (ram s) info g} \<and>
    mem_total_bytes t =
      (\<Sum>i\<leftarrow>[0..<unat (mmap_size info div mmap_desc_size info)]. conventional_bytes (ram s) info i)"
  by (rule mem_init_state [OF assms, of cr3 s]) blast

lemma sample_desc_ram:
  defines "m \<equiv> store32 0x5000 7 (store64 0x5008 0x800000 (store64 0x5018 2 (\<lambda>_. 0)))"
  shows "load32 m 0x5000 = 7" "load64 m 0x5008 = 0x800000" "load64 m 0x5018 = 2"
  unfolding m_def by (simp_all add: load_store_simps disj_range_def)

definition sample_info :: boot_info where
  "sample_info = \<lparr>magic = BOOTINFO_MAGIC, framebuffer = 0, info_fb_width = 0, info_fb_height = 0,
     info_fb_pitch = 0, info_fb_format = 0, mmap = 0x5000, mmap_size = 48, mmap_desc_size = 48,
     fw_vendor = [], fw_revision = 0\<rparr>"

definition sample_mem :: mem_state where
  "sample_mem = \<lparr>ram = store32 0x5000 7 (store64 0x5008 0x800000 (store64 0x5018 2 (\<lambda>_. 0))),
     io_trace = [], timer_ticks = 0, system_uptime_seconds = 0, shift_pressed = 0, caps_lock = 0,
     pmm_bitmap = \<lambda>_. 0, total_frames = 0, pml4 = 0, tlb_flushes = [], vma_list = None,
     next_vaddr = 0x10000000, vma_nodes = \<lambda>_. \<lparr>vma_vaddr = 0, vma_size = 0, vma_next = None\<rparr>,
     vma_count = 0, total_ram_bytes = 0\<rparr>"

theorem mem_init_correct_witness:
  "\<exists>t. mem_init 0x1018 (Some sample_info) sample_mem = Some t \<and> pml4 t = 0x1000 \<and>
     mem_total_bytes t = 8192"
proof -
  have "unat (48 div 48 :: u64) = 1" by (simp add: unat_div)
  then have c: "[0..<unat (mmap_size sample_info div mmap_desc_size sample_info)] = [0]"
    by (simp only: sample_info_def boot_info.simps) simp
  have "conventional_bytes (ram sample_mem) sample_info 0 = 8192"
    by (simp only: conventional_bytes_def mmap_descriptor_def read_descriptor_def sample_info_def
        sample_mem_def efi_memory_descriptor.simps boot_info.simps machine.simps mult_zero_left
        of_nat_0 add_0_right sample_desc_ram) (simp add: sample_desc_ram)
  then show ?thesis
    using mem_init_correct [of sample_info "0x1018" sample_mem] unfolding c
    by (force simp: sample_info_def)
qed

text \<open>C32: a block handed out by \<open>mem_alloc\<close> starts 8 bytes into a frame, and
  \<open>mem_free\<close> makes the free frames what they were, when the frames after the lowest free
  one that the block covers are free as well.\<close>

theorem mem_alloc_free_roundtrip:
  assumes "pmm_inv s" "pmm_avail s \<noteq> {}" "f = Min (pmm_avail s)"
    and "0 < unat (mem_pages sz)" "{f..<f + unat (mem_pages sz)} \<subseteq> pmm_avail s"
  shows "unat (fst (mem_alloc sz s)) = f * 4096 + 8 \<and>
    pmm_avail (snd (mem_alloc sz s)) = pmm_avail s - {f..<f + unat (mem_pages sz)} \<and>
    pmm_avail (mem_free (fst (mem_alloc sz s)) (snd (mem_alloc sz s))) = pmm_avail s"
proof -
  let ?n = "unat (mem_pages sz)"
  have "\<forall>g \<in> pmm_avail s. f \<le> g" using assms(3) by simp
  then have d: "drop_lowest ?n (pmm_avail s) = pmm_avail s - {f..<f + ?n}"
    using assms(5) by (intro drop_lowest_run) simp_all
  have "f + ?n - 1 \<in> pmm_avail s" using assms(4,5) by auto
  then have le: "f + ?n \<le> 1048576" using pmm_avail_bound by fastforce
  then have f: "f < 1048576" using assms(4) by simp
  have "unat (of_nat f * PAGE_SIZE + 8 :: u64) = f * 4096 + 8"
    using frame_address_div(2) [OF f] f by (subst unat_add_lem [THEN iffD1]) simp_all
  moreover have "pmm_avail s - {f..<f + ?n} \<union> {f..<f + ?n} = pmm_avail s" using assms(5) by blast
  moreover have "Suc (?n - 1) = ?n" using assms(4) by simp
  ultimately show ?thesis
    using mem_alloc_some(1,2) [OF assms(1,2), of sz] mem_alloc_free_avail [OF assms(1,2), of sz] le d
    by (simp only: assms(3) [symmetric])
qed

lemma sample_pages: "unat (mem_pages 5000) = 2"
proof -
  have "(5000 + 8 + 4096 - 1 :: u64) = 9103" by simp
  then show ?thesis by (simp only: mem_pages_def Let_def unat_div) simp
qed

theorem mem_alloc_free_roundtrip_witness:
  "fst (mem_alloc 5000 sample_pmm) = 0x800008 \<and>
   pmm_avail (mem_free (fst (mem_alloc 5000 sample_pmm)) (snd (mem_alloc 5000 sample_pmm))) =
     {2048, 2049, 2050}"
proof -
  have n: "unat (mem_pages 5000) = 2" by (rule sample_pages)
  have m: "2048 = Min (pmm_avail sample_pmm)" "pmm_avail sample_pmm \<noteq> {}"
    by (simp_all add: sample_pmm_facts(2))
  have sub: "{2048..<2048 + unat (mem_pages 5000)} \<subseteq> pmm_avail sample_pmm"
    unfolding n sample_pmm_facts(2) by auto
  have "0 < unat (mem_pages 5000)" using n by simp
  from mem_alloc_free_roundtrip [OF sample_pmm_facts(1) m(2,1) this sub]
  have r: "unat (fst (mem_alloc 5000 sample_pmm)) = 8388616"
    "pmm_avail (mem_free (fst (mem_alloc 5000 sample_pmm)) (snd (mem_alloc 5000 sample_pmm))) =
     {2048, 2049, 2050}"
    by (simp_all only: sample_pmm_facts(2))
  have "fst (mem_alloc 5000 sample_pmm) = 0x800008"
    by (rule word_unat_eq_iff [THEN iffD2]) (simp only: r(1), simp)
  then show ?thesis using r(2) by blast
qed

text \<open>when the frame after the lowest free one is in use, freeing a two-page block marks
  that frame free while its owner still uses it: \<open>mem_alloc\<close> took a frame elsewhere.\<close>

theorem mem_free_foreign_frame:
  assumes "pmm_inv s" "pmm_avail s \<noteq> {}" "f = Min (pmm_avail s)" "mem_pages sz = 2"
    and "Suc f < 1048576" "Suc f \<notin> pmm_avail s"
  shows "Suc f \<notin> pmm_avail (snd (mem_alloc sz s)) \<and>
    Suc f \<in> pmm_avail (mem_free (fst (mem_alloc sz s)) (snd (mem_alloc sz s)))"
proof
  show "Suc f \<notin> pmm_avail (snd (mem_alloc sz s))"
    using drop_lowest_subset assms(6) unfolding mem_alloc_some(2) [OF assms(1,2)] by blast
  have n: "unat (mem_pages sz) = 2" using assms(4) by simp
  then show "Suc f \<in> pmm_avail (mem_free (fst (mem_alloc sz s)) (snd (mem_alloc sz s)))"
    using mem_alloc_free_avail [OF assms(1,2), of sz] assms(3,5) by simp
qed

theorem mem_free_foreign_frame_witness:
  "2049 \<in> pmm_avail (mem_free (fst (mem_alloc 5000 (pmm_set_bit 2049 sample_pmm)))
     (snd (mem_alloc 5000 (pmm_set_bit 2049 sample_pmm))))"
proof -
  let ?s = "pmm_set_bit 2049 sample_pmm"
  have "pmm_avail ?s = {2048, 2049, 2050} - {2049}"
    by (simp add: pmm_avail_set sample_pmm_facts(2))
  also have "\<dots> = {2048, 2050}" by (simp add: insert_Diff_if)
  finally have av: "pmm_avail ?s = {2048, 2050}" .
  have inv: "pmm_inv ?s" by (rule pmm_inv_set) (rule sample_pmm_facts)
  have pages: "mem_pages 5000 = 2"
    by (rule word_unat_eq_iff [THEN iffD2]) (simp only: sample_pages, simp)
  have "pmm_avail ?s \<noteq> {}" "2048 = Min (pmm_avail ?s)" "Suc 2048 < 1048576" "Suc 2048 \<notin> pmm_avail ?s"
    unfolding av by simp_all
  from mem_free_foreign_frame [OF inv this(1,2) pages this(3,4)]
  have "Suc 2048 \<in> pmm_avail (mem_free (fst (mem_alloc 5000 ?s)) (snd (mem_alloc 5000 ?s)))"
    by blast
  moreover have "Suc 2048 = 2049" by simp
  ultimately show ?thesis by metis
qed

end
