(* ===== verification/Process.thy ===== *)
theory Process
  imports Mem
begin

section \<open>\<^verbatim>\<open>process.c\<close>: the process table\<close>

text \<open>
  The table \<open>proc_table[16]\<close> is a list of 16 entries; a slot whose \<open>pid\<close> is 0 is unused.
  \<open>process_create\<close> takes the first unused slot and the lowest unused positive pid, allocates
  a stack with \<open>vmm_alloc\<close> (not checking for \<open>NULL\<close>) and stores the entry point at the top
  of it. That store goes through the processor's address translation, which is not code of
  the repository: the parameter \<open>X\<close> gives the physical address of a virtual one for the
  current memory and root table, \<open>None\<close> for a page fault.
\<close>

datatype proc_status = PROC_READY | PROC_RUNNING | PROC_TERMINATED

record pcb =
  pid :: u64
  status :: proc_status
  stack_ptr :: u64
  mem_base :: u64
  mem_size :: u64
  run_time :: u64

record process_state = mem_state +
  proc_table :: "pcb list"
  last_time :: u64

type_synonym mmu = "ram \<Rightarrow> u64 \<Rightarrow> u64 \<Rightarrow> u64 option"

definition MAX_PROCS :: nat where "MAX_PROCS = 16"

definition zero_pcb :: pcb where
  "zero_pcb = \<lparr>pid = 0, status = PROC_READY, stack_ptr = 0, mem_base = 0, mem_size = 0, run_time = 0\<rparr>"

definition process_init :: "'a process_state_scheme \<Rightarrow> 'a process_state_scheme" where
  "process_init s =
     s\<lparr>proc_table := replicate MAX_PROCS zero_pcb, last_time := timer_get_uptime_seconds s\<rparr>"

text \<open>The first slot from \<open>i\<close> on with the given pid: \<open>for (j = 0; j < MAX_PROCS; j++)\<close>.\<close>

fun find_slot :: "u64 \<Rightarrow> nat \<Rightarrow> pcb list \<Rightarrow> nat option" where
  "find_slot p i [] = None"
| "find_slot p i (e # es) = (if pid e = p then Some i else find_slot p (Suc i) es)"

text \<open>The \<open>do ... while (found)\<close> loop.\<close>

partial_function (option) lowest_pid_loop :: "pcb list \<Rightarrow> u64 \<Rightarrow> u64 option" where
  "lowest_pid_loop tbl lowest =
     (if find_slot lowest 0 tbl \<noteq> None then lowest_pid_loop tbl (lowest + 1) else Some lowest)"

definition update_slot ::
  "nat \<Rightarrow> (pcb \<Rightarrow> pcb) \<Rightarrow> 'a process_state_scheme \<Rightarrow> 'a process_state_scheme" where
  "update_slot i g s = s\<lparr>proc_table := (proc_table s)[i := g (proc_table s ! i)]\<rparr>"

text \<open>A store of bytes through the translation.\<close>

fun mmu_store :: "(u64 \<Rightarrow> u64 option) \<Rightarrow> u64 \<Rightarrow> u8 list \<Rightarrow> ram \<Rightarrow> ram option" where
  "mmu_store x va [] m = Some m"
| "mmu_store x va (b # bs) m = do { pa \<leftarrow> x va; mmu_store x (va + 1) bs (m(pa := b)) }"

definition process_create ::
  "mmu \<Rightarrow> u64 \<Rightarrow> u64 \<Rightarrow> 'a process_state_scheme \<Rightarrow> (u64 \<times> 'a process_state_scheme) option" where
  "process_create X entry stack_size s =
     (case find_slot 0 0 (proc_table s) of
        None \<Rightarrow> Some (0, s)
      | Some i \<Rightarrow> do {
          lowest_pid \<leftarrow> lowest_pid_loop (proc_table s) 1;
          let s = update_slot i (pid_update (\<lambda>_. lowest_pid)) s;
          let s = update_slot i (status_update (\<lambda>_. PROC_RUNNING)) s;
          (base, s) \<leftarrow> vmm_alloc stack_size s;
          let s = update_slot i (mem_base_update (\<lambda>_. base)) s;
          let s = update_slot i (mem_size_update (\<lambda>_. stack_size)) s;
          let s = update_slot i (\<lambda>e. e\<lparr>stack_ptr := mem_base e + stack_size\<rparr>) s;
          let s = update_slot i (run_time_update (\<lambda>_. 0)) s;
          let stack = stack_ptr (proc_table s ! i) - 8;
          m \<leftarrow> mmu_store (X (ram s) (pml4 s)) stack (le_bytes 8 entry) (ram s);
          let s = update_slot i (stack_ptr_update (\<lambda>_. stack)) (s\<lparr>ram := m\<rparr>);
          Some (pid (proc_table s ! i), s)
        })"

definition process_reap ::
  "nat \<Rightarrow> 'a process_state_scheme \<Rightarrow> 'a process_state_scheme option" where
  "process_reap i s =
     (let e = proc_table s ! i
      in if pid e \<noteq> 0 \<and> status e = PROC_TERMINATED then do {
           s \<leftarrow> vmm_free (mem_base e) s;
           Some (update_slot i (pid_update (\<lambda>_. 0)) s)
         } else Some s)"

fun process_reap_from ::
  "nat \<Rightarrow> nat \<Rightarrow> 'a process_state_scheme \<Rightarrow> 'a process_state_scheme option" where
  "process_reap_from i 0 s = Some s"
| "process_reap_from i (Suc k) s = do { s \<leftarrow> process_reap i s; process_reap_from (Suc i) k s }"

definition process_check_and_free ::
  "'a process_state_scheme \<Rightarrow> 'a process_state_scheme option" where
  "process_check_and_free s = process_reap_from 0 MAX_PROCS s"

definition account :: "u64 \<Rightarrow> pcb \<Rightarrow> pcb" where
  "account delta e =
     (if pid e \<noteq> 0 \<and> status e = PROC_RUNNING then e\<lparr>run_time := run_time e + delta\<rparr> else e)"

definition scheduler :: "'a process_state_scheme \<Rightarrow> 'a process_state_scheme" where
  "scheduler s =
     (let current_time = timer_get_uptime_seconds s
      in if last_time s < current_time then
           s\<lparr>proc_table := map (account (current_time - last_time s)) (proc_table s),
             last_time := current_time\<rparr>
         else s)"

definition get_proc_by_pid :: "u64 \<Rightarrow> 'a process_state_scheme \<Rightarrow> nat option" where
  "get_proc_by_pid p s = find_slot p 0 (proc_table s)"

definition kill_proc :: "u64 \<Rightarrow> 'a process_state_scheme \<Rightarrow> 'a process_state_scheme" where
  "kill_proc p s =
     (case get_proc_by_pid p s of
        Some i \<Rightarrow> update_slot i (status_update (\<lambda>_. PROC_TERMINATED)) s
      | None \<Rightarrow> s)"

subsection \<open>The invariant of the table\<close>

definition proc_inv :: "'a process_state_scheme \<Rightarrow> bool" where
  "proc_inv s \<longleftrightarrow> length (proc_table s) = MAX_PROCS \<and>
     (\<forall>i < MAX_PROCS. \<forall>j < MAX_PROCS. pid (proc_table s ! i) = pid (proc_table s ! j) \<longrightarrow>
        pid (proc_table s ! i) \<noteq> 0 \<longrightarrow> i = j)"

lemma find_slot_spec:
  "find_slot p k es = (if p \<in> pid ` set es then Some (k + (LEAST i. i < length es \<and> pid (es ! i) = p)) else None)"
proof (induction es arbitrary: k)
  case Nil
  then show ?case by simp
next
  case (Cons e es)
  let ?P = "\<lambda>i. i < length (e # es) \<and> pid ((e # es) ! i) = p"
  show ?case
  proof (cases "pid e = p")
    case True
    then have "(LEAST i. ?P i) = 0" by (intro Least_equality) auto
    then show ?thesis using True by simp
  next
    case False
    show ?thesis
    proof (cases "p \<in> pid ` set es")
      case True
      then obtain i where "i < length es" "pid (es ! i) = p" by (auto simp: in_set_conv_nth)
      then have P: "?P (Suc i)" by simp
      have "(LEAST i. ?P i) = Suc (LEAST i. ?P (Suc i))"
        by (rule Least_Suc [of ?P, OF P]) (use False in simp)
      then show ?thesis using False True Cons by simp
    qed (use False Cons in auto)
  qed
qed

lemma find_slot_Some:
  assumes "find_slot p 0 es = Some i"
  shows "i < length es" "pid (es ! i) = p" "\<forall>j < i. pid (es ! j) \<noteq> p"
proof -
  have p: "p \<in> pid ` set es" and i: "i = (LEAST i. i < length es \<and> pid (es ! i) = p)"
    using assms by (auto simp: find_slot_spec split: if_splits)
  then have ex: "\<exists>i. i < length es \<and> pid (es ! i) = p" by (auto simp: in_set_conv_nth)
  show l: "i < length es" "pid (es ! i) = p" using LeastI_ex [OF ex] i by simp_all
  show "\<forall>j < i. pid (es ! j) \<noteq> p"
  proof (intro allI impI)
    fix j
    assume "j < i"
    then have "\<not> (j < length es \<and> pid (es ! j) = p)" unfolding i by (rule not_less_Least)
    then show "pid (es ! j) \<noteq> p" using \<open>j < i\<close> l(1) by simp
  qed
qed

lemma find_slot_None: "find_slot p k es = None \<longleftrightarrow> p \<notin> pid ` set es"
  by (simp add: find_slot_spec)

subsection \<open>The lowest free pid\<close>

definition pid_free :: "pcb list \<Rightarrow> nat \<Rightarrow> bool" where
  "pid_free tbl n \<longleftrightarrow> 1 \<le> n \<and> (of_nat n :: u64) \<notin> pid ` set tbl"

text \<open>Among the first \<open>length tbl + 1\<close> pids one is free.\<close>

lemma pid_free_exists:
  assumes "length tbl < 2 ^ 32"
  shows "\<exists>n \<le> Suc (length tbl). pid_free tbl n"
proof (rule ccontr)
  let ?N = "Suc (length tbl)"
  assume "\<not> ?thesis"
  then have "of_nat ` {1..?N} \<subseteq> pid ` set tbl" by (auto simp: pid_free_def)
  then have "card (of_nat ` {1..?N} :: u64 set) \<le> card (pid ` set tbl)" by (intro card_mono) auto
  moreover have "inj_on (of_nat :: nat \<Rightarrow> u64) {1..?N}"
    using assms by (intro inj_onI) (simp add: of_nat_neq_u64)
  then have "card (of_nat ` {1..?N} :: u64 set) = ?N" by (simp add: card_image)
  moreover have "card (pid ` set tbl) \<le> length tbl"
    by (metis card_length length_map set_map)
  ultimately show False by simp
qed

lemma lowest_pid_from:
  assumes "pid_free tbl n" "\<forall>m. k \<le> m \<longrightarrow> m < n \<longrightarrow> \<not> pid_free tbl m" "1 \<le> k" "k \<le> n"
  shows "lowest_pid_loop tbl (of_nat k) = Some (of_nat n)"
  using assms(2-4)
proof (induction "n - k" arbitrary: k)
  case 0
  then have "k = n" by simp
  then show ?case using assms(1)
    by (subst lowest_pid_loop.simps) (simp add: find_slot_None pid_free_def)
next
  case (Suc d)
  then have "\<not> pid_free tbl k" by simp
  then have "find_slot (of_nat k) 0 tbl \<noteq> None"
    using Suc.prems(2) by (simp add: pid_free_def find_slot_None)
  moreover have "lowest_pid_loop tbl (of_nat (Suc k)) = Some (of_nat n)"
    using Suc by (intro Suc.hyps(1)) auto
  ultimately show ?case by (subst lowest_pid_loop.simps) (simp add: add.commute)
qed

text \<open>The loop ends, with the least pid from 1 on that no slot has.\<close>

lemma lowest_pid_correct:
  assumes "length tbl < 2 ^ 32"
  defines "n \<equiv> LEAST n. pid_free tbl n"
  shows "lowest_pid_loop tbl 1 = Some (of_nat n)" "pid_free tbl n" "n \<le> Suc (length tbl)"
    "(of_nat n :: u64) \<noteq> 0"
proof -
  obtain m where m: "m \<le> Suc (length tbl)" "pid_free tbl m"
    using pid_free_exists [OF assms(1)] by blast
  show n: "pid_free tbl n" unfolding n_def using m(2) by (rule LeastI)
  show le: "n \<le> Suc (length tbl)" using Least_le [of "pid_free tbl", OF m(2)] m(1) by (simp add: n_def)
  have n1: "1 \<le> n" using n by (simp add: pid_free_def)
  have "\<not> pid_free tbl k" if "k < n" for k using not_less_Least that by (auto simp: n_def)
  then show "lowest_pid_loop tbl 1 = Some (of_nat n)"
    using lowest_pid_from [OF n, of 1] n1 by simp
  have "unat (of_nat n :: u64) = n" using le assms(1) by (intro unat_of_nat_u64) simp
  then show "(of_nat n :: u64) \<noteq> 0" using n1 by (metis not_one_le_zero unat_0)
qed

subsection \<open>The managers below leave the table alone\<close>

lemma vmm_more_paging:
  "paging_state.more s = paging_state.more t \<Longrightarrow> vmm_state.more s = vmm_state.more t"
  by (cases s, cases t) simp

lemma vmm_alloc_more: "vmm_alloc sz s = Some (v, t) \<Longrightarrow> vmm_state.more t = vmm_state.more s"
proof (erule vmm_alloc_cases)
  fix ok u
  assume u: "takes_frames s u" "\<not> ok \<Longrightarrow> v = 0 \<and> t = u"
    "ok \<Longrightarrow> v = next_vaddr s \<and>
       t = vma_push v ((sz + 4095) div 4096 * 4096) u\<lparr>next_vaddr := v + (sz + 4095) div 4096 * 4096\<rparr>"
  then have "vmm_state.more u = vmm_state.more s"
    by (auto simp: takes_frames_def dest: vmm_more_paging)
  then show "vmm_state.more t = vmm_state.more s" using u(2,3)
    by (cases ok) (simp_all add: vma_push_def)
qed

lemma vma_unlink_more: "vmm_state.more (vma_unlink prev c s) = vmm_state.more s"
  by (simp add: vma_unlink_def split: option.split)

lemma vmm_free_more: "vmm_free p s = Some t \<Longrightarrow> vmm_state.more t = vmm_state.more s"
proof -
  assume "vmm_free p s = Some t"
  then consider "t = s" | prev c u where "vmm_free_pages (vma_vaddr (vma_nodes s c)) 0
      (unat (vma_size (vma_nodes s c) div 4096)) s = Some u" "t = vma_unlink prev c u"
    by (auto simp: vmm_free_def bind_eq_Some_conv split: option.splits)
  then show ?thesis
  proof cases
    case 2
    then have "gives_frames s u" using vmm_free_pages_total by (metis option.inject)
    then show ?thesis using 2(2) by (auto simp: vma_unlink_more gives_frames_def dest: vmm_more_paging)
  qed simp
qed

lemma process_fields_more:
  assumes "vmm_state.more s = vmm_state.more t"
  shows "proc_table s = proc_table t" "last_time s = last_time t" "total_ram_bytes s = total_ram_bytes t"
  using assms by (cases s, cases t, simp)+

lemma update_slot_simps [simp]:
  "proc_table (update_slot i g s) = (proc_table s)[i := g (proc_table s ! i)]"
  "last_time (update_slot i g s) = last_time s"
  "vma_list (update_slot i g s) = vma_list s" "next_vaddr (update_slot i g s) = next_vaddr s"
  "vma_nodes (update_slot i g s) = vma_nodes s" "vma_count (update_slot i g s) = vma_count s"
  "ram (update_slot i g s) = ram s" "pml4 (update_slot i g s) = pml4 s"
  by (simp_all add: update_slot_def)

lemma vmm_rep_update_slot [simp]: "vmm_rep (update_slot i g s) rs = vmm_rep s rs"
  by (simp add: vmm_rep_def)

subsection \<open>Creating a process\<close>

lemma process_create_full:
  "0 \<notin> pid ` set (proc_table s) \<Longrightarrow> process_create X entry sz s = Some (0, s)"
  using find_slot_None [of 0 0 "proc_table s"] by (simp add: process_create_def)

lemma pcb_filled:
  "(e :: pcb)\<lparr>pid := a, status := b, mem_base := c, mem_size := d, run_time := r, stack_ptr := st\<rparr> =
     \<lparr>pid = a, status = b, stack_ptr = st, mem_base = c, mem_size = d, run_time = r\<rparr>"
  by (cases e) simp

lemma process_create_slot:
  assumes "length (proc_table s) = MAX_PROCS" "find_slot 0 0 (proc_table s) = Some i"
    and "process_create X entry sz s = Some (p, t)"
  obtains base where "i < MAX_PROCS"
    "p = of_nat (LEAST n. pid_free (proc_table s) n)" "p \<noteq> 0" "p \<notin> pid ` set (proc_table s)"
    "proc_table t = (proc_table s)[i := \<lparr>pid = p, status = PROC_RUNNING, stack_ptr = base + sz - 8,
       mem_base = base, mem_size = sz, run_time = 0\<rparr>]"
    "last_time t = last_time s"
proof -
  have i: "i < length (proc_table s)" using find_slot_Some(1) [OF assms(2)] .
  have len: "length (proc_table s) < 2 ^ 32" using assms(1) by (simp add: MAX_PROCS_def)
  note low = lowest_pid_correct [OF len]
  define q :: u64 where "q = of_nat (LEAST n. pid_free (proc_table s) n)"
  let ?s = "update_slot i (status_update (\<lambda>_. PROC_RUNNING)) (update_slot i (pid_update (\<lambda>_. q)) s)"
  obtain base u where v: "vmm_alloc sz ?s = Some (base, u)"
    using assms(3) low(1) unfolding process_create_def assms(2) q_def
    by (auto simp: bind_eq_Some_conv Let_def)
  note m = process_fields_more [OF vmm_alloc_more [OF v]]
  then have tu: "proc_table u ! i = (proc_table s ! i)\<lparr>pid := q, status := PROC_RUNNING\<rparr>"
    using i by simp
  have ut: "proc_table u = (proc_table s)[i := (proc_table s ! i)\<lparr>pid := q, status := PROC_RUNNING\<rparr>]"
    using m i by simp
  have iu: "i < length (proc_table u)" using i by (simp add: ut)
  have "p = q \<and> proc_table t = (proc_table s)[i := \<lparr>pid = q, status = PROC_RUNNING,
      stack_ptr = base + sz - 8, mem_base = base, mem_size = sz, run_time = 0\<rparr>] \<and> last_time t = last_time s"
    using assms(3) low(1) v i iu m(2) unfolding process_create_def assms(2) q_def [symmetric]
    by (auto simp: bind_eq_Some_conv Let_def ut pcb_filled)
  then show ?thesis
    using that [of base] low(2,4) i assms(1) by (auto simp: q_def pid_free_def)
qed

lemma proc_inv_fresh:
  assumes "proc_inv s" "i < MAX_PROCS" "p \<notin> pid ` set (proc_table s)"
    and "proc_table t = (proc_table s)[i := e]" "pid e = p"
  shows "proc_inv t"
proof -
  have "pid (proc_table s ! j) \<noteq> p" if "j < MAX_PROCS" for j
    using assms(1,3) that by (auto simp: proc_inv_def)
  then show ?thesis using assms by (auto simp: proc_inv_def nth_list_update)
qed

subsection \<open>Reaping\<close>

definition dead :: "pcb \<Rightarrow> bool" where
  "dead e \<longleftrightarrow> pid e \<noteq> 0 \<and> status e = PROC_TERMINATED"

definition reap_entry :: "pcb \<Rightarrow> pcb" where
  "reap_entry e = (if dead e then e\<lparr>pid := 0\<rparr> else e)"

definition reap_region :: "pcb \<Rightarrow> (u64 \<times> u64) list \<Rightarrow> (u64 \<times> u64) list" where
  "reap_region e rs = (if dead e then remove_region (mem_base e) rs else rs)"

lemma vmm_free_rep:
  assumes "vmm_rep s rs"
  obtains t where "vmm_free p s = Some t" "vmm_rep t (remove_region p rs)"
proof (cases "p \<in> fst ` set rs")
  case True
  then show ?thesis using vmm_free_present [OF assms] that by metis
next
  case False
  then show ?thesis using assms vmm_free_absent [OF assms] remove_region_absent [OF False] that by simp
qed

lemma process_reap_step:
  assumes "vmm_rep s rs" "i < length (proc_table s)"
  obtains t where "process_reap i s = Some t" "vmm_rep t (reap_region (proc_table s ! i) rs)"
    "proc_table t = (proc_table s)[i := reap_entry (proc_table s ! i)]" "last_time t = last_time s"
proof (cases "dead (proc_table s ! i)")
  case True
  obtain u where u: "vmm_free (mem_base (proc_table s ! i)) s = Some u"
    "vmm_rep u (remove_region (mem_base (proc_table s ! i)) rs)"
    using vmm_free_rep [OF assms(1)] by blast
  note m = process_fields_more [OF vmm_free_more [OF u(1)]]
  show ?thesis
    using True u m by (intro that [of "update_slot i (pid_update (\<lambda>_. 0)) u"])
      (simp_all add: process_reap_def dead_def reap_region_def reap_entry_def)
next
  case False
  then show ?thesis using assms
    by (intro that [of s]) (auto simp: process_reap_def dead_def reap_region_def reap_entry_def)
qed

lemma process_reap_run:
  assumes "vmm_rep s rs" "i + k \<le> length (proc_table s)"
  shows "\<exists>t. process_reap_from i k s = Some t \<and>
    vmm_rep t (fold reap_region (take k (drop i (proc_table s))) rs) \<and>
    proc_table t = take i (proc_table s) @ map reap_entry (take k (drop i (proc_table s))) @
      drop (i + k) (proc_table s) \<and> last_time t = last_time s"
  using assms
proof (induction k arbitrary: i s rs)
  case 0
  then show ?case by simp
next
  case (Suc k)
  let ?T = "proc_table s"
  obtain u where u: "process_reap i s = Some u" "vmm_rep u (reap_region (?T ! i) rs)"
    "proc_table u = ?T[i := reap_entry (?T ! i)]" "last_time u = last_time s"
    using process_reap_step [OF Suc.prems(1), of i] Suc.prems(2) by auto
  have d: "drop i ?T = ?T ! i # drop (Suc i) ?T"
    using Suc.prems(2) by (simp add: Cons_nth_drop_Suc)
  have t: "take (Suc i) (proc_table u) = take i ?T @ [reap_entry (?T ! i)]"
    using Suc.prems(2) by (simp add: u(3) take_Suc_conv_app_nth)
  have "drop (Suc i) (proc_table u) = drop (Suc i) ?T" by (simp add: u(3))
  moreover have "drop (Suc i + k) (proc_table u) = drop (Suc i + k) ?T" by (simp add: u(3))
  moreover have "Suc i + k \<le> length (proc_table u)" using Suc.prems(2) by (simp add: u(3))
  ultimately show ?case
    using Suc.IH [OF u(2), of "Suc i"] u(1,4) t d by auto
qed

lemma process_check_and_free_spec:
  assumes "vmm_rep s rs" "length (proc_table s) = MAX_PROCS"
  obtains t where "process_check_and_free s = Some t" "vmm_rep t (fold reap_region (proc_table s) rs)"
    "proc_table t = map reap_entry (proc_table s)" "last_time t = last_time s"
  using process_reap_run [OF assms(1), of 0 MAX_PROCS] assms(2)
  by (auto simp: process_check_and_free_def)

lemma kill_proc_table:
  assumes "proc_inv s" "p \<noteq> 0"
  shows "proc_table (kill_proc p s) =
    map (\<lambda>e. if pid e = p then e\<lparr>status := PROC_TERMINATED\<rparr> else e) (proc_table s)"
proof (cases "find_slot p 0 (proc_table s)")
  case None
  then have "p \<notin> pid ` set (proc_table s)" using find_slot_None by blast
  then show ?thesis using None
    by (auto simp: kill_proc_def get_proc_by_pid_def intro!: map_idI [symmetric])
next
  case (Some i)
  note i = find_slot_Some [OF Some]
  have "pid (proc_table s ! j) = p \<longleftrightarrow> j = i" if "j < length (proc_table s)" for j
    using assms i that by (auto simp: proc_inv_def)
  then show ?thesis using Some i
    by (intro nth_equalityI) (auto simp: kill_proc_def get_proc_by_pid_def nth_list_update)
qed

lemma kill_proc_rep: "vmm_rep s rs \<Longrightarrow> vmm_rep (kill_proc p s) rs"
  by (simp add: kill_proc_def split: option.split)

lemma proc_inv_map:
  assumes "proc_inv s" "\<And>e. pid (g e) = pid e \<or> pid (g e) = 0" "proc_table t = map g (proc_table s)"
  shows "proc_inv t"
  unfolding proc_inv_def
proof (intro conjI allI impI)
  show "length (proc_table t) = MAX_PROCS" using assms by (simp add: proc_inv_def)
  fix i j
  assume ij: "i < MAX_PROCS" "j < MAX_PROCS" "pid (proc_table t ! i) = pid (proc_table t ! j)"
    "pid (proc_table t ! i) \<noteq> 0"
  have l: "length (proc_table s) = MAX_PROCS" using assms(1) by (simp add: proc_inv_def)
  have "pid (proc_table s ! i) = pid (proc_table s ! j)" "pid (proc_table s ! i) \<noteq> 0"
    using ij l assms(2) [of "proc_table s ! i"] assms(2) [of "proc_table s ! j"]
    by (auto simp: assms(3))
  then show "i = j" using assms(1) ij(1,2) by (simp add: proc_inv_def)
qed

lemma kill_reaps:
  assumes "proc_inv s" "vmm_rep s rs" "p \<noteq> 0"
  shows "\<exists>t. process_check_and_free (kill_proc p s) = Some t \<and> proc_inv t \<and>
    proc_table t = map (\<lambda>e. if pid e = p then e\<lparr>pid := 0, status := PROC_TERMINATED\<rparr> else reap_entry e)
      (proc_table s) \<and>
    vmm_rep t (fold reap_region (proc_table (kill_proc p s)) rs)"
proof -
  let ?k = "\<lambda>e. if pid e = p then e\<lparr>status := PROC_TERMINATED\<rparr> else e"
  note k = kill_proc_table [OF assms(1,3)]
  have inv: "proc_inv (kill_proc p s)" by (rule proc_inv_map [OF assms(1) _ k]) simp
  then obtain t where t: "process_check_and_free (kill_proc p s) = Some t"
    "vmm_rep t (fold reap_region (proc_table (kill_proc p s)) rs)"
    "proc_table t = map reap_entry (proc_table (kill_proc p s))"
    using process_check_and_free_spec [OF kill_proc_rep [OF assms(2)]] by (metis proc_inv_def)
  have "proc_inv t" by (rule proc_inv_map [OF inv _ t(3)]) (simp add: reap_entry_def)
  then show ?thesis using t assms(3) by (auto simp: k reap_entry_def dead_def)
qed

subsection \<open>Properties\<close>

definition sample_pcb :: "u64 \<Rightarrow> proc_status \<Rightarrow> pcb" where
  "sample_pcb p st =
     \<lparr>pid = p, status = st, stack_ptr = 0, mem_base = 0x5000, mem_size = 4096, run_time = 7\<rparr>"

definition sample_process :: "pcb list \<Rightarrow> process_state" where
  "sample_process tbl =
     \<lparr>ram = \<lambda>_. 0, io_trace = [], timer_ticks = 900, system_uptime_seconds = 9,
      shift_pressed = 0, caps_lock = 0, pmm_bitmap = sample_bitmap, total_frames = MAX_FRAMES,
      pml4 = 0x1000, tlb_flushes = [], vma_list = None, next_vaddr = 0x10000000,
      vma_nodes = \<lambda>_. \<lparr>vma_vaddr = 0, vma_size = 0, vma_next = None\<rparr>, vma_count = 0,
      total_ram_bytes = 0, proc_table = tbl, last_time = 4\<rparr>"

definition sample_table :: "proc_status \<Rightarrow> pcb list" where
  "sample_table st = sample_pcb 2 st # replicate 15 zero_pcb"

lemma sample_process_simps [simp]:
  "proc_table (sample_process tbl) = tbl" "last_time (sample_process tbl) = 4"
  "system_uptime_seconds (sample_process tbl) = 9" "vma_list (sample_process tbl) = None"
  "next_vaddr (sample_process tbl) = 0x10000000"
  by (simp_all add: sample_process_def)

lemma sample_table_inv: "proc_inv (sample_process (sample_table st))"
  by (auto simp: proc_inv_def sample_table_def sample_pcb_def MAX_PROCS_def zero_pcb_def nth_Cons'
      split: if_splits)

lemma sample_process_rep: "vmm_rep (sample_process tbl) []"
  by (simp add: vmm_rep_def)


lemma mmu_store_identity: "mmu_store (\<lambda>va. Some va) a bs m = Some (store_bytes a bs m)"
  by (induction bs arbitrary: a m) simp_all


text \<open>with all 16 slots in use \<open>process_create\<close> returns 0 and changes nothing.\<close>

theorem process_create_table_full:
  assumes "0 \<notin> pid ` set (proc_table s)"
  shows "process_create X entry sz s = Some (0, s)"
  using assms by (rule process_create_full)

theorem process_create_table_full_witness:
  "process_create (\<lambda>m root va. None) 0 4096 (sample_process (replicate 16 (sample_pcb 2 PROC_READY)))
    = Some (0, sample_process (replicate 16 (sample_pcb 2 PROC_READY)))"
  by (rule process_create_table_full) (simp add: sample_pcb_def)

text \<open>C33: \<open>kill_proc\<close> followed by \<open>process_check_and_free\<close> returns, removes the process
  and every other terminated one from the table, gives their regions back, and keeps the
  processes that were not terminated as they were.\<close>

theorem process_kill_reaps:
  assumes "proc_inv s" "vmm_rep s rs" "p \<noteq> 0"
  shows "\<exists>t. process_check_and_free (kill_proc p s) = Some t \<and> proc_inv t \<and>
    proc_table t = map (\<lambda>e. if pid e = p then e\<lparr>pid := 0, status := PROC_TERMINATED\<rparr> else reap_entry e)
      (proc_table s) \<and>
    vmm_rep t (fold reap_region (proc_table (kill_proc p s)) rs)"
  by (rule kill_reaps [OF assms])

theorem process_kill_reaps_witness:
  "\<exists>t. process_check_and_free (kill_proc 2 (sample_process (sample_table PROC_RUNNING))) = Some t \<and>
    proc_table t ! 0 = (sample_pcb 0 PROC_TERMINATED)"
  using process_kill_reaps [OF sample_table_inv sample_process_rep, of 2 PROC_RUNNING]
  by (auto simp: sample_table_def sample_pcb_def)

text \<open>the scheduler adds the seconds since its last accounting to every running process and
  to no other, and moves \<open>last_time\<close> to now.\<close>

theorem scheduler_accounts:
  assumes "last_time s \<le> timer_get_uptime_seconds s" "i < length (proc_table s)"
  shows "last_time (scheduler s) = timer_get_uptime_seconds s \<and>
    proc_table (scheduler s) ! i =
      (let e = proc_table s ! i
       in if pid e \<noteq> 0 \<and> status e = PROC_RUNNING
          then e\<lparr>run_time := run_time e + (timer_get_uptime_seconds s - last_time s)\<rparr> else e)"
  using assms by (auto simp: scheduler_def account_def Let_def)

theorem scheduler_accounts_witness:
  "run_time (proc_table (scheduler (sample_process (sample_table PROC_RUNNING))) ! 0) = 12"
  using scheduler_accounts [of "sample_process (sample_table PROC_RUNNING)" 0]
  by (simp add: sample_table_def sample_pcb_def timer_get_uptime_seconds_def)

end
