(* ===== verification/Framebuffer.thy ===== *)
theory Framebuffer
  imports Process
begin

section \<open>\<^verbatim>\<open>framebuffer.c\<close>: pixels, text and buffers\<close>

text \<open>
  A pixel is a 32-bit store at \<open>target + y * pitch + x * 4\<close>, where the target is the screen
  or, with double buffering, a block of \<open>mem_alloc\<close>. All address arithmetic is modulo
  \<open>2 ^ 64\<close> as in the code; \<open>fb_ok\<close> is the geometry under which no pixel wraps or
  overlaps another. Counted loops over \<open>uint64_t\<close> are folds over \<open>[0..<n]\<close>, and
  \<open>for_range a b\<close> is \<open>for (i = a; i < b; i++)\<close>. Strings are the bytes before the
  terminating NUL. \<open>None\<close> is the divide fault of a circle of radius 0.
\<close>

record fb_state = process_state +
  fb :: u64
  back_buffer :: u64
  screen_w :: u64
  screen_h :: u64
  fb_pitch_val :: u64
  fb_format :: u32
  use_double_buffer :: bool

abbreviation FB_COLOR_BLACK :: u32 where "FB_COLOR_BLACK \<equiv> 0x00000000"
abbreviation FB_COLOR_WHITE :: u32 where "FB_COLOR_WHITE \<equiv> 0x00FFFFFF"
abbreviation FB_COLOR_GREEN :: u32 where "FB_COLOR_GREEN \<equiv> 0x0000FF00"
abbreviation FB_COLOR_RED :: u32 where "FB_COLOR_RED \<equiv> 0x00FF0000"
abbreviation FB_FORMAT_BGR :: u32 where "FB_FORMAT_BGR \<equiv> 1"

definition font :: "u8 list list" where
  "font =
     [[0x00, 0x00, 0x00, 0x00, 0x00, 0x00, 0x00, 0x00], [0x18, 0x18, 0x18, 0x18, 0x18, 0x00, 0x18, 0x00],
      [0x00, 0x18, 0x18, 0x00, 0x18, 0x18, 0x00, 0x00], [0x00, 0x30, 0x30, 0x30, 0x30, 0x30, 0x30, 0x00],
      [0x0C, 0x3E, 0x03, 0x1E, 0x30, 0x1F, 0x0C, 0x00], [0x00, 0x63, 0x33, 0x18, 0x0C, 0x66, 0x63, 0x00],
      [0x1C, 0x36, 0x1C, 0x6E, 0x3B, 0x33, 0x6E, 0x00], [0x06, 0x06, 0x03, 0x00, 0x00, 0x00, 0x00, 0x00],
      [0x18, 0x0C, 0x06, 0x06, 0x06, 0x0C, 0x18, 0x00], [0x06, 0x0C, 0x18, 0x18, 0x18, 0x0C, 0x06, 0x00],
      [0x00, 0x66, 0x3C, 0xFF, 0x3C, 0x66, 0x00, 0x00], [0x00, 0x0C, 0x0C, 0x3F, 0x0C, 0x0C, 0x00, 0x00],
      [0x00, 0x00, 0x00, 0x00, 0x00, 0x0C, 0x0C, 0x06], [0x00, 0x00, 0x00, 0x3F, 0x00, 0x00, 0x00, 0x00],
      [0x00, 0x00, 0x00, 0x00, 0x00, 0x0C, 0x0C, 0x00], [0x60, 0x30, 0x18, 0x0C, 0x06, 0x03, 0x01, 0x00],
      [0x3E, 0x63, 0x73, 0x7B, 0x6F, 0x67, 0x3E, 0x00], [0x0C, 0x0E, 0x0C, 0x0C, 0x0C, 0x0C, 0x3F, 0x00],
      [0x1E, 0x33, 0x30, 0x1C, 0x06, 0x33, 0x3F, 0x00], [0x1E, 0x33, 0x30, 0x1C, 0x30, 0x33, 0x1E, 0x00],
      [0x38, 0x3C, 0x36, 0x33, 0x7F, 0x30, 0x78, 0x00], [0x3F, 0x03, 0x1F, 0x30, 0x30, 0x33, 0x1E, 0x00],
      [0x1C, 0x06, 0x03, 0x1F, 0x33, 0x33, 0x1E, 0x00], [0x3F, 0x33, 0x30, 0x18, 0x0C, 0x0C, 0x0C, 0x00],
      [0x1E, 0x33, 0x33, 0x1E, 0x33, 0x33, 0x1E, 0x00], [0x1E, 0x33, 0x33, 0x3E, 0x30, 0x18, 0x0E, 0x00],
      [0x00, 0x0C, 0x0C, 0x00, 0x00, 0x0C, 0x0C, 0x00], [0x00, 0x0C, 0x0C, 0x00, 0x00, 0x0C, 0x0C, 0x06],
      [0x18, 0x0C, 0x06, 0x03, 0x06, 0x0C, 0x18, 0x00], [0x00, 0x00, 0x3F, 0x00, 0x00, 0x3F, 0x00, 0x00],
      [0x06, 0x0C, 0x18, 0x30, 0x18, 0x0C, 0x06, 0x00], [0x1E, 0x33, 0x30, 0x18, 0x0C, 0x00, 0x0C, 0x00],
      [0x3E, 0x63, 0x7B, 0x7B, 0x7B, 0x03, 0x1E, 0x00], [0x0C, 0x1E, 0x33, 0x33, 0x3F, 0x33, 0x33, 0x00],
      [0x3F, 0x66, 0x66, 0x3E, 0x66, 0x66, 0x3F, 0x00], [0x3C, 0x66, 0x03, 0x03, 0x03, 0x66, 0x3C, 0x00],
      [0x1F, 0x36, 0x66, 0x66, 0x66, 0x36, 0x1F, 0x00], [0x7F, 0x46, 0x16, 0x1E, 0x16, 0x46, 0x7F, 0x00],
      [0x7F, 0x46, 0x16, 0x1E, 0x16, 0x06, 0x0F, 0x00], [0x3C, 0x66, 0x03, 0x03, 0x03, 0x66, 0x7C, 0x38],
      [0x33, 0x33, 0x33, 0x3F, 0x33, 0x33, 0x33, 0x00], [0x1E, 0x0C, 0x0C, 0x0C, 0x0C, 0x0C, 0x1E, 0x00],
      [0x78, 0x30, 0x30, 0x30, 0x33, 0x33, 0x1E, 0x00], [0x67, 0x66, 0x36, 0x1E, 0x36, 0x66, 0x67, 0x00],
      [0x0F, 0x06, 0x06, 0x06, 0x46, 0x66, 0x7F, 0x00], [0x63, 0x77, 0x7F, 0x7F, 0x6B, 0x63, 0x63, 0x00],
      [0x63, 0x67, 0x6F, 0x7B, 0x73, 0x63, 0x63, 0x00], [0x1C, 0x36, 0x63, 0x63, 0x63, 0x36, 0x1C, 0x00],
      [0x3F, 0x66, 0x66, 0x3E, 0x06, 0x06, 0x0F, 0x00], [0x1E, 0x33, 0x33, 0x33, 0x3B, 0x1E, 0x38, 0x00],
      [0x3F, 0x66, 0x66, 0x3E, 0x36, 0x66, 0x67, 0x00], [0x1E, 0x33, 0x07, 0x0E, 0x38, 0x33, 0x1E, 0x00],
      [0x3F, 0x2D, 0x0C, 0x0C, 0x0C, 0x0C, 0x1E, 0x00], [0x33, 0x33, 0x33, 0x33, 0x33, 0x33, 0x3F, 0x00],
      [0x33, 0x33, 0x33, 0x33, 0x33, 0x1E, 0x0C, 0x00], [0x63, 0x63, 0x63, 0x6B, 0x7F, 0x77, 0x63, 0x00],
      [0x63, 0x63, 0x36, 0x1C, 0x1C, 0x36, 0x63, 0x00], [0x33, 0x33, 0x33, 0x1E, 0x0C, 0x0C, 0x1E, 0x00],
      [0x7F, 0x63, 0x31, 0x18, 0x4C, 0x66, 0x7F, 0x00], [0x1E, 0x06, 0x06, 0x06, 0x06, 0x06, 0x1E, 0x00],
      [0x03, 0x06, 0x0C, 0x18, 0x30, 0x60, 0x40, 0x00], [0x1E, 0x18, 0x18, 0x18, 0x18, 0x18, 0x1E, 0x00],
      [0x08, 0x1C, 0x36, 0x63, 0x00, 0x00, 0x00, 0x00], [0x00, 0x00, 0x00, 0x00, 0x00, 0x00, 0x00, 0xFF],
      [0x0C, 0x0C, 0x18, 0x00, 0x00, 0x00, 0x00, 0x00], [0x00, 0x00, 0x1E, 0x30, 0x3E, 0x33, 0x6E, 0x00],
      [0x07, 0x06, 0x06, 0x3E, 0x66, 0x66, 0x3B, 0x00], [0x00, 0x00, 0x1E, 0x33, 0x03, 0x33, 0x1E, 0x00],
      [0x38, 0x30, 0x30, 0x3E, 0x33, 0x33, 0x6E, 0x00], [0x00, 0x00, 0x1E, 0x33, 0x3F, 0x03, 0x1E, 0x00],
      [0x1C, 0x36, 0x06, 0x0F, 0x06, 0x06, 0x0F, 0x00], [0x00, 0x00, 0x6E, 0x33, 0x33, 0x3E, 0x30, 0x1F],
      [0x06, 0x06, 0x06, 0x76, 0x66, 0x66, 0xE6, 0x00], [0x18, 0x18, 0x00, 0x18, 0x18, 0x18, 0x18, 0x00],
      [0x06, 0x06, 0x00, 0x06, 0x06, 0x06, 0x06, 0x0E], [0x06, 0x06, 0x66, 0x36, 0x1E, 0x36, 0x66, 0x00],
      [0x18, 0x18, 0x18, 0x18, 0x18, 0x18, 0x70, 0x00], [0x00, 0x00, 0x66, 0x7F, 0x6B, 0x63, 0x63, 0x00],
      [0x00, 0x00, 0x66, 0x76, 0x66, 0x66, 0x66, 0x00], [0x00, 0x00, 0x3C, 0x66, 0x66, 0x66, 0x3C, 0x00],
      [0x00, 0x00, 0x7E, 0x66, 0x66, 0x66, 0x3E, 0x06], [0x00, 0x00, 0x7E, 0x66, 0x66, 0x66, 0x7C, 0x60],
      [0x00, 0x00, 0x6E, 0x73, 0x03, 0x03, 0x07, 0x00], [0x00, 0x00, 0x3E, 0x03, 0x1E, 0x30, 0x1F, 0x00],
      [0x00, 0x10, 0x3E, 0x10, 0x10, 0x10, 0x10, 0x38], [0x00, 0x00, 0x66, 0x66, 0x66, 0x66, 0x7E, 0x00],
      [0x00, 0x00, 0x66, 0x66, 0x66, 0x3C, 0x18, 0x00], [0x00, 0x00, 0x63, 0x6B, 0x7F, 0x7F, 0x36, 0x00],
      [0x00, 0x00, 0x63, 0x36, 0x1C, 0x36, 0x63, 0x00], [0x00, 0x00, 0xC6, 0x66, 0x66, 0x7C, 0x60, 0x3E],
      [0x00, 0x00, 0x7F, 0x19, 0x0C, 0x26, 0x7F, 0x00], [0x0C, 0x0C, 0x0C, 0x00, 0x0C, 0x0C, 0x0C, 0x00],
      [0x18, 0x18, 0x18, 0x18, 0x18, 0x18, 0x18, 0x18], [0x30, 0x18, 0x0C, 0x06, 0x0C, 0x18, 0x30, 0x00],
      [0x00, 0x00, 0x00, 0x00, 0x76, 0xDC, 0x00, 0x00]]"

definition fb_init :: "boot_info \<Rightarrow> 'a fb_state_scheme \<Rightarrow> 'a fb_state_scheme" where
  "fb_init info s =
     s\<lparr>fb := framebuffer info, screen_w := info_fb_width info, screen_h := info_fb_height info,
       fb_pitch_val := info_fb_pitch info, fb_format := info_fb_format info\<rparr>"

definition fb_width :: "'a fb_state_scheme \<Rightarrow> u64" where "fb_width s = screen_w s"
definition fb_height :: "'a fb_state_scheme \<Rightarrow> u64" where "fb_height s = screen_h s"
definition fb_pitch :: "'a fb_state_scheme \<Rightarrow> u64" where "fb_pitch s = fb_pitch_val s"

definition fb_rgb :: "'a fb_state_scheme \<Rightarrow> u8 \<Rightarrow> u8 \<Rightarrow> u8 \<Rightarrow> u32" where
  "fb_rgb s r g b =
     (if fb_format s = FB_FORMAT_BGR
      then ucast r OR push_bit 8 (ucast g) OR push_bit 16 (ucast b)
      else ucast b OR push_bit 8 (ucast g) OR push_bit 16 (ucast r))"

definition fb_target :: "'a fb_state_scheme \<Rightarrow> u64" where
  "fb_target s = (if use_double_buffer s then back_buffer s else fb s)"

definition pixel_addr :: "'a fb_state_scheme \<Rightarrow> u64 \<Rightarrow> u64 \<Rightarrow> u64" where
  "pixel_addr s x y = fb_target s + y * fb_pitch_val s + x * 4"

definition fb_put_pixel :: "u64 \<Rightarrow> u64 \<Rightarrow> u32 \<Rightarrow> 'a fb_state_scheme \<Rightarrow> 'a fb_state_scheme" where
  "fb_put_pixel x y color s =
     (if screen_w s \<le> x \<or> screen_h s \<le> y then s
      else s\<lparr>ram := store32 (pixel_addr s x y) color (ram s)\<rparr>)"

definition for_range :: "u64 \<Rightarrow> u64 \<Rightarrow> (u64 \<Rightarrow> 's \<Rightarrow> 's) \<Rightarrow> 's \<Rightarrow> 's" where
  "for_range a b body s = fold (\<lambda>i. body (of_nat i)) [unat a..<unat b] s"

definition fb_clear :: "u32 \<Rightarrow> 'a fb_state_scheme \<Rightarrow> 'a fb_state_scheme" where
  "fb_clear color s =
     (if use_double_buffer s \<and> back_buffer s \<noteq> 0 then
        s\<lparr>ram := snd (memset (back_buffer s) color (screen_h s * fb_pitch_val s) (ram s))\<rparr>
      else for_range 0 (screen_h s) (\<lambda>y. for_range 0 (screen_w s) (\<lambda>x. fb_put_pixel x y color)) s)"

definition glyph_index :: "u8 \<Rightarrow> nat" where
  "glyph_index c = unat (if c < 32 \<or> 126 < c then 63 else c) - 32"

definition glyph_bit :: "u8 \<Rightarrow> nat \<Rightarrow> nat \<Rightarrow> bool" where
  "glyph_bit c row col = (font ! glyph_index c ! row AND push_bit col 1 \<noteq> 0)"

definition fb_draw_char ::
  "u8 \<Rightarrow> u64 \<Rightarrow> u64 \<Rightarrow> u32 \<Rightarrow> u32 \<Rightarrow> 'a fb_state_scheme \<Rightarrow> 'a fb_state_scheme" where
  "fb_draw_char c x y fg bg s =
     fold (\<lambda>row. fold (\<lambda>col.
         fb_put_pixel (x + of_nat col) (y + of_nat row) (if glyph_bit c row col then fg else bg))
       [0..<8]) [0..<8] s"

fun fb_draw_string ::
  "u8 list \<Rightarrow> u64 \<Rightarrow> u64 \<Rightarrow> u32 \<Rightarrow> u32 \<Rightarrow> 'a fb_state_scheme \<Rightarrow> 'a fb_state_scheme" where
  "fb_draw_string [] x y fg bg s = s"
| "fb_draw_string (c # cs) x y fg bg s = fb_draw_string cs (x + 8) y fg bg (fb_draw_char c x y fg bg s)"

definition hsv_to_rgb :: "u32 \<Rightarrow> u8 \<times> u8 \<times> u8" where
  "hsv_to_rgb h =
     (let region = h div 43;
          remainder = (h - region * 43) * 6;
          p = drop_bit 8 (255 * (255 - remainder));
          q = drop_bit 8 (255 * (255 - ((255 - remainder) * (43 - (h mod 43))) div 43));
          t = 255 - p
      in if region = 0 then (255, ucast p, ucast t)
         else if region = 1 then (ucast q, 255, ucast t)
         else if region = 2 then (ucast t, 255, ucast p)
         else if region = 3 then (ucast t, ucast q, 255)
         else if region = 4 then (ucast p, ucast t, 255)
         else (255, ucast t, ucast q))"

definition bar_ratio :: "'a fb_state_scheme \<Rightarrow> u64 \<Rightarrow> u64" where
  "bar_ratio s x = (x * 255) div (if screen_w s \<noteq> 0 then screen_w s else 1)"

definition fb_draw_color_bar :: "u64 \<Rightarrow> u64 \<Rightarrow> 'a fb_state_scheme \<Rightarrow> 'a fb_state_scheme" where
  "fb_draw_color_bar y height s =
     (if height = 0 then s
      else let bar_bottom = (if screen_h s < y + height then screen_h s else y + height);
               third = (if height div 3 = 0 then 1 else height div 3);
               s = for_range y (min (y + third) bar_bottom) (\<lambda>row s.
                     for_range 0 (screen_w s) (\<lambda>x s.
                       let r = ucast (bar_ratio s x) :: u8; g = 255 - r
                       in fb_put_pixel x row (fb_rgb s r g 0) s) s) s;
               mid_start = y + third;
               s = for_range mid_start (min (mid_start + third) bar_bottom) (\<lambda>row s.
                     for_range 0 (screen_w s) (\<lambda>x s.
                       let g = ucast (bar_ratio s x) :: u8; b = 255 - g
                       in fb_put_pixel x row (fb_rgb s 0 g b) s) s) s;
               hue_start = mid_start + third
           in for_range hue_start bar_bottom (\<lambda>row s.
                for_range 0 (screen_w s) (\<lambda>x s.
                  let (r, g, b) = hsv_to_rgb (ucast (bar_ratio s x))
                  in fb_put_pixel x row (fb_rgb s r g b) s) s) s)"

text \<open>The circle's loops run over signed numbers; the squares are taken without overflow.\<close>

definition fb_draw_filled_circle :: "u64 \<Rightarrow> u64 \<Rightarrow> u64 \<Rightarrow> 'a fb_state_scheme \<Rightarrow> 'a fb_state_scheme option" where
  "fb_draw_filled_circle x0 y0 radius s =
     (let r = sint radius in
      if radius = 0 then None
      else Some (fold (\<lambda>y. fold (\<lambda>x s.
          if x * x + y * y \<le> r * r then
            let hue = ucast (word_of_int ((x + r) * 255) div (2 * radius)) :: u32;
                (cr, cg, cb) = hsv_to_rgb hue
            in fb_put_pixel (x0 + word_of_int x) (y0 + word_of_int y) (fb_rgb s cr cg cb) s
          else s) [- r..r]) [- r..r] s))"

definition fb_enable_double_buffering :: "'a fb_state_scheme \<Rightarrow> 'a fb_state_scheme" where
  "fb_enable_double_buffering s =
     (let (p, s) = mem_alloc (screen_h s * fb_pitch_val s) s;
          s = s\<lparr>back_buffer := p\<rparr>
      in if back_buffer s \<noteq> 0 then s\<lparr>use_double_buffer := True\<rparr>
         else fb_draw_string (asc ''WARN: double buffer alloc failed'') 32 32 FB_COLOR_RED FB_COLOR_BLACK s)"

definition fb_swap_buffers :: "'a fb_state_scheme \<Rightarrow> 'a fb_state_scheme" where
  "fb_swap_buffers s =
     (if use_double_buffer s \<and> back_buffer s \<noteq> 0 then
        for_range 0 (screen_h s) (\<lambda>y s.
          s\<lparr>ram := snd (memcpy (fb s + y * fb_pitch_val s) (back_buffer s + y * fb_pitch_val s)
                     (screen_w s * 4) (ram s))\<rparr>) s
      else s)"

definition fb_is_double_buffered :: "'a fb_state_scheme \<Rightarrow> bool" where
  "fb_is_double_buffered s = use_double_buffer s"

subsection \<open>The interface of the drawing routines\<close>

text \<open>
  A canvas holds a colour at each visible point; putting a pixel changes that one point, and
  nothing when the point is not visible. What text and shapes look like follows from it.
\<close>

locale canvas =
  fixes put :: "u64 \<Rightarrow> u64 \<Rightarrow> u32 \<Rightarrow> 's \<Rightarrow> 's"
    and get :: "'s \<Rightarrow> u64 \<Rightarrow> u64 \<Rightarrow> u32"
    and visible :: "'s \<Rightarrow> u64 \<Rightarrow> u64 \<Rightarrow> bool"
    and invar :: "'s \<Rightarrow> bool"
  assumes put_invar: "invar s \<Longrightarrow> invar (put x y c s)"
    and put_visible: "visible (put x y c s) = visible s"
    and put_hidden: "\<not> visible s x y \<Longrightarrow> put x y c s = s"
    and get_put: "invar s \<Longrightarrow> visible s x y \<Longrightarrow> visible s x' y' \<Longrightarrow>
      get (put x y c s) x' y' = (if x = x' \<and> y = y' then c else get s x' y')"
begin

definition put_all :: "(u64 \<times> u64 \<times> u32) list \<Rightarrow> 's \<Rightarrow> 's" where
  "put_all ps s = fold (\<lambda>(x, y, c). put x y c) ps s"

lemma put_all_simps [simp]:
  "put_all [] s = s" "put_all ((x, y, c) # ps) s = put_all ps (put x y c s)"
  by (simp_all add: put_all_def)

lemma put_all_visible: "visible (put_all ps s) = visible s"
  by (induction ps arbitrary: s) (auto simp: put_visible)

lemma put_all_invar: "invar s \<Longrightarrow> invar (put_all ps s)"
  by (induction ps arbitrary: s) (auto simp: put_invar)

lemma get_put': "invar s \<Longrightarrow> visible s x' y' \<Longrightarrow>
  get (put x y c s) x' y' = (if x = x' \<and> y = y' then c else get s x' y')"
  by (cases "visible s x y") (auto simp: get_put put_hidden)

lemma get_put_all_other:
  "invar s \<Longrightarrow> visible s x y \<Longrightarrow> \<forall>(a, b, c) \<in> set ps. \<not> (a = x \<and> b = y) \<Longrightarrow>
   get (put_all ps s) x y = get s x y"
  by (induction ps arbitrary: s) (auto simp: put_invar put_visible get_put')

text \<open>When a point is put at most once, it has the colour it was given.\<close>

lemma get_put_all:
  assumes "invar s" "visible s x y" "(x, y, c) \<in> set ps"
    and "distinct (map (\<lambda>(a, b, c). (a, b)) ps)"
  shows "get (put_all ps s) x y = c"
  using assms
proof (induction ps arbitrary: s)
  case (Cons p ps)
  obtain a b d where p: "p = (a, b, d)" by (cases p)
  show ?case
  proof (cases "(x, y, c) = p")
    case True
    then have "\<forall>(a, b, c) \<in> set ps. \<not> (a = x \<and> b = y)" using Cons.prems(4) by force
    then show ?thesis using True Cons.prems p
      by (auto simp: get_put_all_other put_invar put_visible get_put')
  next
    case False
    then show ?thesis using Cons p by (auto simp: put_invar put_visible)
  qed
qed simp

end

subsection \<open>The framebuffer is a canvas\<close>

definition fb_ok :: "'a fb_state_scheme \<Rightarrow> bool" where
  "fb_ok s \<longleftrightarrow> 4 * unat (screen_w s) \<le> unat (fb_pitch_val s) \<and>
     unat (fb_target s) + unat (screen_h s) * unat (fb_pitch_val s) \<le> 2 ^ 64"

definition fb_visible :: "'a fb_state_scheme \<Rightarrow> u64 \<Rightarrow> u64 \<Rightarrow> bool" where
  "fb_visible s x y \<longleftrightarrow> x < screen_w s \<and> y < screen_h s"

definition fb_get_pixel :: "'a fb_state_scheme \<Rightarrow> u64 \<Rightarrow> u64 \<Rightarrow> u32" where
  "fb_get_pixel s x y = load32 (ram s) (pixel_addr s x y)"

lemma fb_put_pixel_simps [simp]:
  "screen_w (fb_put_pixel x y c s) = screen_w s" "screen_h (fb_put_pixel x y c s) = screen_h s"
  "fb_pitch_val (fb_put_pixel x y c s) = fb_pitch_val s" "fb_target (fb_put_pixel x y c s) = fb_target s"
  "fb_format (fb_put_pixel x y c s) = fb_format s" "fb (fb_put_pixel x y c s) = fb s"
  "io_trace (fb_put_pixel x y c s) = io_trace s"
  by (simp_all add: fb_put_pixel_def fb_target_def)

lemma row_bound:
  fixes x w y h p :: nat
  assumes "x < w" "y < h" "4 * w \<le> p"
  shows "y * p + x * 4 + 4 \<le> (y + 1) * p" "(y + 1) * p \<le> h * p"
proof -
  show "y * p + x * 4 + 4 \<le> (y + 1) * p" using assms(1,3) by simp
  show "(y + 1) * p \<le> h * p" using assms(2) by (intro mult_right_mono) simp_all
qed

lemma unat_pixel_addr:
  assumes "fb_ok s" "fb_visible s x y"
  defines "a \<equiv> unat y * unat (fb_pitch_val s) + unat x * 4"
  shows "unat (pixel_addr s x y) = unat (fb_target s) + a"
    "a + 4 \<le> unat (screen_h s) * unat (fb_pitch_val s)"
proof -
  let ?p = "unat (fb_pitch_val s)"
  have lt: "unat x < unat (screen_w s)" "unat y < unat (screen_h s)" "4 * unat (screen_w s) \<le> ?p"
    using assms(1,2) by (simp_all add: fb_ok_def fb_visible_def word_less_nat_alt)
  show b: "a + 4 \<le> unat (screen_h s) * ?p" using row_bound [OF lt] by (simp add: a_def)
  then have t: "unat (fb_target s) + a < 2 ^ 64" using assms(1) by (simp add: fb_ok_def)
  have "unat (y * fb_pitch_val s) = unat y * ?p"
    using t by (subst unat_mult_lem [THEN iffD1]) (simp_all add: a_def)
  moreover have "unat (x * 4) = unat x * 4"
    using t by (subst unat_mult_lem [THEN iffD1]) (simp_all add: a_def)
  ultimately show "unat (pixel_addr s x y) = unat (fb_target s) + a"
    using t by (simp add: pixel_addr_def a_def unat_word_ariths)
qed

lemma pixels_disjoint:
  assumes "fb_ok s" "fb_visible s x y" "fb_visible s x' y'" "\<not> (x = x' \<and> y = y')"
  shows "disj_range (pixel_addr s x y) 4 (pixel_addr s x' y') 4"
proof -
  let ?p = "unat (fb_pitch_val s)"
  have lt: "unat x < unat (screen_w s)" "unat y < unat (screen_h s)"
    "unat x' < unat (screen_w s)" "unat y' < unat (screen_h s)" "4 * unat (screen_w s) \<le> ?p"
    using assms(1-3) by (simp_all add: fb_ok_def fb_visible_def word_less_nat_alt)
  note u = unat_pixel_addr [OF assms(1,2)] unat_pixel_addr [OF assms(1,3)]
  have top: "unat (fb_target s) + unat (screen_h s) * ?p \<le> 2 ^ 64" using assms(1) by (simp add: fb_ok_def)
  have rows: "(j + 1) * ?p \<le> k * ?p" if "j < k" for j k
    using that by (intro mult_right_mono) simp_all
  consider "unat y < unat y'" | "unat y' < unat y" | "y = y'" "unat x < unat x'" | "y = y'" "unat x' < unat x"
    using assms(4) by (metis linorder_neqE_nat word_unat_eq_iff)
  then show ?thesis
  proof cases
    case 1
    then show ?thesis using rows [OF 1] row_bound(1) [OF lt(1,2,5)] u top by (intro disj_rangeI) simp_all
  next
    case 2
    then show ?thesis using rows [OF 2] row_bound(1) [OF lt(3,4,5)] u top by (intro disj_rangeI2) simp_all
  next
    case 3
    then show ?thesis using u top by (intro disj_rangeI) simp_all
  next
    case 4
    then show ?thesis using u top by (intro disj_rangeI2) simp_all
  qed
qed

interpretation screen: canvas fb_put_pixel fb_get_pixel fb_visible fb_ok
proof (unfold_locales, goal_cases)
  case (1 s x y c)
  then show ?case by (simp add: fb_ok_def)
next
  case (2 x y c s)
  show ?case by (intro ext) (simp add: fb_visible_def)
next
  case (3 s x y c)
  then show ?case by (auto simp: fb_put_pixel_def fb_visible_def not_less)
next
  case (4 s x y x' y' c)
  have a: "pixel_addr (fb_put_pixel x y c s) x' y' = pixel_addr s x' y'" by (simp add: pixel_addr_def)
  have r: "ram (fb_put_pixel x y c s) = store32 (pixel_addr s x y) c (ram s)"
  proof -
    have "\<not> screen_w s \<le> x" "\<not> screen_h s \<le> y" using 4(2) by (auto simp: fb_visible_def)
    then show ?thesis by (simp add: fb_put_pixel_def)
  qed
  show ?case
  proof (cases "x = x' \<and> y = y'")
    case True
    then show ?thesis unfolding fb_get_pixel_def a r by simp
  next
    case False
    have "load32 (ram (fb_put_pixel x y c s)) (pixel_addr s x' y') = load32 (ram s) (pixel_addr s x' y')"
      unfolding r by (rule load32_store32_disj) (rule pixels_disjoint [OF 4(1-3) False])
    then show ?thesis unfolding fb_get_pixel_def a using False by auto
  qed
qed

subsection \<open>Characters\<close>

definition char_pixels :: "u8 \<Rightarrow> u64 \<Rightarrow> u64 \<Rightarrow> u32 \<Rightarrow> u32 \<Rightarrow> (u64 \<times> u64 \<times> u32) list" where
  "char_pixels c x y fg bg = concat (map (\<lambda>row. map (\<lambda>col.
     (x + of_nat col, y + of_nat row, if glyph_bit c row col then fg else bg)) [0..<8]) [0..<8])"

lemma put_all_rows:
  "screen.put_all (concat (map (\<lambda>i. map (\<lambda>j. (f i j, g i j, h i j)) js) is)) s =
   fold (\<lambda>i. fold (\<lambda>j. fb_put_pixel (f i j) (g i j) (h i j)) js) is s"
  by (induction "is" arbitrary: s) (simp_all add: screen.put_all_def fold_map comp_def)

lemma fb_draw_char_put_all: "fb_draw_char c x y fg bg s = screen.put_all (char_pixels c x y fg bg) s"
  unfolding char_pixels_def put_all_rows fb_draw_char_def ..

lemma distinct_grid:
  assumes "inj_on f (set is)" "inj_on g (set js)" "distinct is" "distinct js"
  shows "distinct (concat (map (\<lambda>i. map (\<lambda>j. (g j, f i)) js) is))"
  using assms
proof (induction "is")
  case (Cons i "is")
  then have "f i \<notin> f ` set is" by auto
  then show ?case using Cons by (auto simp: distinct_map inj_on_def)
qed simp

lemma offset_inj: "inj_on (\<lambda>k. x + of_nat k :: u64) (set [0..<8])"
  by (intro inj_onI) (simp add: of_nat_neq_u64)

lemma char_pixels_distinct: "distinct (map (\<lambda>(a, b, c). (a, b)) (char_pixels c x y fg bg))"
  using distinct_grid [OF offset_inj [of y] offset_inj [of x]]
  by (simp add: char_pixels_def map_concat comp_def del: upt_rec_numeral)

lemma fb_draw_char_pixel:
  assumes "fb_ok s" "row < 8" "col < 8" "fb_visible s (x + of_nat col) (y + of_nat row)"
  shows "fb_get_pixel (fb_draw_char c x y fg bg s) (x + of_nat col) (y + of_nat row) =
    (if glyph_bit c row col then fg else bg)"
  unfolding fb_draw_char_put_all
proof (rule screen.get_put_all [OF assms(1,4) _ char_pixels_distinct])
  show "(x + of_nat col, y + of_nat row, if glyph_bit c row col then fg else bg) \<in>
      set (char_pixels c x y fg bg)"
    unfolding char_pixels_def set_concat set_map set_upt image_image
    by (rule UN_I [of row]) (use assms(2,3) in \<open>auto intro!: image_eqI [of _ _ col]\<close>)
qed

lemma fb_draw_char_other:
  assumes "fb_ok s" "fb_visible s a b" "8 \<le> unat (a - x) \<or> 8 \<le> unat (b - y)"
  shows "fb_get_pixel (fb_draw_char c x y fg bg s) a b = fb_get_pixel s a b"
  unfolding fb_draw_char_put_all
proof (rule screen.get_put_all_other [OF assms(1,2)])
  have "unat (of_nat k :: u64) < 8" if "k < 8" for k
    using that by (subst unat_of_nat_u64) simp_all
  then show "\<forall>(x', y', c) \<in> set (char_pixels c x y fg bg). \<not> (x' = a \<and> y' = b)"
    using assms(3) by (fastforce simp: char_pixels_def simp del: upt_rec_numeral)
qed

subsection \<open>Drawing stays inside the buffer\<close>

text \<open>Whatever the geometry, drawing changes memory only.\<close>

lemma put_pixel_ram: "\<exists>m. t = s\<lparr>ram := m\<rparr> \<Longrightarrow> \<exists>m. fb_put_pixel x y c t = s\<lparr>ram := m\<rparr>"
  by (auto simp: fb_put_pixel_def)

lemma draw_char_ram: "\<exists>m. t = s\<lparr>ram := m\<rparr> \<Longrightarrow> \<exists>m. fb_draw_char c x y fg bg t = s\<lparr>ram := m\<rparr>"
  unfolding fb_draw_char_def
  by (rule fold_keeps, assumption, rule fold_keeps, assumption, rule put_pixel_ram)

lemma draw_string_ram_ex: "\<exists>m. t = s\<lparr>ram := m\<rparr> \<Longrightarrow> \<exists>m. fb_draw_string cs x y fg bg t = s\<lparr>ram := m\<rparr>"
proof (induction cs arbitrary: t x)
  case (Cons c cs)
  show ?case using Cons.IH [OF draw_char_ram [OF Cons.prems]] by simp
qed simp

lemma draw_string_ram: "\<exists>m. fb_draw_string cs x y fg bg s = s\<lparr>ram := m\<rparr>"
  by (rule draw_string_ram_ex) (intro exI [of _ "ram s"], simp)

lemma draw_string_trace [simp]: "io_trace (fb_draw_string cs x y fg bg s) = io_trace s"
  using draw_string_ram [of cs x y fg bg s] by auto

text \<open>\<open>t\<close> is \<open>s\<close> with some bytes of the current buffer changed, and nothing else.\<close>

definition fb_draws :: "'a fb_state_scheme \<Rightarrow> 'a fb_state_scheme \<Rightarrow> bool" where
  "fb_draws s t \<longleftrightarrow> t = s\<lparr>ram := ram t\<rparr> \<and>
     (\<forall>a. unat (screen_h s) * unat (fb_pitch_val s) \<le> unat (a - fb_target s) \<longrightarrow> ram t a = ram s a)"

lemma fb_draws_refl [simp]: "fb_draws s s"
  by (simp add: fb_draws_def)

lemma fb_draws_put:
  assumes "fb_ok s" "fb_draws s u"
  shows "fb_draws s (fb_put_pixel x y c u)"
proof -
  have u: "u = s\<lparr>ram := ram u\<rparr>" using assms(2) by (simp add: fb_draws_def)
  have g: "screen_w u = screen_w s" "screen_h u = screen_h s" "pixel_addr u = pixel_addr s"
    by (subst u, simp add: pixel_addr_def fb_target_def fun_eq_iff)+
  show ?thesis
  proof (cases "fb_visible s x y")
    case True
    note a = unat_pixel_addr [OF assms(1) True]
    have out: "ram (fb_put_pixel x y c u) b = ram u b"
      if "unat (screen_h s) * unat (fb_pitch_val s) \<le> unat (b - fb_target s)" for b
    proof -
      have "\<not> unat (b - pixel_addr s x y) < 4"
      proof
        let ?o = "unat y * unat (fb_pitch_val s) + unat x * 4"
        assume "unat (b - pixel_addr s x y) < 4"
        moreover have "pixel_addr s x y = fb_target s + of_nat ?o" by (simp add: pixel_addr_def add.assoc)
        moreover have "?o + 4 \<le> 2 ^ 64" using a(2) assms(1) by (simp add: fb_ok_def)
        ultimately show False using unat_sub_shift(1) [of ?o 4 b "fb_target s"] a(2) that by simp
      qed
      then show ?thesis using True by (simp add: fb_put_pixel_def g fb_visible_def store32_apply)
    qed
    moreover have "fb_put_pixel x y c u = s\<lparr>ram := ram (fb_put_pixel x y c u)\<rparr>"
      by (subst (1 2) u) (simp add: fb_put_pixel_def)
    ultimately show ?thesis using assms(2) by (simp add: fb_draws_def)
  next
    case False
    then show ?thesis using assms(2) by (auto simp: fb_put_pixel_def g fb_visible_def not_less)
  qed
qed

lemma fb_draws_fold:
  assumes "\<And>i u. fb_draws s u \<Longrightarrow> fb_draws s (f i u)" "fb_draws s u"
  shows "fb_draws s (fold f is u)"
  using assms(2) by (induction "is" arbitrary: u) (simp_all add: assms(1))

lemma fb_draws_range:
  "(\<And>i u. fb_draws s u \<Longrightarrow> fb_draws s (f i u)) \<Longrightarrow> fb_draws s u \<Longrightarrow> fb_draws s (for_range a b f u)"
  unfolding for_range_def by (rule fb_draws_fold)

lemma fb_draws_char: "fb_ok s \<Longrightarrow> fb_draws s u \<Longrightarrow> fb_draws s (fb_draw_char c x y fg bg u)"
  unfolding fb_draw_char_def by (intro fb_draws_fold fb_draws_put)

lemma fb_draws_string: "fb_ok s \<Longrightarrow> fb_draws s u \<Longrightarrow> fb_draws s (fb_draw_string cs x y fg bg u)"
  by (induction cs arbitrary: x u) (simp_all add: fb_draws_char)

lemma fb_draws_color_bar: "fb_ok s \<Longrightarrow> fb_draws s s \<Longrightarrow> fb_draws s (fb_draw_color_bar y height s)"
  unfolding fb_draw_color_bar_def Let_def
  by (auto intro!: fb_draws_range fb_draws_put simp: split_beta)

lemma fb_draws_circle:
  "fb_ok s \<Longrightarrow> fb_draw_filled_circle x0 y0 radius s = Some t \<Longrightarrow> fb_draws s t"
  unfolding fb_draw_filled_circle_def Let_def
  by (auto intro!: fb_draws_fold fb_draws_put simp: split_beta split: if_splits)

lemma fb_draws_clear:
  assumes "fb_ok s" "use_double_buffer s \<longrightarrow> back_buffer s \<noteq> 0"
  shows "fb_draws s (fb_clear c s)"
proof (cases "use_double_buffer s")
  case True
  then have b: "back_buffer s \<noteq> 0" "fb_target s = back_buffer s"
    using assms(2) by (simp_all add: fb_target_def)
  then have "0 < unat (back_buffer s)" by (simp add: unat_gt_0)
  then have "unat (screen_h s) * unat (fb_pitch_val s) < 2 ^ 64"
    using assms(1) b(2) by (simp add: fb_ok_def)
  then have "unat (screen_h s * fb_pitch_val s) = unat (screen_h s) * unat (fb_pitch_val s)"
    by (subst unat_mult_lem [THEN iffD1]) simp_all
  then show ?thesis using True b unat_u64_bound [of "screen_h s * fb_pitch_val s"]
    by (simp add: fb_draws_def fb_clear_def memset_set_bytes set_bytes_apply)
next
  case False
  then show ?thesis unfolding fb_clear_def using assms(1)
    by (auto intro!: fb_draws_range fb_draws_put)
qed

subsection \<open>Clearing and swapping\<close>

lemma of_nat_inj_word: "inj_on (of_nat :: nat \<Rightarrow> u64) (set [0..<unat (n :: u64)])"
  using unat_u64_bound [of n] by (intro inj_onI) (simp add: of_nat_neq_u64)

definition screen_points :: "u64 \<Rightarrow> u64 \<Rightarrow> u32 \<Rightarrow> (u64 \<times> u64 \<times> u32) list" where
  "screen_points w h c = concat (map (\<lambda>i. map (\<lambda>j. (of_nat j, of_nat i, c)) [0..<unat w]) [0..<unat h])"

lemma fb_clear_put_all:
  "\<not> use_double_buffer s \<Longrightarrow> fb_clear c s = screen.put_all (screen_points (screen_w s) (screen_h s) c) s"
  by (simp add: fb_clear_def screen_points_def put_all_rows for_range_def [abs_def])

lemma screen_points_distinct: "distinct (map (\<lambda>(a, b, c). (a, b)) (screen_points w h c))"
  using distinct_grid [OF of_nat_inj_word [of h] of_nat_inj_word [of w]]
  by (simp add: screen_points_def map_concat comp_def)

lemma screen_points_mem: "x < w \<Longrightarrow> y < h \<Longrightarrow> (x, y, c) \<in> set (screen_points w h c)"
  unfolding screen_points_def set_concat set_map set_upt image_image
  by (rule UN_I [of "unat y"]) (auto intro!: image_eqI [of _ _ "unat x"] simp: word_less_nat_alt)

lemma fb_clear_pixel:
  assumes "fb_ok s" "\<not> use_double_buffer s" "fb_visible s x y"
  shows "fb_get_pixel (fb_clear c s) x y = c"
  unfolding fb_clear_put_all [OF assms(2)]
  by (rule screen.get_put_all [OF assms(1,3) _ screen_points_distinct])
    (use assms(3) in \<open>simp add: fb_visible_def screen_points_mem\<close>)

lemma fb_clear_double_pixel:
  assumes "fb_ok s" "use_double_buffer s" "back_buffer s \<noteq> 0" "fb_visible s x y"
  shows "fb_get_pixel (fb_clear c s) x y = le_word (replicate 4 (ucast c))"
proof -
  let ?t = "fb_clear c s" and ?N = "unat (screen_h s) * unat (fb_pitch_val s)"
  have tgt: "fb_target s = back_buffer s" using assms(2) by (simp add: fb_target_def)
  have "0 < unat (back_buffer s)" using assms(3) by (simp add: unat_gt_0)
  then have "?N < 2 ^ 64" using assms(1) tgt by (simp add: fb_ok_def)
  then have n: "unat (screen_h s * fb_pitch_val s) = ?N"
    by (subst unat_mult_lem [THEN iffD1]) simp_all
  have r: "ram ?t = (\<lambda>a. if unat (a - back_buffer s) < ?N then ucast c else ram s a)"
    using assms(2,3) \<open>?N < 2 ^ 64\<close> by (simp add: fb_clear_def memset_set_bytes n set_bytes_apply fun_eq_iff)
  have pa: "pixel_addr ?t x y = pixel_addr s x y"
    using assms(2,3) by (simp add: fb_clear_def pixel_addr_def fb_target_def)
  note u = unat_pixel_addr [OF assms(1,4)]
  let ?o = "unat y * unat (fb_pitch_val s) + unat x * 4"
  have "unat (pixel_addr s x y + of_nat i - back_buffer s) < ?N" if "i < 4" for i
  proof -
    have "pixel_addr s x y + of_nat i - back_buffer s = of_nat (?o + i)"
      by (simp add: pixel_addr_def tgt)
    moreover have "?o + i < 2 ^ 64" using u(2) \<open>?N < 2 ^ 64\<close> that by simp
    ultimately show ?thesis using u(2) that by (simp only: unat_of_nat_u64)
  qed
  then have "load_bytes 4 (pixel_addr s x y) (ram ?t) = replicate 4 (ucast c)"
    by (intro nth_equalityI) (simp_all add: nth_load_bytes r del: upt_rec_numeral)
  then show ?thesis by (simp only: fb_get_pixel_def pa load32_def)
qed

text \<open>Offset \<open>k\<close> of the front buffer lies in the visible part of one of the first \<open>j\<close> rows.\<close>

definition in_rows :: "nat \<Rightarrow> nat \<Rightarrow> nat \<Rightarrow> nat \<Rightarrow> bool" where
  "in_rows j p n k \<longleftrightarrow> k div p < j \<and> k mod p < n"

lemma in_rows_Suc:
  assumes "n \<le> p"
  shows "in_rows (Suc j) p n k \<longleftrightarrow> in_rows j p n k \<or> (j * p \<le> k \<and> k < j * p + n)"
proof (cases "p = 0")
  case True
  then show ?thesis using assms by (simp add: in_rows_def)
next
  case False
  have k: "k = k div p * p + k mod p" "k mod p < p" using False by simp_all
  have "k div p = j \<and> k mod p < n \<longleftrightarrow> j * p \<le> k \<and> k < j * p + n"
  proof
    assume "k div p = j \<and> k mod p < n"
    then show "j * p \<le> k \<and> k < j * p + n" using k(1) by auto
  next
    assume a: "j * p \<le> k \<and> k < j * p + n"
    then have "k div p = j" using assms False by (intro div_nat_eqI) (auto simp: mult.commute)
    then show "k div p = j \<and> k mod p < n" using a k(1) by auto
  qed
  then show ?thesis by (auto simp: in_rows_def less_Suc_eq)
qed

definition copy_row :: "u64 \<Rightarrow> u64 \<Rightarrow> u64 \<Rightarrow> u64 \<Rightarrow> nat \<Rightarrow> ram \<Rightarrow> ram" where
  "copy_row d s p n y m = snd (memcpy (d + of_nat y * p) (s + of_nat y * p) n m)"

lemma copy_rows:
  fixes d s p n :: u64
  assumes "unat n \<le> unat p" "disj_range d (h * unat p) s (h * unat p)" "h * unat p < 2 ^ 64" "j \<le> h"
  shows "fold (copy_row d s p n) [0..<j] m a =
    (if in_rows j (unat p) (unat n) (unat (a - d)) then m (s + (a - d)) else m a)"
  using assms(4)
proof (induction j arbitrary: a)
  case 0
  then show ?case by (simp add: in_rows_def)
next
  case (Suc j)
  let ?p = "unat p" and ?n = "unat n"
  let ?m = "fold (copy_row d s p n) [0..<j] m"
  have IH: "?m a = (if in_rows j ?p ?n (unat (a - d)) then m (s + (a - d)) else m a)" for a
    using Suc by simp
  have jp: "j * ?p + ?n \<le> h * ?p"
  proof -
    have "(j + 1) * ?p \<le> h * ?p" using Suc.prems by (intro mult_right_mono) simp_all
    then show ?thesis using assms(1) by simp
  qed
  have off: "of_nat j * p = of_nat (j * ?p)" by simp
  have row: "unat (a - (d + of_nat j * p)) < ?n \<longleftrightarrow> j * ?p \<le> unat (a - d) \<and> unat (a - d) < j * ?p + ?n" for a
    unfolding off using jp assms(3) by (intro unat_sub_shift(1)) simp_all
  have src: "?m (s + (a - d)) = m (s + (a - d))" if "unat (a - d) < h * ?p" for a
  proof -
    have "h * ?p \<le> unat (s + of_nat (unat (a - d)) - d)"
      using assms(2) that by (rule disj_range_offset)
    then have k: "h * ?p \<le> unat (s + (a - d) - d)" by simp
    have "\<not> in_rows j ?p ?n (unat (s + (a - d) - d))"
    proof (cases "?p = 0")
      case True
      then show ?thesis using assms(1) by (simp add: in_rows_def)
    next
      case False
      then have "h \<le> unat (s + (a - d) - d) div ?p" using k by (simp add: less_eq_div_iff_mult_less_eq)
      then show ?thesis using Suc.prems unfolding in_rows_def by simp
    qed
    then show ?thesis by (simp add: IH)
  qed
  have dr: "disj_range (d + of_nat j * p) ?n (s + of_nat j * p) ?n"
  proof (cases "?n = 0")
    case True
    then show ?thesis by (simp add: disj_range_def)
  next
    case False
    have e: "s + of_nat j * p - (d + of_nat j * p) = s - d" "d + of_nat j * p - (s + of_nat j * p) = d - s"
      by simp_all
    show ?thesis using assms(2) jp unfolding disj_range_def e by simp
  qed
  have "fold (copy_row d s p n) [0..<Suc j] m a = copy_row d s p n j ?m a" by simp
  also have "\<dots> = (if unat (a - (d + of_nat j * p)) < ?n then ?m (s + (a - d)) else ?m a)"
    using copy_bytes_apply [OF _ dr, of ?m a] unat_u64_bound [of n]
    by (simp add: copy_row_def memcpy_copy_bytes algebra_simps)
  also have "\<dots> = (if in_rows (Suc j) ?p ?n (unat (a - d)) then m (s + (a - d)) else m a)"
    using src [of a] jp by (auto simp: row in_rows_Suc [OF assms(1)] IH)
  finally show ?case .
qed

lemma fb_swap_fold:
  assumes "use_double_buffer s" "back_buffer s \<noteq> 0"
  shows "fb_swap_buffers s = s\<lparr>ram := fold (copy_row (fb s) (back_buffer s) (fb_pitch_val s) (screen_w s * 4))
    [0..<unat (screen_h s)] (ram s)\<rparr>"
proof -
  have "fold (\<lambda>i s. s\<lparr>ram := snd (memcpy (fb s + of_nat i * fb_pitch_val s)
      (back_buffer s + of_nat i * fb_pitch_val s) (screen_w s * 4) (ram s))\<rparr>) [0..<k] s =
    s\<lparr>ram := fold (copy_row (fb s) (back_buffer s) (fb_pitch_val s) (screen_w s * 4)) [0..<k] (ram s)\<rparr>" for k
    by (induction k) (simp_all add: copy_row_def)
  then show ?thesis using assms by (simp add: fb_swap_buffers_def for_range_def)
qed

lemma fb_swap_ram:
  assumes "use_double_buffer s" "back_buffer s \<noteq> 0" "fb_ok s"
    and "disj_range (fb s) (unat (screen_h s) * unat (fb_pitch_val s))
      (back_buffer s) (unat (screen_h s) * unat (fb_pitch_val s))"
  shows "ram (fb_swap_buffers s) a =
    (let k = unat (a - fb s); p = unat (fb_pitch_val s)
     in if k div p < unat (screen_h s) \<and> k mod p < 4 * unat (screen_w s)
        then ram s (back_buffer s + (a - fb s)) else ram s a)"
proof -
  define p where "p = unat (fb_pitch_val s)"
  have w: "4 * unat (screen_w s) \<le> p" using assms(3) by (simp add: fb_ok_def p_def)
  then have n: "unat (screen_w s * 4) = 4 * unat (screen_w s)"
    using unat_u64_bound [of "fb_pitch_val s"] by (subst unat_mult_lem [THEN iffD1]) (simp_all add: p_def)
  have "0 < unat (back_buffer s)" using assms(2) by (simp add: unat_gt_0)
  then have "unat (screen_h s) * p < 2 ^ 64"
    using assms(1,3) by (simp add: fb_ok_def fb_target_def p_def)
  then show ?thesis
    using copy_rows [of "screen_w s * 4" "fb_pitch_val s" "fb s" "unat (screen_h s)" "back_buffer s"
        "unat (screen_h s)" "ram s" a] assms(4) w
    by (simp add: fb_swap_fold [OF assms(1,2)] n in_rows_def p_def Let_def)
qed

subsection \<open>Properties\<close>

text \<open>A 16 by 16 screen at 0x100000 with a back buffer at 0x200000, for the witnesses.\<close>

definition sample_fb :: "bool \<Rightarrow> fb_state" where
  "sample_fb dbl =
     \<lparr>ram = \<lambda>a. ucast a, io_trace = [], timer_ticks = 0, system_uptime_seconds = 0,
      shift_pressed = 0, caps_lock = 0, pmm_bitmap = sample_bitmap, total_frames = MAX_FRAMES,
      pml4 = 0x1000, tlb_flushes = [], vma_list = None, next_vaddr = 0x10000000,
      vma_nodes = \<lambda>_. \<lparr>vma_vaddr = 0, vma_size = 0, vma_next = None\<rparr>, vma_count = 0,
      total_ram_bytes = 0, proc_table = [], last_time = 0,
      fb = 0x100000, back_buffer = 0x200000, screen_w = 16, screen_h = 16, fb_pitch_val = 64,
      fb_format = 1, use_double_buffer = dbl\<rparr>"

lemma sample_fb_ok: "fb_ok (sample_fb dbl)"
  by (simp add: fb_ok_def sample_fb_def fb_target_def)

text \<open>C17: a character is drawn as its font glyph: each visible pixel of its 8 by 8 cell gets
  the foreground or the background colour by the glyph's bit, and every other visible pixel
  keeps its colour.\<close>

theorem fb_draw_char_glyph:
  assumes "fb_ok s" "fb_visible s a b"
  shows "fb_get_pixel (fb_draw_char c x y fg bg s) a b =
    (if unat (a - x) < 8 \<and> unat (b - y) < 8
     then if glyph_bit c (unat (b - y)) (unat (a - x)) then fg else bg
     else fb_get_pixel s a b)"
proof (cases "unat (a - x) < 8 \<and> unat (b - y) < 8")
  case True
  then show ?thesis
    using fb_draw_char_pixel [OF assms(1), of "unat (b - y)" "unat (a - x)" x y c fg bg] assms(2) by simp
next
  case False
  then have "8 \<le> unat (a - x) \<or> 8 \<le> unat (b - y)" by linarith
  from fb_draw_char_other [OF assms this, of c fg bg] show ?thesis using False by (simp only: if_False)
qed

theorem fb_draw_char_glyph_witness:
  "fb_get_pixel (fb_draw_char 33 4 2 0xFFFFFF 0 (sample_fb False)) 7 2 = 0xFFFFFF"
proof -
  have "fb_visible (sample_fb False) 7 2" by (simp add: fb_visible_def sample_fb_def)
  moreover have "glyph_bit 33 0 3" by (simp add: glyph_bit_def glyph_index_def font_def)
  ultimately show ?thesis using fb_draw_char_glyph [OF sample_fb_ok, of False 7 2 33 4 2 "0xFFFFFF" 0] by simp
qed

text \<open>C37: drawing text anywhere, on or off the screen, changes no byte of memory outside the
  current buffer and nothing else of the state.\<close>

theorem fb_draw_string_within:
  assumes "fb_ok s"
  shows "fb_draw_string cs x y fg bg s = s\<lparr>ram := ram (fb_draw_string cs x y fg bg s)\<rparr> \<and>
    (\<forall>a. unat (screen_h s) * unat (fb_pitch_val s) \<le> unat (a - fb_target s) \<longrightarrow>
      ram (fb_draw_string cs x y fg bg s) a = ram s a)"
  using fb_draws_string [OF assms fb_draws_refl] unfolding fb_draws_def .

theorem fb_draw_string_within_witness:
  "ram (fb_draw_string [72, 105] 12 14 0xFFFFFF 0 (sample_fb False)) 0x100400 = 0"
  using fb_draw_string_within [OF sample_fb_ok, of "[72, 105]" 12 14 "0xFFFFFF" 0 False]
  by (simp add: sample_fb_def fb_target_def)

text \<open>without double buffering \<open>fb_clear\<close> gives every visible pixel the colour; with it,
  every visible pixel of the back buffer gets the colour's lowest byte four times over.\<close>

theorem fb_clear_colour:
  assumes "fb_ok s" "fb_visible s x y" "use_double_buffer s \<longrightarrow> back_buffer s \<noteq> 0"
  shows "fb_get_pixel (fb_clear c s) x y =
    (if use_double_buffer s then le_word (replicate 4 (ucast c)) else c)"
  using fb_clear_pixel [OF assms(1) _ assms(2)] fb_clear_double_pixel [OF assms(1) _ _ assms(2)] assms(3)
  by simp

theorem fb_clear_colour_witness:
  "fb_get_pixel (fb_clear 0x00112233 (sample_fb True)) 3 4 = 0x33333333 \<and>
   fb_get_pixel (fb_clear 0x00112233 (sample_fb False)) 3 4 = 0x00112233"
proof -
  have v: "fb_visible (sample_fb dbl) 3 4" for dbl by (simp add: fb_visible_def sample_fb_def)
  have b: "use_double_buffer (sample_fb dbl) = dbl" "back_buffer (sample_fb dbl) \<noteq> 0" for dbl
    by (simp_all add: sample_fb_def)
  have "replicate 4 x = [x, x, x, x]" for x :: u8 by (simp add: numeral_eq_Suc)
  moreover have "(ucast (0x00112233 :: u32) :: u8) = 0x33" by simp
  moreover have "(le_word [0x33, 0x33, 0x33, 0x33] :: u32) = 0x33333333" by simp
  ultimately have r: "(le_word (replicate 4 (ucast (0x00112233 :: u32))) :: u32) = 0x33333333"
    by (simp only:)
  have "fb_get_pixel (fb_clear 0x00112233 (sample_fb True)) 3 4 = 0x33333333"
    using fb_clear_colour [OF sample_fb_ok v [of True], of "0x00112233"] by (simp only: b r if_True simp_thms)
  moreover have "fb_get_pixel (fb_clear 0x00112233 (sample_fb False)) 3 4 = 0x00112233"
    using fb_clear_colour [OF sample_fb_ok v [of False], of "0x00112233"] by (simp only: b if_False simp_thms)
  ultimately show ?thesis ..
qed

text \<open>\<open>fb_swap_buffers\<close> copies the visible part of each row of the back buffer to the
  screen and changes nothing else, when the two buffers do not meet.\<close>

theorem fb_swap_copies:
  assumes "use_double_buffer s" "back_buffer s \<noteq> 0" "fb_ok s"
    and "disj_range (fb s) (unat (screen_h s) * unat (fb_pitch_val s))
      (back_buffer s) (unat (screen_h s) * unat (fb_pitch_val s))"
  shows "ram (fb_swap_buffers s) a =
    (let k = unat (a - fb s); p = unat (fb_pitch_val s)
     in if k div p < unat (screen_h s) \<and> k mod p < 4 * unat (screen_w s)
        then ram s (back_buffer s + (a - fb s)) else ram s a)"
  using assms by (rule fb_swap_ram)

theorem fb_swap_copies_witness: "ram (fb_swap_buffers (sample_fb True)) 0x100047 = 0x47"
proof -
  have g: "use_double_buffer (sample_fb True)" "back_buffer (sample_fb True) \<noteq> 0"
    "disj_range (fb (sample_fb True)) (unat (screen_h (sample_fb True)) * unat (fb_pitch_val (sample_fb True)))
      (back_buffer (sample_fb True)) (unat (screen_h (sample_fb True)) * unat (fb_pitch_val (sample_fb True)))"
    by (simp_all add: sample_fb_def disj_range_def)
  show ?thesis using fb_swap_copies [OF g(1,2) sample_fb_ok g(3), of "0x100047"]
    by (simp add: sample_fb_def)
qed

text \<open>\<open>fb_rgb\<close> puts green in the second byte and, by the framebuffer format, red in the
  first and blue in the third byte or the other way round.\<close>

theorem fb_rgb_channels:
  "le_bytes 4 (fb_rgb s r g b) = (if fb_format s = FB_FORMAT_BGR then [r, g, b, 0] else [b, g, r, 0])"
proof -
  have e: "(ucast x OR push_bit 8 (ucast g) OR push_bit 16 (ucast y) :: u32) = le_word [x, g, y, 0]"
    for x y :: u8
    by (rule bit_word_eqI) (auto simp: bit_simps)
  have "le_bytes 4 (le_word [x, g, y, 0] :: u32) = [x, g, y, 0]" for x y :: u8
  proof (rule nth_equalityI)
    fix i
    assume "i < length (le_bytes 4 (le_word [x, g, y, 0] :: u32))"
    then show "le_bytes 4 (le_word [x, g, y, 0] :: u32) ! i = [x, g, y, 0] ! i"
      by (simp only: length_le_bytes nth_le_bytes) (rule byte_le_word, simp_all)
  qed simp
  then show ?thesis by (simp only: fb_rgb_def e if_distrib [where f = "le_bytes 4"])
qed

end
