(* ===== verification/Serial.thy ===== *)
theory Serial
  imports Machine
begin

section \<open>The serial port: \<^verbatim>\<open>serial_init\<close>, \<^verbatim>\<open>serial_putc\<close>, \<^verbatim>\<open>serial_puts\<close>\<close>

text \<open>
  \<open>kernel.c\<close>, \<open>pci.c\<close> (\<open>pcer\<close>) and \<open>ide.c\<close> (\<open>iser\<close>) each have the same pair of
  functions that write a string to COM1, waiting before each byte until the transmitter is
  empty. The wait has no bound: it is a \<open>partial_function\<close>, and \<open>None\<close> is a wait that never
  ends. \<open>uart_responsive\<close> says of the device that from any history some later poll finds
  it ready; under it the output is complete.
\<close>

abbreviation COM1 :: u16 where "COM1 \<equiv> 0x3F8"
abbreviation COM1_LSR :: u16 where "COM1_LSR \<equiv> 0x3FD"

definition serial_init :: "'a machine_scheme \<Rightarrow> 'a machine_scheme" where
  "serial_init s =
     (let s = outb (COM1 + 1) 0x00 s;
          s = outb (COM1 + 3) 0x80 s;
          s = outb (COM1 + 0) 0x03 s;
          s = outb (COM1 + 1) 0x00 s;
          s = outb (COM1 + 3) 0x03 s;
          s = outb (COM1 + 2) 0xC7 s
      in outb (COM1 + 4) 0x0B s)"

partial_function (option) serial_wait :: "io_env \<Rightarrow> 'a machine_scheme \<Rightarrow> 'a machine_scheme option" where
  "serial_wait E s =
     (if fst (inb E COM1_LSR s) AND 0x20 = 0 then serial_wait E (snd (inb E COM1_LSR s))
      else Some (snd (inb E COM1_LSR s)))"

definition serial_putc :: "io_env \<Rightarrow> u8 \<Rightarrow> 'a machine_scheme \<Rightarrow> 'a machine_scheme option" where
  "serial_putc E c s = do { s \<leftarrow> serial_wait E s; Some (outb COM1 c s) }"

fun serial_puts :: "io_env \<Rightarrow> u8 list \<Rightarrow> 'a machine_scheme \<Rightarrow> 'a machine_scheme option" where
  "serial_puts E [] s = Some s"
| "serial_puts E (c # cs) s = do {
     s \<leftarrow> (if c = 10 then serial_putc E 13 s else Some s);
     s \<leftarrow> serial_putc E c s;
     serial_puts E cs s
   }"

subsection \<open>A responsive transmitter\<close>

text \<open>The history after \<open>k\<close> more polls of the line status register.\<close>

fun lsr_polls :: "io_env \<Rightarrow> nat \<Rightarrow> io_event list \<Rightarrow> io_event list" where
  "lsr_polls E 0 h = h"
| "lsr_polls E (Suc k) h = lsr_polls E k (InB COM1_LSR (ucast (E h COM1_LSR)) # h)"

definition lsr_ready :: "io_env \<Rightarrow> io_event list \<Rightarrow> bool" where
  "lsr_ready E h \<longleftrightarrow> (ucast (E h COM1_LSR) :: u8) AND 0x20 \<noteq> 0"

definition uart_responsive :: "io_env \<Rightarrow> bool" where
  "uart_responsive E \<longleftrightarrow> (\<forall>h. \<exists>k. lsr_ready E (lsr_polls E k h))"

fun crlf :: "u8 list \<Rightarrow> u8 list" where
  "crlf [] = []"
| "crlf (c # cs) = (if c = 10 then [13, 10] else [c]) @ crlf cs"

lemma serial_wait_polls:
  "lsr_ready E (lsr_polls E k (io_trace s)) \<Longrightarrow>
   \<exists>h. serial_wait E s = Some (s\<lparr>io_trace := h\<rparr>) \<and> byte_outputs h = byte_outputs (io_trace s)"
proof (induction k arbitrary: s)
  case 0
  then show ?case
    by (subst serial_wait.simps)
      (auto simp: inb_def Let_def lsr_ready_def
        intro!: exI [of _ "InB COM1_LSR (ucast (E (io_trace s) COM1_LSR)) # io_trace s"])
next
  case (Suc k)
  let ?s = "snd (inb E COM1_LSR s)"
  show ?case
  proof (cases "lsr_ready E (io_trace s)")
    case True
    then show ?thesis
      by (subst serial_wait.simps)
        (auto simp: inb_def Let_def lsr_ready_def
          intro!: exI [of _ "InB COM1_LSR (ucast (E (io_trace s) COM1_LSR)) # io_trace s"])
  next
    case False
    then have w: "serial_wait E s = serial_wait E ?s"
      by (subst serial_wait.simps) (simp add: inb_def Let_def lsr_ready_def)
    have "lsr_ready E (lsr_polls E k (io_trace ?s))" using Suc.prems by (simp add: inb_def Let_def)
    from Suc.IH [OF this] show ?thesis unfolding w by (simp add: inb_def Let_def)
  qed
qed

lemma serial_putc_spec:
  assumes "uart_responsive E"
  shows "\<exists>h. serial_putc E c s = Some (s\<lparr>io_trace := h\<rparr>) \<and>
    byte_outputs h = byte_outputs (io_trace s) @ [(COM1, c)]"
proof -
  obtain k where "lsr_ready E (lsr_polls E k (io_trace s))"
    using assms by (auto simp: uart_responsive_def)
  from serial_wait_polls [OF this] show ?thesis by (auto simp: serial_putc_def outb_def)
qed

lemma serial_puts_spec:
  assumes "uart_responsive E"
  shows "\<exists>h. serial_puts E cs s = Some (s\<lparr>io_trace := h\<rparr>) \<and>
    byte_outputs h = byte_outputs (io_trace s) @ map (Pair COM1) (crlf cs)"
proof (induction cs arbitrary: s)
  case Nil
  show ?case by (intro exI [of _ "io_trace s"]) simp
next
  case (Cons c cs)
  obtain h1 where h1: "(if c = 10 then serial_putc E 13 s else Some s) = Some (s\<lparr>io_trace := h1\<rparr>)"
    "byte_outputs h1 = byte_outputs (io_trace s) @ (if c = 10 then [(COM1, 13)] else [])"
  proof (cases "c = 10")
    case True
    then show ?thesis using serial_putc_spec [OF assms, of 13 s] that by auto
  next
    case False
    then show ?thesis using that [of "io_trace s"] by simp
  qed
  obtain h2 where h2: "serial_putc E c (s\<lparr>io_trace := h1\<rparr>) = Some (s\<lparr>io_trace := h2\<rparr>)"
    "byte_outputs h2 = byte_outputs h1 @ [(COM1, c)]"
    using serial_putc_spec [OF assms, of c "s\<lparr>io_trace := h1\<rparr>"] by auto
  show ?case using Cons.IH [of "s\<lparr>io_trace := h2\<rparr>"] h1 h2 by (auto simp: bind_eq_Some_conv)
qed

text \<open>A dead transmitter: the wait never ends.\<close>

lemma serial_wait_Some_ready:
  assumes "serial_wait E s = Some t"
  shows "\<exists>k. lsr_ready E (lsr_polls E k (io_trace s))"
proof (rule serial_wait.raw_induct
    [of "\<lambda>E s t. \<exists>k. lsr_ready E (lsr_polls E k (io_trace s))", OF _ assms], goal_cases)
  case (1 f E s t)
  show ?case
  proof (cases "lsr_ready E (io_trace s)")
    case True
    then show ?thesis by (intro exI [of _ 0]) simp
  next
    case False
    then have "f E (snd (inb E COM1_LSR s)) = Some t"
      using 1(2) by (simp add: inb_def Let_def lsr_ready_def)
    from 1(1) [OF this] obtain k where "lsr_ready E (lsr_polls E k (io_trace (snd (inb E COM1_LSR s))))"
      by blast
    then show ?thesis by (intro exI [of _ "Suc k"]) (simp add: inb_def Let_def)
  qed
qed

subsection \<open>Properties\<close>

text \<open>C34: if the transmitter always becomes ready again, \<open>serial_puts\<close> returns and has
  written to COM1 exactly the string, with a carriage return before each newline.\<close>

theorem serial_puts_complete:
  assumes "uart_responsive E"
  shows "\<exists>t. serial_puts E cs s = Some t \<and> ram t = ram s \<and>
    byte_outputs (io_trace t) = byte_outputs (io_trace s) @ map (Pair COM1) (crlf cs)"
  using serial_puts_spec [OF assms, of cs s] by auto

theorem serial_puts_complete_witness:
  "\<exists>t. serial_puts (\<lambda>_ _. 0x20) [79, 75, 10] \<lparr>ram = \<lambda>_. 0, io_trace = []\<rparr> = Some t \<and>
    byte_outputs (io_trace t) = [(COM1, 79), (COM1, 75), (COM1, 13), (COM1, 10)]"
proof -
  have "uart_responsive (\<lambda>_ _. 0x20)" by (simp add: uart_responsive_def lsr_ready_def)
  from serial_puts_complete [OF this, of "[79, 75, 10]" "\<lparr>ram = \<lambda>_. 0, io_trace = []\<rparr>"]
  show ?thesis by auto
qed

text \<open>if the transmitter never becomes ready, no character is ever written:
  \<open>serial_putc\<close> does not return.\<close>

theorem serial_putc_hangs:
  assumes "\<forall>k. \<not> lsr_ready E (lsr_polls E k (io_trace s))"
  shows "serial_putc E c s = None"
  using serial_wait_Some_ready [of E s] assms by (cases "serial_wait E s") (auto simp: serial_putc_def)

theorem serial_putc_hangs_witness:
  "serial_putc (\<lambda>_ _. 0) 65 \<lparr>ram = \<lambda>_. 0, io_trace = []\<rparr> = None"
  by (rule serial_putc_hangs) (simp add: lsr_ready_def)

subsection \<open>Whatever the transmitter does\<close>

lemma serial_wait_state: "serial_wait E s = Some t \<Longrightarrow> \<exists>h. t = s\<lparr>io_trace := h\<rparr>"
proof (induction rule: serial_wait.raw_induct
    [of "\<lambda>E s t. \<exists>h. t = s\<lparr>io_trace := h\<rparr>", rotated 1, consumes 1, case_names step])
  case (step f E s t)
  then show ?case by (auto simp: inb_def Let_def split: if_splits dest!: step(1))
qed

lemma serial_putc_state: "serial_putc E c s = Some t \<Longrightarrow> \<exists>h. t = s\<lparr>io_trace := h\<rparr>"
  by (auto simp: serial_putc_def bind_eq_Some_conv outb_def dest!: serial_wait_state)

lemma serial_puts_state: "serial_puts E cs s = Some t \<Longrightarrow> \<exists>h. t = s\<lparr>io_trace := h\<rparr>"
proof (induction cs arbitrary: s)
  case Nil
  then show ?case by (intro exI [of _ "io_trace s"]) simp
next
  case (Cons c cs)
  then obtain u v where "(if c = 10 then serial_putc E 13 s else Some s) = Some u"
    "serial_putc E c u = Some v" "serial_puts E cs v = Some t" by (auto simp: bind_eq_Some_conv)
  moreover have "\<exists>h. u = s\<lparr>io_trace := h\<rparr>" using calculation(1)
    by (cases "c = 10") (auto dest: serial_putc_state intro: exI [of _ "io_trace s"])
  ultimately show ?case using Cons.IH [of v] by (auto dest!: serial_putc_state)
qed

end
