(* ===== verification/Interrupts.thy ===== *)
theory Interrupts
  imports Framebuffer Serial
begin

section \<open>\<^verbatim>\<open>interrupts.c\<close>: descriptor tables, interrupt controller, dispatch\<close>

text \<open>
  \<open>isr_handler\<close> is what the assembly stubs call with the saved registers and the vector.
  The addresses of the stubs are parameters (\<open>isr i\<close> for \<open>isr_0\<close> to \<open>isr_47\<close>, and
  \<open>unhandled\<close>), as is the value of \<open>CR2\<close>. The infinite \<open>hlt\<close> loop of
  \<open>panic_report\<close> is the flag \<open>halted\<close>; \<open>cli\<close> clears \<open>if_flag\<close>; \<open>lgdt\<close> and \<open>lidt\<close>
  set \<open>gdt_active\<close> and \<open>idt_active\<close>. A text line is the array \<open>char line[72]\<close> with its write
  position; array writes are at proved-in-range positions.
\<close>

record idt_entry =
  offset_low :: u16
  selector :: u16
  ist :: u8
  type_attr :: u8
  offset_mid :: u16
  offset_high :: u32
  entry_zero :: u32

record intr_frame =
  r15 :: u64  r14 :: u64  r13 :: u64  r12 :: u64
  r11 :: u64  r10 :: u64  r9 :: u64  r8 :: u64
  rsi :: u64  rdi :: u64  rbp :: u64  rdx :: u64
  rcx :: u64  rbx :: u64  rax :: u64
  vector :: u64
  error_code :: u64
  rip :: u64  cs :: u64  rflags :: u64  rsp :: u64  ss :: u64

record intr_state = fb_state +
  idt :: "idt_entry list"
  gdt :: "u64 list"
  gdt_active :: bool
  idt_active :: bool
  if_flag :: bool
  halted :: bool

definition IDT_ENTRIES :: nat where "IDT_ENTRIES = 256"
abbreviation PIC1_COMMAND :: u16 where "PIC1_COMMAND \<equiv> 0x20"
abbreviation PIC2_COMMAND :: u16 where "PIC2_COMMAND \<equiv> 0xA0"
abbreviation PIC2_DATA :: u16 where "PIC2_DATA \<equiv> 0xA1"
abbreviation PIC_EOI :: u8 where "PIC_EOI \<equiv> 0x20"

definition exception_names :: "u8 list list" where
  "exception_names =
     [asc ''Divide Error (#DE)'',
      asc ''Debug (#DB)'',
      asc ''Non-Maskable Interrupt'',
      asc ''Breakpoint (#BP)'',
      asc ''Overflow (#OF)'',
      asc ''Bound Range (#BR)'',
      asc ''Invalid Opcode (#UD)'',
      asc ''Device Not Available (#NM)'',
      asc ''Double Fault (#DF)'',
      asc ''Coprocessor Segment Overrun'',
      asc ''Invalid TSS (#TS)'',
      asc ''Segment Not Present (#NP)'',
      asc ''Stack Fault (#SS)'',
      asc ''General Protection (#GP)'',
      asc ''Page Fault (#PF)'',
      asc ''Reserved'',
      asc ''x87 FPU Error (#MF)'',
      asc ''Alignment Check (#AC)'',
      asc ''Machine Check (#MC)'',
      asc ''SIMD FPU Error (#XM)'',
      asc ''Virtualization (#VE)'',
      asc ''Control Protection (#CP)'',
      asc ''Reserved'',
      asc ''Reserved'',
      asc ''Reserved'',
      asc ''Reserved'',
      asc ''Reserved'',
      asc ''Reserved'',
      asc ''Reserved'',
      asc ''Reserved'',
      asc ''Reserved'',
      asc ''Reserved'']"

subsection \<open>Text lines\<close>

type_synonym line = "u8 list \<times> u64"

text \<open>Characters appended while there is room for them and a terminator: the loop of
  \<open>append_str\<close>, and the last loop of \<open>append_hex\<close> and \<open>append_dec\<close>.\<close>

fun append_str :: "u64 \<Rightarrow> u8 list \<Rightarrow> line \<Rightarrow> line" where
  "append_str cap [] l = l"
| "append_str cap (c # xs) (buf, pos) =
     (if pos + 1 < cap then append_str cap xs (buf[unat pos := c], pos + 1) else (buf, pos))"

definition hex_char :: "u64 \<Rightarrow> u8" where
  "hex_char d = asc ''0123456789ABCDEF'' ! unat d"

text \<open>The digits of \<open>tmp\<close>, lowest first, at most \<open>n\<close> of them.\<close>

fun hex_tmp :: "nat \<Rightarrow> u64 \<Rightarrow> u8 list" where
  "hex_tmp 0 value = []"
| "hex_tmp (Suc n) value =
     (if 0 < value then hex_char (value AND 0xF) # hex_tmp n (drop_bit 4 value) else [])"

fun dec_tmp :: "nat \<Rightarrow> u64 \<Rightarrow> u8 list" where
  "dec_tmp 0 value = []"
| "dec_tmp (Suc n) value =
     (if 0 < value then (48 + ucast (value mod 10)) # dec_tmp n (value div 10) else [])"

definition append_hex :: "u64 \<Rightarrow> u64 \<Rightarrow> line \<Rightarrow> line" where
  "append_hex cap value l =
     (let (buf, pos) = l in
      if value = 0 then
        (if pos + 3 < cap
         then (buf[unat pos := 48, unat (pos + 1) := 120, unat (pos + 2) := 48], pos + 3)
         else (buf, pos))
      else let tmp = hex_tmp 16 value;
               (buf, pos) = (if pos + 2 < cap
                             then (buf[unat pos := 48, unat (pos + 1) := 120], pos + 2) else (buf, pos))
           in append_str cap (rev tmp) (buf, pos))"

definition append_dec :: "u64 \<Rightarrow> u64 \<Rightarrow> line \<Rightarrow> line" where
  "append_dec cap value l =
     (let (buf, pos) = l in
      if value = 0 then (if pos + 1 < cap then (buf[unat pos := 48], pos + 1) else (buf, pos))
      else append_str cap (rev (dec_tmp 24 value)) (buf, pos))"

abbreviation LINE_CAP :: u64 where "LINE_CAP \<equiv> 72"

text \<open>\<open>line[pos < sizeof(line) ? pos : sizeof(line) - 1] = '\0'\<close>, and the string then in \<open>line\<close>\<close>

definition terminate_line :: "line \<Rightarrow> u8 list" where
  "terminate_line l =
     (let (buf, pos) = l in buf[unat (if pos < LINE_CAP then pos else LINE_CAP - 1) := 0])"

definition c_string :: "u8 list \<Rightarrow> u8 list" where
  "c_string buf = takeWhile (\<lambda>c. c \<noteq> 0) buf"

definition empty_line :: line where
  "empty_line = (replicate 72 0, 0)"

definition line_text :: "line \<Rightarrow> u8 list" where
  "line_text l = c_string (terminate_line l)"

subsection \<open>Tables and controller\<close>

definition gdt_init :: "'a intr_state_scheme \<Rightarrow> 'a intr_state_scheme" where
  "gdt_init s = s\<lparr>gdt := [0, 0x00AF9A000000FFFF, 0x00CF92000000FFFF], gdt_active := True\<rparr>"

definition idt_set_gate :: "nat \<Rightarrow> u64 \<Rightarrow> 'a intr_state_scheme \<Rightarrow> 'a intr_state_scheme" where
  "idt_set_gate v addr s =
     s\<lparr>idt := (idt s)[v := \<lparr>offset_low = ucast (addr AND 0xFFFF), selector = 0x08, ist = 0, type_attr = 0x8E,
         offset_mid = ucast (drop_bit 16 addr AND 0xFFFF), offset_high = ucast (drop_bit 32 addr),
         entry_zero = 0\<rparr>]\<rparr>"

definition idt_load :: "'a intr_state_scheme \<Rightarrow> 'a intr_state_scheme" where
  "idt_load s = s\<lparr>idt_active := True\<rparr>"

definition pic_remap :: "io_env \<Rightarrow> u8 \<Rightarrow> u8 \<Rightarrow> 'a machine_scheme \<Rightarrow> 'a machine_scheme" where
  "pic_remap E offset1 offset2 s =
     (let (mask1, s) = inb E PIC1_DATA s;
          (mask2, s) = inb E PIC2_DATA s;
          s = outb PIC1_COMMAND 0x11 s;
          s = outb PIC2_COMMAND 0x11 s;
          s = outb PIC1_DATA offset1 s;
          s = outb PIC2_DATA offset2 s;
          s = outb PIC1_DATA 4 s;
          s = outb PIC2_DATA 2 s;
          s = outb PIC1_DATA 0x01 s;
          s = outb PIC2_DATA 0x01 s;
          s = outb PIC1_DATA mask1 s
      in outb PIC2_DATA mask2 s)"

definition pic_eoi :: "u64 \<Rightarrow> 'a machine_scheme \<Rightarrow> 'a machine_scheme" where
  "pic_eoi v s =
     (if 32 \<le> v \<and> v < 48 then
        let s = (if 40 \<le> v then outb PIC2_COMMAND PIC_EOI s else s)
        in outb PIC1_COMMAND PIC_EOI s
      else s)"

definition intr_init ::
  "io_env \<Rightarrow> (nat \<Rightarrow> u64) \<Rightarrow> u64 \<Rightarrow> 'a intr_state_scheme \<Rightarrow> 'a intr_state_scheme" where
  "intr_init E isr unhandled s =
     (let s = gdt_init s;
          s = fold (\<lambda>i. idt_set_gate i unhandled) [0..<IDT_ENTRIES] s;
          s = fold (\<lambda>i. idt_set_gate i (isr i)) [0..<48] s;
          s = pic_remap E 32 (32 + 8) s;
          s = outb PIC1_DATA 0xFF s;
          s = outb PIC2_DATA 0xFF s
      in idt_load s)"

subsection \<open>Dispatch\<close>

definition draw_line :: "line \<Rightarrow> u64 \<Rightarrow> u32 \<Rightarrow> 'a fb_state_scheme \<Rightarrow> 'a fb_state_scheme" where
  "draw_line l y fg s = fb_draw_string (line_text l) 16 y fg FB_COLOR_BLACK s"

definition panic_report :: "u64 \<Rightarrow> intr_frame \<Rightarrow> 'a intr_state_scheme \<Rightarrow> 'a intr_state_scheme" where
  "panic_report cr2 frame s =
     (let s = s\<lparr>if_flag := False\<rparr>;
          s = fb_clear FB_COLOR_BLACK s;
          s = fb_draw_string (asc ''*** CPU EXCEPTION ***'') 16 16 FB_COLOR_WHITE FB_COLOR_BLACK s;
          name = (if vector frame < 32 then exception_names ! unat (vector frame)
                  else asc ''Unknown exception'');
          s = fb_draw_string name 16 32 0x00FF5555 FB_COLOR_BLACK s;
          l = append_dec LINE_CAP (vector frame) (append_str LINE_CAP (asc ''Vector '') empty_line);
          s = draw_line l 56 FB_COLOR_WHITE s;
          l = append_hex LINE_CAP (error_code frame) (append_str LINE_CAP (asc ''Error code '') empty_line);
          s = draw_line l 72 FB_COLOR_WHITE s;
          l = append_hex LINE_CAP (rip frame) (append_str LINE_CAP (asc ''RIP '') empty_line);
          s = draw_line l 96 FB_COLOR_WHITE s;
          l = append_hex LINE_CAP (cs frame) (append_str LINE_CAP (asc ''CS '') empty_line);
          l = append_hex LINE_CAP (rflags frame) (append_str LINE_CAP (asc ''  RFLAGS '') l);
          s = draw_line l 112 FB_COLOR_WHITE s;
          l = append_hex LINE_CAP (rsp frame) (append_str LINE_CAP (asc ''RSP '') empty_line);
          l = append_hex LINE_CAP (ss frame) (append_str LINE_CAP (asc ''  SS '') l);
          s = draw_line l 128 FB_COLOR_WHITE s;
          s = (if vector frame = 14 then
                 let l = append_hex LINE_CAP cr2 (append_str LINE_CAP (asc ''CR2 (fault addr) '') empty_line)
                 in draw_line l 152 0x00FFFF00 s
               else s);
          l = append_hex LINE_CAP (rax frame) (append_str LINE_CAP (asc ''RAX '') empty_line);
          l = append_hex LINE_CAP (rbx frame) (append_str LINE_CAP (asc '' RBX '') l);
          s = draw_line l 184 FB_COLOR_WHITE s;
          l = append_hex LINE_CAP (rcx frame) (append_str LINE_CAP (asc ''RCX '') empty_line);
          l = append_hex LINE_CAP (rdx frame) (append_str LINE_CAP (asc '' RDX '') l);
          s = draw_line l 200 FB_COLOR_WHITE s;
          s = fb_draw_string (asc ''System halted.'') 16 232 FB_COLOR_GREEN FB_COLOR_BLACK s
      in s\<lparr>halted := True\<rparr>)"

text \<open>The banner \<open>I=\<close> vector, newline, written to COM1 without waiting.\<close>

definition isr_banner :: "u64 \<Rightarrow> u8 list" where
  "isr_banner v = [73, 61] @ (if v = 0 then [48] else []) @ rev (dec_tmp 20 v) @ [10]"

definition isr_handler ::
  "io_env \<Rightarrow> u64 \<Rightarrow> intr_frame \<Rightarrow> 'a intr_state_scheme \<Rightarrow> 'a intr_state_scheme" where
  "isr_handler E cr2 frame s =
     (let s = fold (outb COM1) (isr_banner (vector frame)) s
      in if vector frame < 32 then panic_report cr2 frame s
         else if 32 \<le> vector frame \<and> vector frame < 48 then
           (let s = pic_eoi (vector frame) s
            in if vector frame = 32 + 0 then timer_handler s
               else if vector frame = 32 + 1 then keyboard_handler E s
               else s)
         else if vector frame = 0xFFFF then s
         else panic_report cr2 frame s)"

subsection \<open>Digits\<close>

fun dec_value :: "u8 list \<Rightarrow> nat" where
  "dec_value [] = 0"
| "dec_value (d # ds) = unat (d - 48) + 10 * dec_value ds"

definition hex_digit :: "u8 \<Rightarrow> nat" where
  "hex_digit c = (if c < 58 then unat (c - 48) else unat (c - 55))"

fun hex_value :: "u8 list \<Rightarrow> nat" where
  "hex_value [] = 0"
| "hex_value (d # ds) = hex_digit d + 16 * hex_value ds"

lemma dec_tmp_value: "unat v < 10 ^ n \<Longrightarrow> dec_value (dec_tmp n v) = unat v"
proof (induction n arbitrary: v)
  case 0
  then show ?case by simp
next
  case (Suc n)
  have "unat (v div 10) < 10 ^ n" using Suc.prems by (simp add: unat_div less_mult_imp_div_less)
  then have "dec_value (dec_tmp n (v div 10)) = unat v div 10" using Suc.IH by (simp add: unat_div)
  moreover have "unat (ucast (v mod 10) :: u8) = unat v mod 10"
    by (simp add: unsigned_ucast_eq take_bit_eq_mod unat_mod)
  ultimately show ?case by (auto simp: word_gt_0)
qed

lemma dec_tmp_length: "length (dec_tmp n v) \<le> n"
  by (induction n arbitrary: v) auto

lemma hex_digits_ok: "map (\<lambda>k. hex_digit (asc ''0123456789ABCDEF'' ! k)) [0..<16] = [0..<16]"
  by code_simp

lemma hex_char_digit: "unat d < 16 \<Longrightarrow> hex_digit (hex_char d) = unat d"
  using arg_cong [OF hex_digits_ok, of "\<lambda>xs. xs ! unat d"]
  by (simp add: hex_char_def del: upt_rec_numeral)

lemma hex_tmp_value: "unat v < 16 ^ n \<Longrightarrow> hex_value (hex_tmp n v) = unat v"
proof (induction n arbitrary: v)
  case 0
  then show ?case by simp
next
  case (Suc n)
  have d: "unat (drop_bit 4 v) = unat v div 16" by (simp add: drop_bit_eq_div unat_div)
  then have "hex_value (hex_tmp n (drop_bit 4 v)) = unat v div 16"
    using Suc by (simp add: less_mult_imp_div_less)
  moreover have "(0xF :: u64) = mask 4" by (simp add: mask_eq_exp_minus_1)
  then have "unat (v AND 0xF) = unat v mod 16"
    by (simp only: take_bit_eq_mask [symmetric]) (simp add: take_bit_eq_mod unat_mod)
  ultimately show ?case by (auto simp: word_gt_0 hex_char_digit)
qed

subsection \<open>Lines stay inside the buffer\<close>

definition line_ok :: "u64 \<Rightarrow> line \<Rightarrow> bool" where
  "line_ok cap l \<longleftrightarrow> length (fst l) = unat cap \<and> snd l < cap"

definition line_content :: "line \<Rightarrow> u8 list" where
  "line_content l = take (unat (snd l)) (fst l)"

lemma pos_inc:
  fixes pos cap :: u64
  assumes "pos < cap"
  shows "unat (pos + 1) = Suc (unat pos)"
proof (rule unat_inc_u64)
  show "pos \<noteq> - 1" using assms by auto
qed

lemma append_str_spec:
  "line_ok cap l \<Longrightarrow> line_ok cap (append_str cap xs l) \<and>
   line_content (append_str cap xs l) = take (unat cap - 1) (line_content l @ xs)"
proof (induction cap xs l rule: append_str.induct)
  case (1 cap l)
  then show ?case by (auto simp: line_ok_def line_content_def word_less_nat_alt)
next
  case (2 cap c xs buf pos)
  have pc: "pos < cap" and len: "length buf = unat cap" using 2(2) by (auto simp: line_ok_def)
  note u = pos_inc [OF pc]
  show ?case
  proof (cases "pos + 1 < cap")
    case True
    then have lt: "unat pos < length buf" "Suc (unat pos) < unat cap"
      using pc len u by (simp_all add: word_less_nat_alt)
    have "line_ok cap (buf[unat pos := c], pos + 1)" using True len by (simp add: line_ok_def)
    moreover have "line_content (buf[unat pos := c], pos + 1) = line_content (buf, pos) @ [c]"
      using lt(1) u by (simp add: line_content_def take_Suc_conv_app_nth)
    ultimately show ?thesis using 2(1) True by simp
  next
    case False
    then have "unat cap \<le> Suc (unat pos)" using u by (simp add: word_less_nat_alt)
    then have "unat pos = unat cap - 1" using pc by (simp add: word_less_nat_alt)
    then show ?thesis using False 2(2) len by (simp add: line_content_def)
  qed
qed

lemma append_two:
  assumes "line_ok cap (buf, pos)" "unat pos + 2 < unat cap"
  shows "line_ok cap (buf[unat pos := a, unat (pos + 1) := b], pos + 2)"
    "line_content (buf[unat pos := a, unat (pos + 1) := b], pos + 2) = line_content (buf, pos) @ [a, b]"
proof -
  have l: "length buf = unat cap" using assms(1) by (simp add: line_ok_def)
  have u1: "unat (pos + 1) = Suc (unat pos)" and u2: "unat (pos + 2) = Suc (Suc (unat pos))"
    using assms(2) unat_u64_bound [of cap] unat_add_of_nat [of pos 1] unat_add_of_nat [of pos 2] by simp_all
  show "line_ok cap (buf[unat pos := a, unat (pos + 1) := b], pos + 2)"
    using assms(2) l u2 by (simp add: line_ok_def word_less_nat_alt)
  show "line_content (buf[unat pos := a, unat (pos + 1) := b], pos + 2) = line_content (buf, pos) @ [a, b]"
    using assms(2) l by (simp add: line_content_def u1 u2 take_Suc_conv_app_nth)
qed

definition hex_text :: "u64 \<Rightarrow> u8 list" where
  "hex_text v = [48, 120] @ (if v = 0 then [48] else rev (hex_tmp 16 v))"

definition dec_text :: "u64 \<Rightarrow> u8 list" where
  "dec_text v = (if v = 0 then [48] else rev (dec_tmp 24 v))"

lemma append_dec_spec:
  "line_ok cap l \<Longrightarrow> line_ok cap (append_dec cap v l) \<and>
   line_content (append_dec cap v l) = take (unat cap - 1) (line_content l @ dec_text v)"
proof (cases "v = 0")
  case True
  assume "line_ok cap l"
  then show ?thesis using True append_str_spec [of cap l "[48]"]
    by (cases l) (auto simp: append_dec_def dec_text_def split: if_splits)
next
  case False
  assume "line_ok cap l"
  then show ?thesis using False append_str_spec [of cap l "rev (dec_tmp 24 v)"]
    by (cases l) (simp add: append_dec_def dec_text_def)
qed

lemma append_dec_value: "dec_value (rev (dec_text v)) = unat v"
proof -
  have "unat v < 10 ^ 24" using unat_u64_bound [of v] by simp
  then show ?thesis using dec_tmp_value [of v 24] by (simp add: dec_text_def)
qed

text \<open>With room for the text, \<open>append_hex\<close> appends it; without, it appends less.\<close>

lemma append_hex_ok:
  assumes "line_ok cap l"
  shows "line_ok cap (append_hex cap v l)"
proof -
  obtain buf pos where l: "l = (buf, pos)" by (cases l)
  have pc: "pos < cap" and len: "length buf = unat cap" using assms by (auto simp: line_ok_def l)
  show ?thesis
  proof (cases "v = 0")
    case True
    then show ?thesis using assms len by (auto simp: append_hex_def l line_ok_def)
  next
    case False
    have "line_ok cap (if pos + 2 < cap then (buf[unat pos := 48, unat (pos + 1) := 120], pos + 2) else (buf, pos))"
      using pc len by (simp add: line_ok_def)
    then show ?thesis using False append_str_spec by (auto simp: append_hex_def l split: prod.splits if_splits)
  qed
qed

lemma hex_tmp_length: "length (hex_tmp n v) \<le> n"
  by (induction n arbitrary: v) auto

lemma length_line_content: "line_ok cap l \<Longrightarrow> length (line_content l) = unat (snd l)"
  by (auto simp: line_ok_def line_content_def word_less_nat_alt)

lemma append_hex_content:
  assumes "line_ok cap l" "length (line_content l) + 18 < unat cap"
  shows "line_content (append_hex cap v l) = line_content l @ hex_text v"
proof -
  obtain buf pos where l: "l = (buf, pos)" by (cases l)
  have room: "unat pos + 18 < unat cap" using assms length_line_content [OF assms(1)] by (simp add: l)
  have u: "unat (pos + 2) = unat pos + 2" "unat (pos + 3) = unat pos + 3" "unat (pos + 1) = unat pos + 1"
    using room unat_u64_bound [of cap] unat_add_of_nat [of pos 1] unat_add_of_nat [of pos 2]
      unat_add_of_nat [of pos 3] by simp_all
  have two: "line_ok cap (buf[unat pos := 48, unat (pos + 1) := 120], pos + 2)"
    "line_content (buf[unat pos := 48, unat (pos + 1) := 120], pos + 2) = line_content (buf, pos) @ [48, 120]"
    using append_two [of cap buf pos 48 120] assms(1) room by (simp_all add: l)
  have p2: "pos + 2 < cap" "pos + 3 < cap" using u room by (simp_all add: word_less_nat_alt)
  show ?thesis
  proof (cases "v = 0")
    case True
    have len: "unat pos + 3 \<le> length buf" using assms(1) room by (simp add: l line_ok_def)
    have "take (unat pos + 3) (buf[unat pos := 48, unat pos + 1 := 120, unat pos + 2 := 48]) =
        take (unat pos) buf @ [48, 120, 48]"
      using len by (simp add: take_Suc_conv_app_nth numeral_3_eq_3 nth_list_update)
    then show ?thesis using True p2 by (simp add: append_hex_def l line_content_def u hex_text_def)
  next
    case False
    have "line_content (append_str cap (rev (hex_tmp 16 v)) (buf[unat pos := 48, unat (pos + 1) := 120], pos + 2))
        = take (unat cap - 1) ((line_content (buf, pos) @ [48, 120]) @ rev (hex_tmp 16 v))"
      using append_str_spec [OF two(1)] two(2) by simp
    moreover have "length ((line_content (buf, pos) @ [48, 120]) @ rev (hex_tmp 16 v)) \<le> unat cap - 1"
      using hex_tmp_length [of 16 v] room length_line_content [OF assms(1)] by (simp add: l)
    ultimately show ?thesis using False p2 by (simp add: append_hex_def l hex_text_def)
  qed
qed

subsection \<open>The descriptor table\<close>

definition gate_target :: "idt_entry \<Rightarrow> u64" where
  "gate_target e =
     (ucast (offset_low e) OR push_bit 16 (ucast (offset_mid e)) OR push_bit 32 (ucast (offset_high e)))"

definition gate_of :: "u64 \<Rightarrow> idt_entry" where
  "gate_of addr =
     \<lparr>offset_low = ucast (addr AND 0xFFFF), selector = 0x08, ist = 0, type_attr = 0x8E,
      offset_mid = ucast (drop_bit 16 addr AND 0xFFFF), offset_high = ucast (drop_bit 32 addr), entry_zero = 0\<rparr>"

lemma gate_target_of: "gate_target (gate_of addr) = addr"
proof (rule bit_word_eqI)
  have ff: "(0xFFFF :: u64) = mask 16" by (simp add: mask_eq_exp_minus_1)
  fix k
  assume "k < LENGTH(64)"
  then show "bit (gate_target (gate_of addr)) k = bit addr k"
    unfolding gate_target_def gate_of_def ff by (cases "k < 32") (auto simp: bit_simps)
qed

lemma fold_set_gate:
  "fold (\<lambda>i. idt_set_gate i (f i)) [0..<k] s =
     s\<lparr>idt := map (\<lambda>i. if i < k then gate_of (f i) else idt s ! i) [0..<length (idt s)]\<rparr>"
proof (induction k)
  case 0
  show ?case by (simp add: map_nth)
next
  case (Suc k)
  have "(map (\<lambda>i. if i < k then gate_of (f i) else idt s ! i) [0..<length (idt s)])[k := gate_of (f k)] =
      map (\<lambda>i. if i < Suc k then gate_of (f i) else idt s ! i) [0..<length (idt s)]"
    by (intro nth_equalityI) (auto simp: nth_list_update less_Suc_eq)
  then show ?case using Suc by (simp add: idt_set_gate_def gate_of_def [symmetric])
qed

lemma port_fields [simp]:
  "idt (outb p v s) = idt s" "idt (snd (inb E p s)) = idt s" "idt (idt_load s) = idt s"
  "gdt (outb p v s) = gdt s" "gdt (snd (inb E p s)) = gdt s" "gdt (idt_load s) = gdt s"
  "idt (pic_remap E a b s) = idt s" "gdt (pic_remap E a b s) = gdt s"
  "io_trace (idt_load s) = io_trace s"
  by (simp_all add: outb_def inb_def Let_def idt_load_def pic_remap_def)

lemma byte_outputs_outb [simp]: "byte_outputs (io_trace (outb p v s)) = byte_outputs (io_trace s) @ [(p, v)]"
  by (simp add: outb_def)

lemma pic_remap_outputs:
  "\<exists>m1 m2. byte_outputs (io_trace (pic_remap E a b s)) = byte_outputs (io_trace s) @
     [(PIC1_COMMAND, 0x11), (PIC2_COMMAND, 0x11), (PIC1_DATA, a), (PIC2_DATA, b),
      (PIC1_DATA, 4), (PIC2_DATA, 2), (PIC1_DATA, 1), (PIC2_DATA, 1), (PIC1_DATA, m1), (PIC2_DATA, m2)]"
  by (simp add: pic_remap_def split_beta Let_def)

lemma intr_init_idt:
  assumes "length (idt s) = IDT_ENTRIES"
  shows "idt (intr_init E isr unhandled s) =
    map (\<lambda>i. gate_of (if i < 48 then isr i else unhandled)) [0..<IDT_ENTRIES]"
proof -
  have l: "length (idt (gdt_init s)) = IDT_ENTRIES" using assms by (simp add: gdt_init_def)
  show ?thesis
    unfolding intr_init_def Let_def
    by (intro nth_equalityI) (auto simp: fold_set_gate l IDT_ENTRIES_def simp del: upt_rec_numeral)
qed

subsection \<open>Dispatch\<close>

lemma banner_outputs [simp]:
  "byte_outputs (io_trace (fold (outb p) bs s)) = byte_outputs (io_trace s) @ map (Pair p) bs"
  by (induction bs arbitrary: s) simp_all

lemma banner_state: "\<exists>h. fold (outb p) bs s = s\<lparr>io_trace := h\<rparr>"
proof (induction bs arbitrary: s)
  case Nil
  show ?case by (intro exI [of _ "io_trace s"]) simp
next
  case (Cons b bs)
  obtain h where "fold (outb p) bs (outb p b s) = (outb p b s)\<lparr>io_trace := h\<rparr>" using Cons by blast
  then show ?case by (intro exI [of _ h]) (simp add: outb_def [of p b s])
qed

lemma fb_draws_ok: "fb_draws s t \<Longrightarrow> fb_ok t = fb_ok s"
proof -
  assume "fb_draws s t"
  then have "t = s\<lparr>ram := ram t\<rparr>" by (simp add: fb_draws_def)
  moreover have "fb_ok (s\<lparr>ram := m\<rparr>) = fb_ok s" for m by (simp add: fb_ok_def fb_target_def)
  ultimately show "fb_ok t = fb_ok s" by metis
qed

lemma panic_draws:
  assumes "fb_ok s" "use_double_buffer s \<longrightarrow> back_buffer s \<noteq> 0"
  shows "\<exists>u. fb_draws (s\<lparr>if_flag := False\<rparr>) u \<and> panic_report cr2 frame s = u\<lparr>halted := True\<rparr>"
proof -
  let ?s = "s\<lparr>if_flag := False\<rparr>"
  have ok: "fb_ok ?s" using assms(1) by (auto simp: fb_ok_def fb_target_def split: if_splits)
  have clear: "fb_draws ?s (fb_clear FB_COLOR_BLACK ?s)"
    using assms(2) by (intro fb_draws_clear ok) simp
  have cond: "fb_draws ?s (if c then u else v)" if "fb_draws ?s u" "fb_draws ?s v" for c u v
    using that by simp
  show ?thesis
    unfolding panic_report_def Let_def draw_line_def
    by (intro exI conjI [rotated], rule refl, intro fb_draws_string [OF ok] cond clear)
qed

text \<open>The three ways \<open>isr_handler\<close> can go.\<close>

lemma isr_handler_panic:
  assumes "vector frame < 32 \<or> 48 \<le> vector frame \<and> vector frame \<noteq> 0xFFFF"
    and "fb_ok s" "use_double_buffer s \<longrightarrow> back_buffer s \<noteq> 0"
  shows "\<exists>h u. isr_handler E cr2 frame s = u\<lparr>halted := True\<rparr> \<and>
    fb_draws (s\<lparr>io_trace := h, if_flag := False\<rparr>) u \<and>
    byte_outputs h = byte_outputs (io_trace s) @ map (Pair COM1) (isr_banner (vector frame))"
proof -
  obtain h where h: "fold (outb COM1) (isr_banner (vector frame)) s = s\<lparr>io_trace := h\<rparr>"
    using banner_state by blast
  let ?s = "s\<lparr>io_trace := h\<rparr>"
  have b: "byte_outputs h = byte_outputs (io_trace s) @ map (Pair COM1) (isr_banner (vector frame))"
    using banner_outputs [of COM1 "isr_banner (vector frame)" s] by (simp add: h)
  have "fb_ok ?s" "use_double_buffer ?s \<longrightarrow> back_buffer ?s \<noteq> 0"
    using assms(2,3) by (auto simp: fb_ok_def fb_target_def split: if_splits)
  then obtain u where u: "fb_draws (?s\<lparr>if_flag := False\<rparr>) u"
    "panic_report cr2 frame ?s = u\<lparr>halted := True\<rparr>"
    using panic_draws by blast
  have "\<not> (32 \<le> vector frame \<and> vector frame < 48)" "vector frame = 0xFFFF \<longrightarrow> vector frame < 32"
    using assms(1) by auto
  then have "isr_handler E cr2 frame s = u\<lparr>halted := True\<rparr>"
    using u(2) unfolding isr_handler_def h Let_def by (cases "vector frame < 32") simp_all
  then show ?thesis using u(1) b by auto
qed

lemma isr_handler_irq:
  assumes "32 \<le> vector frame" "vector frame < 48"
  shows "\<exists>h tick up sh ca. isr_handler E cr2 frame s =
    s\<lparr>io_trace := h, timer_ticks := tick, system_uptime_seconds := up, shift_pressed := sh, caps_lock := ca\<rparr>"
proof -
  obtain h where h: "fold (outb COM1) (isr_banner (vector frame)) s = s\<lparr>io_trace := h\<rparr>"
    using banner_state by blast
  have n: "\<not> vector frame < 32" using assms(1) by (simp add: not_less)
  have "pic_eoi (vector frame) (s\<lparr>io_trace := h\<rparr>) =
      s\<lparr>io_trace := io_trace (pic_eoi (vector frame) (s\<lparr>io_trace := h\<rparr>))\<rparr>"
    by (simp add: pic_eoi_def outb_def Let_def)
  then obtain h' where h': "pic_eoi (vector frame) (s\<lparr>io_trace := h\<rparr>) = s\<lparr>io_trace := h'\<rparr>" by blast
  let ?P = "\<lambda>u. \<exists>h tick up sh ca. u =
    s\<lparr>io_trace := h, timer_ticks := tick, system_uptime_seconds := up, shift_pressed := sh, caps_lock := ca\<rparr>"
  have "?P (timer_handler (s\<lparr>io_trace := h'\<rparr>))"
    by (intro exI [of _ h'] exI [of _ "timer_ticks s + 1"]
        exI [of _ "if (timer_ticks s + 1) mod 100 = 0 then system_uptime_seconds s + 1 else system_uptime_seconds s"]
        exI [of _ "shift_pressed s"] exI [of _ "caps_lock s"])
      (simp add: timer_handler_def Let_def)
  moreover have "?P (keyboard_handler E (s\<lparr>io_trace := h'\<rparr>))"
  proof -
    let ?v = "ucast (E h' 0x60) :: u8"
    obtain sh ca where "keyboard_scancode ?v (s\<lparr>io_trace := InB 0x60 ?v # h'\<rparr>) =
        s\<lparr>io_trace := InB 0x60 ?v # h', shift_pressed := sh, caps_lock := ca\<rparr>"
      using keyboard_scancode_state [of ?v "s\<lparr>io_trace := InB 0x60 ?v # h'\<rparr>"] by auto
    then show ?thesis
      by (intro exI [of _ "InB 0x60 ?v # h'"] exI [of _ "timer_ticks s"] exI [of _ "system_uptime_seconds s"]
          exI [of _ sh] exI [of _ ca]) (simp add: keyboard_handler_def inb_def Let_def)
  qed
  moreover have "?P (s\<lparr>io_trace := h'\<rparr>)"
    by (intro exI [of _ h'] exI [of _ "timer_ticks s"] exI [of _ "system_uptime_seconds s"]
        exI [of _ "shift_pressed s"] exI [of _ "caps_lock s"]) simp
  moreover have "isr_handler E cr2 frame s =
      (if vector frame = 32 + 0 then timer_handler (s\<lparr>io_trace := h'\<rparr>)
       else if vector frame = 32 + 1 then keyboard_handler E (s\<lparr>io_trace := h'\<rparr>) else s\<lparr>io_trace := h'\<rparr>)"
    using n assms by (simp only: isr_handler_def h h' Let_def if_False if_True simp_thms)
  ultimately show ?thesis by (simp only: split: if_split) blast
qed

subsection \<open>Properties\<close>

definition sample_frame :: "u64 \<Rightarrow> intr_frame" where
  "sample_frame v = \<lparr>r15 = 0, r14 = 0, r13 = 0, r12 = 0, r11 = 0, r10 = 0, r9 = 0, r8 = 0,
     rsi = 0, rdi = 0, rbp = 0, rdx = 0, rcx = 0, rbx = 0, rax = 0, vector = v, error_code = 0,
     rip = 0x100000, cs = 8, rflags = 2, rsp = 0x9000, ss = 16\<rparr>"

definition sample_intr :: intr_state where
  "sample_intr = fb_state.extend (fb_state.truncate (sample_fb False))
     \<lparr>idt = replicate 256 (gate_of 0), gdt = [], gdt_active = False, idt_active = False,
      if_flag = True, halted = False\<rparr>"

lemma sample_intr_simps [simp]:
  "io_trace sample_intr = []" "timer_ticks sample_intr = 0" "screen_w sample_intr = 16"
  "screen_h sample_intr = 16" "fb_pitch_val sample_intr = 64" "fb sample_intr = 0x100000"
  "\<not> use_double_buffer sample_intr" "length (idt sample_intr) = 256" "ram sample_intr = (\<lambda>a. ucast a)"
  by (simp_all add: sample_intr_def sample_fb_def fb_state.defs)

lemma sample_intr_ok: "fb_ok sample_intr"
  by (simp add: fb_ok_def fb_target_def)



text \<open>C27: on a processor exception, and on any vector above 47 except 0xFFFF, the kernel
  halts with interrupts off; the report changes no memory outside the current framebuffer, and
  no interrupt is acknowledged.\<close>

theorem isr_exception_halts:
  assumes "vector frame < 32 \<or> 48 \<le> vector frame \<and> vector frame \<noteq> 0xFFFF"
    and "fb_ok s" "use_double_buffer s \<longrightarrow> back_buffer s \<noteq> 0"
  shows "halted (isr_handler E cr2 frame s) \<and> \<not> if_flag (isr_handler E cr2 frame s) \<and>
    byte_outputs (io_trace (isr_handler E cr2 frame s)) =
      byte_outputs (io_trace s) @ map (Pair COM1) (isr_banner (vector frame)) \<and>
    (\<forall>a. unat (screen_h s) * unat (fb_pitch_val s) \<le> unat (a - fb_target s) \<longrightarrow>
      ram (isr_handler E cr2 frame s) a = ram s a)"
proof -
  obtain h u where t: "isr_handler E cr2 frame s = u\<lparr>halted := True\<rparr>"
    and u: "fb_draws (s\<lparr>io_trace := h, if_flag := False\<rparr>) u"
    and b: "byte_outputs h = byte_outputs (io_trace s) @ map (Pair COM1) (isr_banner (vector frame))"
    using isr_handler_panic [OF assms] by blast
  have e: "u = s\<lparr>io_trace := h, if_flag := False, ram := ram u\<rparr>" using u by (simp add: fb_draws_def)
  have f: "\<not> if_flag u" "io_trace u = h"
    using arg_cong [OF e, of if_flag] arg_cong [OF e, of io_trace] by simp_all
  show ?thesis using u b by (simp add: t f fb_draws_def fb_target_def)
qed

theorem isr_exception_halts_witness:
  "halted (isr_handler (\<lambda>_ _. 0) 0 (sample_frame 13) sample_intr) \<and>
   ram (isr_handler (\<lambda>_ _. 0) 0 (sample_frame 13) sample_intr) 0x100401 = 1"
  using isr_exception_halts [of "sample_frame 13" sample_intr "\<lambda>_ _. 0" 0] sample_intr_ok
  by (simp add: sample_frame_def fb_target_def)

text \<open>C28: after \<open>intr_init\<close> entry \<open>i\<close> of the descriptor table is a present ring-0
  interrupt gate of the kernel code segment that leads to \<open>isr_i\<close> below 48 and to the
  unhandled stub from there on, the table is loaded, and the last bytes written mask every
  interrupt line.\<close>

theorem intr_init_gates:
  assumes "length (idt s) = IDT_ENTRIES" "i < IDT_ENTRIES"
  shows "gate_target (idt (intr_init E isr unhandled s) ! i) = (if i < 48 then isr i else unhandled) \<and>
    selector (idt (intr_init E isr unhandled s) ! i) = 8 \<and>
    type_attr (idt (intr_init E isr unhandled s) ! i) = 0x8E \<and>
    idt_active (intr_init E isr unhandled s) \<and>
    (\<exists>outs. byte_outputs (io_trace (intr_init E isr unhandled s)) =
      byte_outputs (io_trace s) @ outs @ [(PIC1_DATA, 0xFF), (PIC2_DATA, 0xFF)])"
proof -
  have tr: "io_trace (fold (\<lambda>i. idt_set_gate i (f i)) is u) = io_trace u"
    for f "is" and u :: "'a intr_state_scheme"
    by (induction "is" arbitrary: u) (simp_all add: idt_set_gate_def)
  define u where "u = fold (\<lambda>i. idt_set_gate i (isr i)) [0..<48]
      (fold (\<lambda>i. idt_set_gate i unhandled) [0..<IDT_ENTRIES] (gdt_init s))"
  have "io_trace u = io_trace (gdt_init s)" unfolding u_def by (simp only: tr)
  then have u: "io_trace u = io_trace s" by (simp add: gdt_init_def)
  have i: "intr_init E isr unhandled s =
      idt_load (outb PIC2_DATA 0xFF (outb PIC1_DATA 0xFF (pic_remap E 32 (32 + 8) u)))"
    by (simp only: intr_init_def Let_def u_def)
  have o: "\<exists>outs. byte_outputs (io_trace (intr_init E isr unhandled s)) =
      byte_outputs (io_trace s) @ outs @ [(PIC1_DATA, 0xFF), (PIC2_DATA, 0xFF)]"
    using pic_remap_outputs [of E 32 "32 + 8" u] unfolding i by (auto simp: u)
  have "idt_active (intr_init E isr unhandled s)"
    by (simp add: intr_init_def idt_load_def Let_def)
  then show ?thesis using assms(2) o
    by (simp add: intr_init_idt [OF assms(1)] gate_target_of) (simp add: gate_of_def)
qed

theorem intr_init_gates_witness:
  "gate_target (idt (intr_init (\<lambda>_ _. 0) (\<lambda>i. 0x100000 + 16 * of_nat i) 0x200000 sample_intr) ! 33) = 0x100210 \<and>
   gate_target (idt (intr_init (\<lambda>_ _. 0) (\<lambda>i. 0x100000 + 16 * of_nat i) 0x200000 sample_intr) ! 200) = 0x200000"
  using intr_init_gates [of sample_intr 33] intr_init_gates [of sample_intr 200] by (simp add: IDT_ENTRIES_def)

text \<open>\<open>append_dec\<close> never writes outside the buffer, appends the decimal digits of the
  value cut to the room left, and those digits denote the value for all 64-bit values.\<close>

theorem append_dec_decimal:
  assumes "line_ok cap l"
  shows "line_ok cap (append_dec cap v l) \<and>
    line_content (append_dec cap v l) = take (unat cap - 1) (line_content l @ dec_text v) \<and>
    dec_value (rev (dec_text v)) = unat v"
  using append_dec_spec [OF assms] append_dec_value by blast

theorem append_dec_decimal_witness:
  "line_content (append_dec 72 1234 empty_line) = asc ''1234''"
proof -
  have "line_ok 72 empty_line" by (simp add: line_ok_def empty_line_def)
  moreover have "line_content empty_line = []" by (simp add: line_content_def empty_line_def)
  moreover have "dec_text 1234 = asc ''1234''" by code_simp
  moreover have "take 71 (asc ''1234'') = asc ''1234''" by (simp add: asc_def)
  ultimately show ?thesis using append_dec_decimal [of 72 empty_line 1234] by simp
qed

text \<open>\<open>append_hex\<close> never writes outside the buffer and, with room for 18 characters,
  appends \<open>0x\<close> and hexadecimal digits that denote the value.\<close>

theorem append_hex_hexadecimal:
  assumes "line_ok cap l" "length (line_content l) + 18 < unat cap"
  shows "line_ok cap (append_hex cap v l) \<and>
    (\<exists>ds. line_content (append_hex cap v l) = line_content l @ asc ''0x'' @ ds \<and> hex_value (rev ds) = unat v)"
proof -
  have "unat v < 16 ^ 16" using unat_u64_bound [of v] by simp
  then have "hex_value (rev (if v = 0 then [48] else rev (hex_tmp 16 v))) = unat v"
    using hex_tmp_value [of v 16] by (simp add: hex_digit_def)
  moreover have "hex_text v = asc ''0x'' @ (if v = 0 then [48] else rev (hex_tmp 16 v))"
    by (simp add: hex_text_def asc_def)
  ultimately show ?thesis using append_hex_ok [OF assms(1)] append_hex_content [OF assms] by metis
qed

theorem append_hex_hexadecimal_witness:
  "\<exists>ds. line_content (append_hex 72 0xBEEF empty_line) = asc ''0x'' @ ds \<and> hex_value (rev ds) = 0xBEEF"
proof -
  have "line_ok 72 empty_line" by (simp add: line_ok_def empty_line_def)
  moreover have "line_content empty_line = []" by (simp add: line_content_def empty_line_def)
  ultimately show ?thesis using append_hex_hexadecimal [of 72 empty_line "0xBEEF"] by simp
qed

end
