(* ===== verification/Pci.thy ===== *)
theory Pci
  imports Interrupts
begin

section \<open>\<^verbatim>\<open>pci.c\<close>: configuration space and bus scan\<close>

text \<open>
  A configuration register is read by writing its address to port \<open>0xCF8\<close> and reading port
  \<open>0xCFC\<close>. The table of devices is the array \<open>pci_devices\<close> with the count of its used
  entries; the count never exceeds the array (\<open>pci_table_ok\<close>), so it is a natural number.
  The scan does not stop early; only the log output of \<open>pci_init\<close> can fail to end, so
  \<open>pci_init\<close> is an option. The reads whose results the code drops are kept.
\<close>

record pci_device =
  dev_bus :: u8
  dev_device :: u8
  dev_function :: u8
  vendor_id :: u16
  device_id :: u16
  dev_class :: u8
  sub_class :: u8
  prog_if :: u8
  header_type :: u8
  bar0 :: u32
  bar1 :: u32
  bar2 :: u32
  bar3 :: u32
  bar4 :: u32
  bar5 :: u32
  dev_command :: u16
  status_reg :: u16
  irq_line :: u8
  irq_pin :: u8
  revision_id :: u8
  cache_line_size :: u8
  latency_timer :: u8
  bist :: u8

record pci_state = intr_state +
  pci_devices :: "pci_device list"
  pci_device_count :: nat

abbreviation PCI_CONFIG_ADDRESS :: u16 where "PCI_CONFIG_ADDRESS \<equiv> 0xCF8"
abbreviation PCI_CONFIG_DATA :: u16 where "PCI_CONFIG_DATA \<equiv> 0xCFC"
abbreviation PCI_VENDOR_INVALID :: u16 where "PCI_VENDOR_INVALID \<equiv> 0xFFFF"
definition PCI_MAX_DEVICES :: nat where "PCI_MAX_DEVICES = 64"

subsection \<open>Configuration space\<close>

definition pci_address :: "u8 \<Rightarrow> u8 \<Rightarrow> u8 \<Rightarrow> u8 \<Rightarrow> u32" where
  "pci_address bus device func offset =
     (0x80000000 OR push_bit 16 (ucast bus) OR push_bit 11 (ucast device)
       OR push_bit 8 (ucast func) OR ucast (offset AND 0xFC))"

definition pci_config_read ::
  "io_env \<Rightarrow> u8 \<Rightarrow> u8 \<Rightarrow> u8 \<Rightarrow> u8 \<Rightarrow> 'a machine_scheme \<Rightarrow> u32 \<times> 'a machine_scheme" where
  "pci_config_read E bus device func offset s =
     inl E PCI_CONFIG_DATA (outl PCI_CONFIG_ADDRESS (pci_address bus device func offset) s)"

definition pci_config_write ::
  "u8 \<Rightarrow> u8 \<Rightarrow> u8 \<Rightarrow> u8 \<Rightarrow> u32 \<Rightarrow> 'a machine_scheme \<Rightarrow> 'a machine_scheme" where
  "pci_config_write bus device func offset v s =
     outl PCI_CONFIG_DATA v (outl PCI_CONFIG_ADDRESS (pci_address bus device func offset) s)"

definition pci_read_device ::
  "io_env \<Rightarrow> pci_device \<Rightarrow> 'a machine_scheme \<Rightarrow> pci_device \<times> 'a machine_scheme" where
  "pci_read_device E dev s =
     (let rd = pci_config_read E (dev_bus dev) (dev_device dev) (dev_function dev);
          (reg0, s) = rd 0x00 s;
          (reg8, s) = rd 0x08 s;
          (regC, s) = rd 0x0C s;
          (reg10, s) = rd 0x10 s;
          (reg14, s) = rd 0x14 s;
          (reg18, s) = rd 0x18 s;
          (reg1C, s) = rd 0x1C s;
          (reg20, s) = rd 0x20 s;
          (reg24, s) = rd 0x24 s;
          dev = dev\<lparr>vendor_id := ucast (reg0 AND 0xFFFF),
                    device_id := ucast (drop_bit 16 reg0 AND 0xFFFF),
                    dev_command := ucast (regC AND 0xFFFF),
                    status_reg := ucast (drop_bit 16 regC AND 0xFFFF),
                    revision_id := ucast (reg8 AND 0xFF),
                    prog_if := ucast (drop_bit 8 reg8 AND 0xFF),
                    sub_class := ucast (drop_bit 16 reg8 AND 0xFF),
                    dev_class := ucast (drop_bit 24 reg8 AND 0xFF),
                    cache_line_size := ucast (regC AND 0xFF),
                    latency_timer := ucast (drop_bit 8 regC AND 0xFF),
                    header_type := ucast (drop_bit 16 regC AND 0xFF),
                    bist := ucast (drop_bit 24 regC AND 0xFF),
                    bar0 := reg10, bar1 := reg14, bar2 := reg18,
                    bar3 := reg1C, bar4 := reg20, bar5 := reg24\<rparr>;
          (reg3C, s) = rd 0x3C s
      in (dev\<lparr>irq_line := ucast (reg3C AND 0xFF), irq_pin := ucast (drop_bit 8 reg3C AND 0xFF)\<rparr>, s))"

subsection \<open>The scan\<close>

definition pci_check_device ::
  "io_env \<Rightarrow> u8 \<Rightarrow> u8 \<Rightarrow> u8 \<Rightarrow> 'a pci_state_scheme \<Rightarrow> 'a pci_state_scheme" where
  "pci_check_device E bus device func s =
     (let (reg0, s) = pci_config_read E bus device func 0x00 s
      in if (ucast (reg0 AND 0xFFFF) :: u16) = PCI_VENDOR_INVALID then s
         else if PCI_MAX_DEVICES \<le> pci_device_count s then s
         else let k = pci_device_count s;
                  s = s\<lparr>pci_device_count := k + 1\<rparr>;
                  dev = (pci_devices s ! k)\<lparr>dev_bus := bus, dev_device := device, dev_function := func\<rparr>;
                  (dev, s) = pci_read_device E dev s;
                  s = s\<lparr>pci_devices := (pci_devices s)[k := dev]\<rparr>;
                  (regC, s) = pci_config_read E bus device func 0x0C s
              in s)"

definition pci_check_function ::
  "io_env \<Rightarrow> u8 \<Rightarrow> u8 \<Rightarrow> u8 \<Rightarrow> 'a pci_state_scheme \<Rightarrow> 'a pci_state_scheme" where
  "pci_check_function E bus device func s =
     (let (reg0, s) = pci_config_read E bus device func 0x00 s
      in if (ucast (reg0 AND 0xFFFF) :: u16) \<noteq> PCI_VENDOR_INVALID
         then pci_check_device E bus device func s else s)"

definition pci_check_slot :: "io_env \<Rightarrow> u8 \<Rightarrow> u8 \<Rightarrow> 'a pci_state_scheme \<Rightarrow> 'a pci_state_scheme" where
  "pci_check_slot E bus device s =
     (let (reg0, s) = pci_config_read E bus device 0 0x00 s
      in if (ucast (reg0 AND 0xFFFF) :: u16) = PCI_VENDOR_INVALID then s
         else let s = pci_check_device E bus device 0 s;
                  (regC, s) = pci_config_read E bus device 0 0x0C s;
                  ht = (ucast (drop_bit 16 regC AND 0xFF) :: u8)
              in if ht AND 0x80 \<noteq> 0
                 then fold (\<lambda>f. pci_check_function E bus device (of_nat f)) [1..<8] s
                 else s)"

definition pci_check_bus :: "io_env \<Rightarrow> u8 \<Rightarrow> 'a pci_state_scheme \<Rightarrow> 'a pci_state_scheme" where
  "pci_check_bus E bus s = fold (\<lambda>d. pci_check_slot E bus (of_nat d)) [0..<32] s"

definition pci_count_text :: "nat \<Rightarrow> u8 list" where
  "pci_count_text n =
     (let v = of_nat n :: u32
      in if v = 0 then [48] else rev (dec_tmp 16 (ucast v)))"

definition pci_check_other_buses :: "io_env \<Rightarrow> 'a pci_state_scheme \<Rightarrow> 'a pci_state_scheme" where
  "pci_check_other_buses E s =
     (let (reg0, s) = pci_config_read E 0 0 0 0x0C s;
          ht = (ucast (drop_bit 16 reg0 AND 0xFF) :: u8)
      in if ht AND 0x80 = 0 then s
         else fold (\<lambda>b. pci_check_bus E (of_nat b)) [1..<255] s)"

definition pci_init :: "io_env \<Rightarrow> 'a pci_state_scheme \<Rightarrow> 'a pci_state_scheme option" where
  "pci_init E s = do {
     let s = s\<lparr>pci_device_count := 0\<rparr>;
     s \<leftarrow> serial_puts E (asc ''[PCI] start'' @ [10]) s;
     let s = pci_check_bus E 0 s;
     s \<leftarrow> serial_puts E (asc ''[PCI] bus 0 done'' @ [10]) s;
     let s = pci_check_other_buses E s;
     s \<leftarrow> serial_puts E (asc ''[PCI] done, count='') s;
     s \<leftarrow> serial_puts E (pci_count_text (pci_device_count s)) s;
     serial_puts E [10] s
   }"

definition pci_class_name :: "u8 \<Rightarrow> u8 \<Rightarrow> u8 \<Rightarrow> u8 list" where
  "pci_class_name class_code sub prog =
     (if class_code = 0x00 then (if sub = 0x00 then asc ''Legacy Device'' else asc ''VGA-Compatible'')
      else if class_code = 0x01 then
        (if sub = 0x00 then asc ''SCSI''
         else if sub = 0x01 then asc ''IDE''
         else if sub = 0x06 then asc ''SATA (AHCI)''
         else if sub = 0x08 then asc ''NVMe''
         else asc ''Mass Storage'')
      else if class_code = 0x02 then asc ''Network''
      else if class_code = 0x03 then
        (if sub = 0x00 then asc ''VGA'' else if sub = 0x80 then asc ''Display'' else asc ''Display'')
      else if class_code = 0x04 then asc ''Multimedia''
      else if class_code = 0x05 then asc ''Memory''
      else if class_code = 0x06 then
        (if sub = 0x00 then asc ''Host Bridge''
         else if sub = 0x01 then asc ''ISA Bridge''
         else if sub = 0x04 then asc ''PCI-to-PCI Bridge''
         else if sub = 0x80 then asc ''Bridge''
         else asc ''Bridge'')
      else if class_code = 0x07 then
        (if sub = 0x00 then asc ''Serial (UART)''
         else if sub = 0x01 then asc ''Parallel''
         else if sub = 0x03 then asc ''Multiport Serial''
         else asc ''Communication'')
      else if class_code = 0x08 then
        (if sub = 0x00 then asc ''PIC''
         else if sub = 0x01 then asc ''DMA''
         else if sub = 0x02 then asc ''Timer''
         else if sub = 0x03 then asc ''RTC''
         else if sub = 0x04 then asc ''PCI Hotplug''
         else if sub = 0x05 then asc ''SD Host''
         else if sub = 0x06 then asc ''IOMMU''
         else asc ''System'')
      else if class_code = 0x09 then asc ''Input''
      else if class_code = 0x0C then (if sub = 0x03 then asc ''USB'' else asc ''Serial Bus'')
      else if class_code = 0xFF then asc ''Unassigned''
      else asc ''Unknown'')"

subsection \<open>What the configuration mechanism promises\<close>

text \<open>
  After an address has been written, the data port answers with the register it selects.
  The host bridge is hardware; this is its documented behaviour, for registers \<open>cfg\<close> that the
  scan itself does not change.
\<close>

definition pci_answers :: "io_env \<Rightarrow> (u32 \<Rightarrow> u32) \<Rightarrow> bool" where
  "pci_answers E cfg \<longleftrightarrow> (\<forall>a h. E (OutL PCI_CONFIG_ADDRESS a # h) PCI_CONFIG_DATA = cfg a)"

definition config_events :: "(u32 \<Rightarrow> u32) \<Rightarrow> u32 \<Rightarrow> io_event list" where
  "config_events cfg a = [InL PCI_CONFIG_DATA (cfg a), OutL PCI_CONFIG_ADDRESS a]"

lemma pci_config_read_spec:
  assumes "pci_answers E cfg"
  shows "pci_config_read E b d f r s =
    (cfg (pci_address b d f r), s\<lparr>io_trace := config_events cfg (pci_address b d f r) @ io_trace s\<rparr>)"
  using assms by (simp add: pci_config_read_def pci_answers_def inl_def outl_def config_events_def Let_def)

lemma byte_outputs_config [simp]: "byte_outputs (config_events cfg a @ h) = byte_outputs h"
  by (simp add: config_events_def)

text \<open>The entry the code makes of the registers of one function.\<close>

definition device_of :: "(u32 \<Rightarrow> u32) \<Rightarrow> u8 \<Rightarrow> u8 \<Rightarrow> u8 \<Rightarrow> pci_device" where
  "device_of cfg b d f =
     (let r = (\<lambda>i. cfg (pci_address b d f i))
      in \<lparr>dev_bus = b, dev_device = d, dev_function = f,
          vendor_id = ucast (r 0x00 AND 0xFFFF), device_id = ucast (drop_bit 16 (r 0x00) AND 0xFFFF),
          dev_class = ucast (drop_bit 24 (r 0x08) AND 0xFF), sub_class = ucast (drop_bit 16 (r 0x08) AND 0xFF),
          prog_if = ucast (drop_bit 8 (r 0x08) AND 0xFF), header_type = ucast (drop_bit 16 (r 0x0C) AND 0xFF),
          bar0 = r 0x10, bar1 = r 0x14, bar2 = r 0x18, bar3 = r 0x1C, bar4 = r 0x20, bar5 = r 0x24,
          dev_command = ucast (r 0x0C AND 0xFFFF), status_reg = ucast (drop_bit 16 (r 0x0C) AND 0xFFFF),
          irq_line = ucast (r 0x3C AND 0xFF), irq_pin = ucast (drop_bit 8 (r 0x3C) AND 0xFF),
          revision_id = ucast (r 0x08 AND 0xFF), cache_line_size = ucast (r 0x0C AND 0xFF),
          latency_timer = ucast (drop_bit 8 (r 0x0C) AND 0xFF), bist = ucast (drop_bit 24 (r 0x0C) AND 0xFF)\<rparr>)"

lemma pci_read_device_spec:
  assumes "pci_answers E cfg"
  shows "\<exists>h. pci_read_device E dev s =
      (device_of cfg (dev_bus dev) (dev_device dev) (dev_function dev), s\<lparr>io_trace := h\<rparr>) \<and>
    byte_outputs h = byte_outputs (io_trace s)"
  by (cases dev, simp add: pci_read_device_def pci_config_read_spec [OF assms] device_of_def Let_def)
    (intro exI conjI, rule refl, simp)

subsection \<open>The scan in terms of the registers\<close>

definition pci_exists :: "(u32 \<Rightarrow> u32) \<Rightarrow> u8 \<Rightarrow> u8 \<Rightarrow> u8 \<Rightarrow> bool" where
  "pci_exists cfg b d f \<longleftrightarrow> (ucast (cfg (pci_address b d f 0) AND 0xFFFF) :: u16) \<noteq> PCI_VENDOR_INVALID"

definition pci_multi :: "(u32 \<Rightarrow> u32) \<Rightarrow> u8 \<Rightarrow> u8 \<Rightarrow> bool" where
  "pci_multi cfg b d \<longleftrightarrow>
     (ucast (drop_bit 16 (cfg (pci_address b d 0 0x0C)) AND 0xFF) :: u8) AND 0x80 \<noteq> 0"

definition slot_functions :: "(u32 \<Rightarrow> u32) \<Rightarrow> u8 \<Rightarrow> u8 \<Rightarrow> u8 list" where
  "slot_functions cfg b d =
     (if pci_exists cfg b d 0
      then 0 # (if pci_multi cfg b d then filter (pci_exists cfg b d) (map of_nat [1..<8]) else [])
      else [])"

definition bus_devices :: "(u32 \<Rightarrow> u32) \<Rightarrow> u8 \<Rightarrow> pci_device list" where
  "bus_devices cfg b =
     concat (map (\<lambda>d. map (device_of cfg b (of_nat d)) (slot_functions cfg b (of_nat d))) [0..<32])"

definition scanned_buses :: "(u32 \<Rightarrow> u32) \<Rightarrow> nat list" where
  "scanned_buses cfg = 0 # (if pci_multi cfg 0 0 then [1..<255] else [])"

definition pci_present :: "(u32 \<Rightarrow> u32) \<Rightarrow> pci_device list" where
  "pci_present cfg = concat (map (\<lambda>b. bus_devices cfg (of_nat b)) (scanned_buses cfg))"

definition pci_table :: "'a pci_state_scheme \<Rightarrow> pci_device list" where
  "pci_table s = take (pci_device_count s) (pci_devices s)"

definition pci_table_ok :: "'a pci_state_scheme \<Rightarrow> bool" where
  "pci_table_ok s \<longleftrightarrow> length (pci_devices s) = PCI_MAX_DEVICES \<and> pci_device_count s \<le> PCI_MAX_DEVICES"

text \<open>From \<open>s\<close> to \<open>t\<close> the scan adds the devices \<open>xs\<close>, as far as there is room, and otherwise
  changes only the history of port accesses, with no byte written.\<close>

definition pci_adds :: "'a pci_state_scheme \<Rightarrow> 'a pci_state_scheme \<Rightarrow> pci_device list \<Rightarrow> bool" where
  "pci_adds s t xs \<longleftrightarrow>
     t = s\<lparr>io_trace := io_trace t, pci_devices := pci_devices t, pci_device_count := pci_device_count t\<rparr> \<and>
     byte_outputs (io_trace t) = byte_outputs (io_trace s) \<and>
     pci_table_ok t \<and> pci_table t = take PCI_MAX_DEVICES (pci_table s @ xs)"

lemma pci_adds_trace:
  "pci_table_ok s \<Longrightarrow> byte_outputs h = byte_outputs (io_trace s) \<Longrightarrow> pci_adds s (s\<lparr>io_trace := h\<rparr>) []"
  by (simp add: pci_adds_def pci_table_ok_def pci_table_def)

lemma pci_adds_trans:
  assumes "pci_adds s t xs" "pci_adds t u ys"
  shows "pci_adds s u (xs @ ys)"
proof -
  let ?upd = "\<lambda>v. v\<lparr>io_trace := io_trace u, pci_devices := pci_devices u, pci_device_count := pci_device_count u\<rparr>"
  have t: "t = s\<lparr>io_trace := io_trace t, pci_devices := pci_devices t, pci_device_count := pci_device_count t\<rparr>"
    and u: "u = ?upd t" using assms by (simp_all only: pci_adds_def)
  have "u = ?upd s" using trans [OF u arg_cong [OF t, of ?upd]] by simp
  then show ?thesis using assms by (simp add: pci_adds_def min_def)
qed

lemma length_pci_table: "pci_table_ok s \<Longrightarrow> length (pci_table s) = pci_device_count s"
  by (simp add: pci_table_ok_def pci_table_def)

lemma pci_adds_refl: "pci_table_ok s \<Longrightarrow> pci_adds s s []"
  using pci_adds_trace [of s "io_trace s"] by simp

lemma pci_adds_ok: "pci_adds s t xs \<Longrightarrow> pci_table_ok t"
  by (simp add: pci_adds_def)

lemma pci_adds_fold:
  assumes "pci_table_ok s"
    and "\<And>i t. i \<in> set is \<Longrightarrow> pci_table_ok t \<Longrightarrow> pci_adds t (step i t) (g i)"
  shows "pci_adds s (fold step is s) (concat (map g is))"
  using assms
proof (induction "is" arbitrary: s)
  case Nil
  then show ?case by (simp add: pci_adds_refl)
next
  case (Cons i "is")
  have one: "pci_adds s (step i s) (g i)" using Cons.prems by simp
  have "pci_adds (step i s) (fold step is (step i s)) (concat (map g is))"
    using Cons.prems by (intro Cons.IH pci_adds_ok [OF one]) simp_all
  then show ?case using pci_adds_trans [OF one] by simp
qed

lemma pci_adds_device:
  assumes "pci_answers E cfg" "pci_table_ok s"
  shows "pci_adds s (pci_check_device E b d f s) (if pci_exists cfg b d f then [device_of cfg b d f] else [])"
proof -
  note rd = pci_config_read_spec [OF assms(1)]
  let ?ev = "\<lambda>r. config_events cfg (pci_address b d f r)"
  consider "\<not> pci_exists cfg b d f" | "pci_exists cfg b d f" "PCI_MAX_DEVICES \<le> pci_device_count s"
    | "pci_exists cfg b d f" "pci_device_count s < PCI_MAX_DEVICES" by force
  then show ?thesis
  proof cases
    case 1
    then show ?thesis using assms(2)
      by (simp add: pci_check_device_def rd pci_exists_def pci_adds_trace)
  next
    case 2
    have "pci_adds s (s\<lparr>io_trace := ?ev 0 @ io_trace s\<rparr>) []" using assms(2) by (simp add: pci_adds_trace)
    moreover have "length (pci_table s) = PCI_MAX_DEVICES"
      using length_pci_table [OF assms(2)] assms(2) 2(2) by (simp add: pci_table_ok_def)
    ultimately have "pci_adds s (s\<lparr>io_trace := ?ev 0 @ io_trace s\<rparr>) [device_of cfg b d f]"
      by (simp add: pci_adds_def)
    then show ?thesis using 2 by (simp add: pci_check_device_def rd pci_exists_def)
  next
    case 3
    define k where "k = pci_device_count s"
    define dev where "dev = (pci_devices s ! k)\<lparr>dev_bus := b, dev_device := d, dev_function := f\<rparr>"
    define v where "v = s\<lparr>io_trace := ?ev 0 @ io_trace s, pci_device_count := k + 1\<rparr>"
    obtain h where h: "pci_read_device E dev v = (device_of cfg b d f, v\<lparr>io_trace := h\<rparr>)"
      "byte_outputs h = byte_outputs (io_trace s)"
      using pci_read_device_spec [OF assms(1), of dev v] by (auto simp: dev_def v_def)
    have "pci_check_device E b d f s =
        v\<lparr>io_trace := ?ev 0x0C @ h, pci_devices := (pci_devices s)[k := device_of cfg b d f]\<rparr>"
      using 3 h(1) unfolding pci_check_device_def rd
      by (simp add: rd pci_exists_def k_def [symmetric] v_def [symmetric] dev_def [symmetric])
        (simp add: v_def)
    moreover have "take (Suc k) ((pci_devices s)[k := device_of cfg b d f]) =
        take k (pci_devices s) @ [device_of cfg b d f]"
      using 3(2) assms(2) by (simp add: take_Suc_conv_app_nth k_def pci_table_ok_def)
    ultimately show ?thesis using 3 assms(2) h(2) length_pci_table [OF assms(2)]
      by (simp add: pci_adds_def pci_table_ok_def pci_table_def v_def k_def)
  qed
qed

lemma pci_adds_before:
  assumes "pci_adds (s\<lparr>io_trace := h\<rparr>) t xs" "byte_outputs h = byte_outputs (io_trace s)" "pci_table_ok s"
  shows "pci_adds s t xs"
  using pci_adds_trans [OF pci_adds_trace [OF assms(3,2)] assms(1)] by simp

lemma pci_adds_after:
  assumes "pci_adds s t xs" "byte_outputs h = byte_outputs (io_trace t)"
  shows "pci_adds s (t\<lparr>io_trace := h\<rparr>) xs"
  using pci_adds_trans [OF assms(1) pci_adds_trace [OF pci_adds_ok [OF assms(1)] assms(2)]] by simp

lemma pci_adds_function:
  assumes "pci_answers E cfg" "pci_table_ok s"
  shows "pci_adds s (pci_check_function E b d f s) (if pci_exists cfg b d f then [device_of cfg b d f] else [])"
proof (cases "pci_exists cfg b d f")
  case True
  let ?h = "config_events cfg (pci_address b d f 0) @ io_trace s"
  have "pci_table_ok (s\<lparr>io_trace := ?h\<rparr>)" using assms(2) by (simp add: pci_table_ok_def)
  from pci_adds_device [OF assms(1) this, of b d f]
  have "pci_adds s (pci_check_device E b d f (s\<lparr>io_trace := ?h\<rparr>)) [device_of cfg b d f]"
    using True by (intro pci_adds_before [where h = ?h, OF _ _ assms(2)]) simp_all
  then show ?thesis using True
    by (simp add: pci_check_function_def pci_config_read_spec [OF assms(1)] pci_exists_def)
next
  case False
  then show ?thesis using assms(2)
    by (simp add: pci_check_function_def pci_config_read_spec [OF assms(1)] pci_exists_def pci_adds_trace)
qed

lemma concat_map_filter:
  "concat (map (\<lambda>i. if P (h i) then [g (h i)] else []) is) = map g (filter P (map h is))"
  by (induction "is") auto

lemma pci_adds_slot:
  assumes "pci_answers E cfg" "pci_table_ok s"
  shows "pci_adds s (pci_check_slot E b d s) (map (device_of cfg b d) (slot_functions cfg b d))"
proof -
  note rd = pci_config_read_spec [OF assms(1)]
  show ?thesis
  proof (cases "pci_exists cfg b d 0")
    case False
    then show ?thesis using assms(2)
      by (simp add: pci_check_slot_def rd pci_exists_def slot_functions_def pci_adds_trace)
  next
    case True
    define v where "v = s\<lparr>io_trace := config_events cfg (pci_address b d 0 0) @ io_trace s\<rparr>"
    define w where "w = pci_check_device E b d 0 v"
    define x where "x = w\<lparr>io_trace := config_events cfg (pci_address b d 0 0x0C) @ io_trace w\<rparr>"
    have "pci_table_ok v" using assms(2) by (simp add: v_def pci_table_ok_def)
    then have "pci_adds v w [device_of cfg b d 0]" unfolding w_def
      using pci_adds_device [OF assms(1), of v b d 0] True by simp
    then have w: "pci_adds s w [device_of cfg b d 0]"
      unfolding v_def by (rule pci_adds_before [OF _ _ assms(2)]) simp
    then have x: "pci_adds s x [device_of cfg b d 0]" unfolding x_def by (rule pci_adds_after) simp
    let ?fs = "fold (\<lambda>f. pci_check_function E b d (of_nat f)) [1..<8] x"
    have "pci_adds x ?fs (concat (map (\<lambda>f. if pci_exists cfg b d (of_nat f)
        then [device_of cfg b d (of_nat f)] else []) [1..<8]))"
      by (intro pci_adds_fold pci_adds_ok [OF x] pci_adds_function assms(1))
    then have fs: "pci_adds x ?fs (map (device_of cfg b d) (filter (pci_exists cfg b d) (map of_nat [1..<8])))"
      by (simp only: concat_map_filter)
    have "pci_check_slot E b d s = (if pci_multi cfg b d then ?fs else x)"
      using True by (simp add: pci_check_slot_def rd pci_exists_def v_def [symmetric] w_def [symmetric]
          x_def [symmetric] pci_multi_def Let_def del: upt_rec_numeral)
    then show ?thesis using True pci_adds_trans [OF x fs] x
      by (simp add: slot_functions_def del: upt_rec_numeral)
  qed
qed

lemma pci_adds_bus:
  assumes "pci_answers E cfg" "pci_table_ok s"
  shows "pci_adds s (pci_check_bus E b s) (bus_devices cfg b)"
  unfolding pci_check_bus_def bus_devices_def
  by (intro pci_adds_fold assms pci_adds_slot)

definition other_devices :: "(u32 \<Rightarrow> u32) \<Rightarrow> pci_device list" where
  "other_devices cfg = concat (map (\<lambda>b. bus_devices cfg (of_nat b)) (tl (scanned_buses cfg)))"

lemma pci_present_split: "pci_present cfg = bus_devices cfg 0 @ other_devices cfg"
  by (simp add: pci_present_def other_devices_def scanned_buses_def)

lemma pci_adds_other_buses:
  assumes "pci_answers E cfg" "pci_table_ok s"
  shows "pci_adds s (pci_check_other_buses E s) (other_devices cfg)"
proof -
  define t where "t = s\<lparr>io_trace := config_events cfg (pci_address 0 0 0 0x0C) @ io_trace s\<rparr>"
  have t: "pci_adds s t []" unfolding t_def by (rule pci_adds_trace [OF assms(2)]) simp
  have "pci_adds t (fold (\<lambda>b. pci_check_bus E (of_nat b)) [1..<255] t)
      (concat (map (\<lambda>b. bus_devices cfg (of_nat b)) [1..<255]))"
    by (intro pci_adds_fold pci_adds_ok [OF t] pci_adds_bus assms(1))
  moreover have "pci_check_other_buses E s =
      (if pci_multi cfg 0 0 then fold (\<lambda>b. pci_check_bus E (of_nat b)) [1..<255] t else t)"
    by (simp add: pci_check_other_buses_def pci_config_read_spec [OF assms(1)] t_def [symmetric]
        pci_multi_def Let_def del: upt_rec_numeral)
  ultimately show ?thesis using t pci_adds_trans [OF t]
    by (simp add: other_devices_def scanned_buses_def del: upt_rec_numeral)
qed

lemma pci_adds_ram: "pci_adds s t xs \<Longrightarrow> ram t = ram s"
  unfolding pci_adds_def by (elim conjE, drule arg_cong [of _ _ ram], simp)

lemma pci_adds_outputs: "pci_adds s t xs \<Longrightarrow> byte_outputs (io_trace t) = byte_outputs (io_trace s)"
  by (simp only: pci_adds_def)

lemma pci_adds_table: "pci_adds s t xs \<Longrightarrow> pci_table t = take PCI_MAX_DEVICES (pci_table s @ xs)"
  by (simp only: pci_adds_def)

lemma pci_table_trace [simp]: "pci_table (s\<lparr>io_trace := h\<rparr>) = pci_table s"
  by (simp add: pci_table_def)

lemma pci_init_returns:
  assumes "uart_responsive E"
  shows "\<exists>t. pci_init E s = Some t"
proof -
  have "\<exists>t. serial_puts E cs v = Some t" for cs and v :: "'a pci_state_scheme"
    using serial_puts_spec [OF assms, of cs v] by blast
  then show ?thesis unfolding pci_init_def Let_def by (intro bind_returns)
qed

subsection \<open>Any host bridge\<close>

text \<open>Without a hypothesis on the bridge: the table never overflows.\<close>

lemma config_read_keeps:
  "pci_table_ok (snd (pci_config_read E b d f r s)) = pci_table_ok s"
  by (simp add: pci_config_read_def inl_def outl_def Let_def pci_table_ok_def)

definition read_trace :: "io_env \<Rightarrow> u32 \<Rightarrow> io_event list \<Rightarrow> io_event list" where
  "read_trace E a h =
     InL PCI_CONFIG_DATA (E (OutL PCI_CONFIG_ADDRESS a # h) PCI_CONFIG_DATA) # OutL PCI_CONFIG_ADDRESS a # h"

lemma pci_config_read_trace:
  "pci_config_read E b d f r s =
     (E (OutL PCI_CONFIG_ADDRESS (pci_address b d f r) # io_trace s) PCI_CONFIG_DATA,
      s\<lparr>io_trace := read_trace E (pci_address b d f r) (io_trace s)\<rparr>)"
  by (simp add: pci_config_read_def inl_def outl_def Let_def read_trace_def)

lemma read_device_keeps: "\<exists>h. snd (pci_read_device E dev s) = s\<lparr>io_trace := h\<rparr>"
  by (simp add: pci_read_device_def pci_config_read_trace Let_def) (intro exI, rule refl)

lemma check_device_ok: "pci_table_ok s \<Longrightarrow> pci_table_ok (pci_check_device E b d f s)"
proof -
  assume ok: "pci_table_ok s"
  define v where "v = snd (pci_config_read E b d f 0 s)"
  have v: "pci_table_ok v" using ok by (simp add: v_def config_read_keeps)
  show ?thesis
    using v read_device_keeps [of E "(pci_devices v ! pci_device_count v)
        \<lparr>dev_bus := b, dev_device := d, dev_function := f\<rparr>" "v\<lparr>pci_device_count := pci_device_count v + 1\<rparr>"]
    by (auto simp: pci_check_device_def split_beta Let_def v_def [symmetric] config_read_keeps)
       (auto simp: pci_table_ok_def)
qed

lemma check_function_ok: "pci_table_ok s \<Longrightarrow> pci_table_ok (pci_check_function E b d f s)"
  by (simp add: pci_check_function_def split_beta Let_def check_device_ok config_read_keeps)

lemma check_slot_ok: "pci_table_ok s \<Longrightarrow> pci_table_ok (pci_check_slot E b d s)"
  by (simp add: pci_check_slot_def split_beta Let_def check_device_ok config_read_keeps check_function_ok
      fold_keeps [of pci_table_ok] del: upt_rec_numeral)

lemma check_bus_ok: "pci_table_ok s \<Longrightarrow> pci_table_ok (pci_check_bus E b s)"
  by (simp add: pci_check_bus_def check_slot_ok fold_keeps [of pci_table_ok] del: upt_rec_numeral)

lemma check_other_buses_ok: "pci_table_ok s \<Longrightarrow> pci_table_ok (pci_check_other_buses E s)"
  unfolding pci_check_other_buses_def
  by (auto simp: split_beta Let_def config_read_keeps check_bus_ok
      intro!: fold_keeps [of pci_table_ok] simp del: upt_rec_numeral)

subsection \<open>Properties\<close>

definition pci_messages :: "nat \<Rightarrow> u8 list" where
  "pci_messages n = asc ''[PCI] start'' @ [10] @ asc ''[PCI] bus 0 done'' @ [10] @
     asc ''[PCI] done, count='' @ pci_count_text n @ [10]"

lemma crlf_append: "crlf (xs @ ys) = crlf xs @ crlf ys"
  by (induction xs) auto

definition sample_cfg :: "u32 \<Rightarrow> u32" where
  "sample_cfg a =
     (if a = 0x80000000 then 0x12378086
      else if a = 0x80000008 then 0x06000002
      else if a = 0x80001800 then 0x10D38086
      else if a = 0x80001808 then 0x02000000
      else if a AND 0xFF = 0x0C then 0
      else 0xFFFFFFFF)"

definition sample_pci_env :: io_env where
  "sample_pci_env h p =
     (if p = PCI_CONFIG_DATA then (case h of OutL q a # _ \<Rightarrow> sample_cfg a | _ \<Rightarrow> 0) else 0x20)"

definition sample_pci :: pci_state where
  "sample_pci = intr_state.extend (intr_state.truncate sample_intr)
     \<lparr>pci_devices = replicate 64 (device_of sample_cfg 0 0 0), pci_device_count = 0\<rparr>"


lemma sample_pci_answers: "pci_answers sample_pci_env sample_cfg" "uart_responsive sample_pci_env"
proof -
  show "pci_answers sample_pci_env sample_cfg" by (simp add: pci_answers_def sample_pci_env_def)
  have "lsr_ready sample_pci_env h" for h by (simp add: lsr_ready_def sample_pci_env_def)
  then show "uart_responsive sample_pci_env" unfolding uart_responsive_def by (metis lsr_polls.simps(1))
qed




lemma bit_pci_address:
  "bit (pci_address b d f r) k \<longleftrightarrow> k = 31 \<or> 16 \<le> k \<and> k < 32 \<and> bit b (k - 16) \<or>
     11 \<le> k \<and> k < 32 \<and> bit d (k - 11) \<or> 8 \<le> k \<and> k < 32 \<and> bit f (k - 8) \<or> bit r k \<and> 2 \<le> k"
proof -
  have h: "bit (0x80000000 :: u32) k \<longleftrightarrow> k = 31"
  proof -
    have "(0x80000000 :: u32) = push_bit 31 1" by simp
    then show ?thesis by (simp only: bit_push_bit_iff bit_1_iff) auto
  qed
  have fc: "bit (0xFC :: u8) k \<longleftrightarrow> 2 \<le> k \<and> k < 8"
  proof -
    have "(0xFC :: u8) = push_bit 2 (mask 6)" by (simp add: mask_eq_exp_minus_1)
    then show ?thesis by (simp only: bit_push_bit_iff bit_mask_iff) auto
  qed
  show ?thesis
    unfolding pci_address_def bit_or_iff h bit_push_bit_iff bit_unsigned_iff bit_and_iff fc
    by (auto dest: bit_imp_le_length)
qed

lemma pci_address_fields:
  assumes "d < 32" "f < 8"
  shows "ucast (drop_bit 16 (pci_address b d f r)) = b \<and>
    ucast (drop_bit 11 (pci_address b d f r)) AND mask 5 = d \<and>
    ucast (drop_bit 8 (pci_address b d f r)) AND mask 3 = f \<and>
    ucast (pci_address b d f r) = r AND 0xFC"
proof -
  have d: "bit d k \<Longrightarrow> k < 5" for k
    using bit_bound_word [of d 5 k] assms(1) by (simp add: word_less_nat_alt)
  have f: "bit f k \<Longrightarrow> k < 3" for k
    using bit_bound_word [of f 3 k] assms(2) by (simp add: word_less_nat_alt)
  have fc: "(0xFC :: u8) = push_bit 2 (mask 6)" by (simp add: mask_eq_exp_minus_1)
  have fields: "ucast (drop_bit 16 (pci_address b d f r)) = b"
    "ucast (drop_bit 11 (pci_address b d f r)) AND mask 5 = d"
    "ucast (drop_bit 8 (pci_address b d f r)) AND mask 3 = f"
    by (intro bit_word_eqI, auto simp: bit_simps bit_pci_address dest: d f bit_imp_le_length)+
  have "ucast (pci_address b d f r) = r AND 0xFC"
    unfolding fc
    by (rule bit_word_eqI)
      (auto simp only: bit_unsigned_iff bit_pci_address bit_and_iff bit_push_bit_iff bit_mask_iff, auto dest: d f bit_imp_le_length)
  then show ?thesis using fields by blast
qed

text \<open>the configuration address identifies bus, device (below 32), function (below 8)
  and register; the two low bits of the offset are dropped.\<close>

theorem pci_address_injective:
  assumes "d < 32" "d' < 32" "f < 8" "f' < 8"
  shows "pci_address b d f r = pci_address b' d' f' r' \<longleftrightarrow>
    b = b' \<and> d = d' \<and> f = f' \<and> r AND 0xFC = r' AND 0xFC"
proof -
  have u: "ucast (drop_bit 16 (pci_address b d f r)) = b"
    "ucast (drop_bit 11 (pci_address b d f r)) AND mask 5 = d"
    "ucast (drop_bit 8 (pci_address b d f r)) AND mask 3 = f"
    "ucast (pci_address b d f r) = r AND 0xFC" if "d < 32" "f < 8" for b d f r
    using pci_address_fields [OF that] by blast+
  show ?thesis
  proof
    assume "pci_address b d f r = pci_address b' d' f' r'"
    then show "b = b' \<and> d = d' \<and> f = f' \<and> r AND 0xFC = r' AND 0xFC"
      using u [OF assms(1,3), of b r] u [OF assms(2,4), of b' r'] by simp
  next
    assume "b = b' \<and> d = d' \<and> f = f' \<and> r AND 0xFC = r' AND 0xFC"
    then show "pci_address b d f r = pci_address b' d' f' r'" by (simp add: pci_address_def)
  qed
qed

theorem pci_address_injective_witness:
  "pci_address 0 3 1 0x10 \<noteq> pci_address 0 3 2 0x10 \<and> pci_address 0 3 1 0x12 = pci_address 0 3 1 0x10"
  using pci_address_injective [of 3 3 1 2 0 "0x10" 0 "0x10"]
    pci_address_injective [of 3 3 1 1 0 "0x12" 0 "0x10"] by simp

end
