(* ===== verification/Ide.thy ===== *)
theory Ide
  imports Pci
begin

section \<open>\<^verbatim>\<open>ide.c\<close>: the ATA disk driver\<close>

text \<open>
  The driver polls: every wait is the loop of \<open>ide_poll\<close>, bounded by its time-out, which
  counts upwards as in the code. Results of type \<open>int\<close> are 0 and -1. A buffer is an address
  in memory; the 256 words of a sector are stored little-endian as they are read. The local
  \<open>ide_identify_t\<close> of \<open>ide_init\<close> is the list of the 256 words read into it; its fields are
  read at the byte offsets the packed struct gives them (\<open>model_number\<close> at 50, \<open>total_lba28\<close>
  at 115; the struct has 517 bytes). \<open>ide_init\<close> logs to the serial port, so it is an option.
\<close>

record ide_state = pci_state +
  ide_irq_fired :: u32
  ide_last_status :: u32
  ide_last_error :: u32
  ide_primary_master :: u8
  ide_primary_slave :: u8
  ide_secondary_master :: u8
  ide_secondary_slave :: u8
  ide_primary_master_sectors :: u32
  ide_primary_slave_sectors :: u32
  ide_secondary_master_sectors :: u32
  ide_secondary_slave_sectors :: u32

abbreviation IDE_PRIMARY_BASE :: u16 where "IDE_PRIMARY_BASE \<equiv> 0x1F0"
abbreviation IDE_PRIMARY_CTRL :: u16 where "IDE_PRIMARY_CTRL \<equiv> 0x3F6"
abbreviation IDE_SECONDARY_BASE :: u16 where "IDE_SECONDARY_BASE \<equiv> 0x170"
abbreviation IDE_SECONDARY_CTRL :: u16 where "IDE_SECONDARY_CTRL \<equiv> 0x376"
definition IDE_CMD_READ_SECTORS :: u8 where "IDE_CMD_READ_SECTORS = 0x20"
definition IDE_CMD_WRITE_SECTORS :: u8 where "IDE_CMD_WRITE_SECTORS = 0x30"
definition IDE_CMD_IDENTIFY :: u8 where "IDE_CMD_IDENTIFY = 0xEC"
abbreviation IDE_STATUS_BSY :: u8 where "IDE_STATUS_BSY \<equiv> 0x80"
abbreviation IDE_STATUS_DRQ :: u8 where "IDE_STATUS_DRQ \<equiv> 0x08"
abbreviation IDE_STATUS_ERR :: u8 where "IDE_STATUS_ERR \<equiv> 0x01"

subsection \<open>Selecting and waiting\<close>

definition ide_select_drive :: "u16 \<Rightarrow> u8 \<Rightarrow> 'a machine_scheme \<Rightarrow> 'a machine_scheme" where
  "ide_select_drive base drive s = outb (base + 6) (0xE0 OR push_bit 4 drive) s"

definition ide_wait_400ns :: "io_env \<Rightarrow> u16 \<Rightarrow> 'a machine_scheme \<Rightarrow> 'a machine_scheme" where
  "ide_wait_400ns E base s = fold (\<lambda>i s. snd (inb E (base + 7) s)) [0..<4] s"

lemma unat_count_up:
  fixes count timeout :: u32
  assumes "count < timeout"
  shows "unat (count + 1) = Suc (unat count)"
proof -
  have "count + 1 \<noteq> 0" using assms by (metis max_word_max not_less max_word_wrap)
  then show ?thesis by (simp add: unatSuc add.commute)
qed

lemma count_up:
  fixes count timeout :: u32
  assumes "count < timeout"
  shows "unat timeout - unat (count + 1) < unat timeout - unat count"
  using assms unat_count_up [OF assms] by (simp add: word_less_nat_alt)

function ide_poll_loop ::
  "io_env \<Rightarrow> u16 \<Rightarrow> u32 \<Rightarrow> bool \<Rightarrow> u32 \<Rightarrow> 'a ide_state_scheme \<Rightarrow> int \<times> 'a ide_state_scheme" where
  "ide_poll_loop E base timeout advanced_check count s =
     (if count < timeout then
        let (status, s) = inb E (base + 7) s
        in if status AND IDE_STATUS_BSY \<noteq> 0 then ide_poll_loop E base timeout advanced_check (count + 1) s
           else if advanced_check then
             (if status AND IDE_STATUS_ERR \<noteq> 0 then
                let (err, s) = inb E (base + 1) s
                in (- 1, s\<lparr>ide_last_error := ucast err, ide_last_status := ucast status\<rparr>)
              else if status AND IDE_STATUS_DRQ \<noteq> 0 then (0, s\<lparr>ide_last_status := ucast status\<rparr>)
              else ide_poll_loop E base timeout advanced_check (count + 1) s)
           else
             let s = s\<lparr>ide_last_status := ucast status\<rparr>
             in if status AND IDE_STATUS_DRQ \<noteq> 0 then (0, s)
                else if status AND IDE_STATUS_ERR \<noteq> 0 then
                  let (err, s) = inb E (base + 1) s in (- 1, s\<lparr>ide_last_error := ucast err\<rparr>)
                else (0, s)
      else (- 1, s))"
  by auto
termination
  by (relation "measure (\<lambda>(E, base, timeout, adv, count, s). unat timeout - unat count)")
    (simp_all add: count_up)

declare ide_poll_loop.simps [simp del]

definition ide_poll ::
  "io_env \<Rightarrow> u16 \<Rightarrow> u32 \<Rightarrow> bool \<Rightarrow> 'a ide_state_scheme \<Rightarrow> int \<times> 'a ide_state_scheme" where
  "ide_poll E base timeout advanced_check s = ide_poll_loop E base timeout advanced_check 0 s"

definition ide_wait_ready_impl ::
  "io_env \<Rightarrow> u16 \<Rightarrow> u32 \<Rightarrow> 'a ide_state_scheme \<Rightarrow> int \<times> 'a ide_state_scheme" where
  "ide_wait_ready_impl E base timeout s = ide_poll E base timeout True s"

definition ide_wait_ready ::
  "io_env \<Rightarrow> u16 \<Rightarrow> u32 \<Rightarrow> 'a ide_state_scheme \<Rightarrow> int \<times> 'a ide_state_scheme" where
  "ide_wait_ready E base timeout s = ide_wait_ready_impl E base timeout s"

subsection \<open>Identification\<close>

text \<open>Select a drive, clear the task file, send IDENTIFY, read the status.\<close>

definition ide_probe :: "io_env \<Rightarrow> u16 \<Rightarrow> u8 \<Rightarrow> 'a machine_scheme \<Rightarrow> u8 \<times> 'a machine_scheme" where
  "ide_probe E base drive_sel s =
     (let s = ide_select_drive base drive_sel s;
          s = outb (base + 2) 0 s;
          s = outb (base + 3) 0 s;
          s = outb (base + 4) 0 s;
          s = outb (base + 5) 0 s;
          s = outb (base + 7) IDE_CMD_IDENTIFY s
      in inb E (base + 7) s)"

fun inw_words :: "io_env \<Rightarrow> u16 \<Rightarrow> nat \<Rightarrow> 'a machine_scheme \<Rightarrow> u16 list \<times> 'a machine_scheme" where
  "inw_words E base 0 s = ([], s)"
| "inw_words E base (Suc n) s =
     (let (w, s) = inw E base s; (ws, s) = inw_words E base n s in (w # ws, s))"

definition ide_fetch :: "io_env \<Rightarrow> u16 \<Rightarrow> 'a ide_state_scheme \<Rightarrow> u16 list \<times> 'a ide_state_scheme" where
  "ide_fetch E base s = (let (r, s) = ide_wait_ready_impl E base 100000 s in inw_words E base 256 s)"

definition words_bytes :: "u16 list \<Rightarrow> u8 list" where
  "words_bytes ws = concat (map (le_bytes 2) ws)"

definition total_lba28 :: "u16 list \<Rightarrow> u32" where
  "total_lba28 ws = le_word (take 4 (drop 115 (words_bytes ws)))"

definition model_number :: "u16 list \<Rightarrow> u8 list" where
  "model_number ws = take 40 (drop 50 (words_bytes ws))"

text \<open>\<open>msg\<close>: the prefix, then the model up to its first NUL, at most 79 bytes in all.\<close>

definition model_message :: "u16 list \<Rightarrow> u8 list" where
  "model_message ws =
     (let prefix = asc ''IDE: Model: ''
      in prefix @ take (79 - length prefix) (c_string (model_number ws @ [0])))"

definition ide_init_primary_master :: "io_env \<Rightarrow> 'a ide_state_scheme \<Rightarrow> 'a ide_state_scheme" where
  "ide_init_primary_master E s =
     (let (status, s) = ide_probe E IDE_PRIMARY_BASE 0 s
      in if status \<noteq> 0 then
           let (identify, s) = ide_fetch E IDE_PRIMARY_BASE s;
               s = s\<lparr>ide_primary_master := 1, ide_primary_master_sectors := total_lba28 identify\<rparr>;
               s = fb_draw_string (asc ''IDE: Primary Master detected'') 16 272 FB_COLOR_GREEN FB_COLOR_BLACK s
           in fb_draw_string (model_message identify) 16 288 FB_COLOR_WHITE FB_COLOR_BLACK s
         else fb_draw_string (asc ''IDE: No Primary Master'') 16 272 FB_COLOR_RED FB_COLOR_BLACK s)"

definition ide_init_primary_slave :: "io_env \<Rightarrow> 'a ide_state_scheme \<Rightarrow> 'a ide_state_scheme" where
  "ide_init_primary_slave E s =
     (let (status, s) = ide_probe E IDE_PRIMARY_BASE 1 s
      in if status \<noteq> 0 then
           let (identify, s) = ide_fetch E IDE_PRIMARY_BASE s;
               s = s\<lparr>ide_primary_slave := 1, ide_primary_slave_sectors := total_lba28 identify\<rparr>
           in fb_draw_string (asc ''IDE: Primary Slave detected'') 16 304 FB_COLOR_GREEN FB_COLOR_BLACK s
         else fb_draw_string (asc ''IDE: No Primary Slave'') 16 304 FB_COLOR_RED FB_COLOR_BLACK s)"

definition ide_init_secondary_master :: "io_env \<Rightarrow> 'a ide_state_scheme \<Rightarrow> 'a ide_state_scheme" where
  "ide_init_secondary_master E s =
     (let (status, s) = ide_probe E IDE_SECONDARY_BASE 0 s
      in if status \<noteq> 0 then
           let (identify, s) = ide_fetch E IDE_SECONDARY_BASE s;
               s = s\<lparr>ide_secondary_master := 1, ide_secondary_master_sectors := total_lba28 identify\<rparr>
           in fb_draw_string (asc ''IDE: Secondary Master detected'') 16 320 FB_COLOR_GREEN FB_COLOR_BLACK s
         else fb_draw_string (asc ''IDE: No Secondary Master'') 16 320 FB_COLOR_RED FB_COLOR_BLACK s)"

definition ide_init_secondary_slave :: "io_env \<Rightarrow> 'a ide_state_scheme \<Rightarrow> 'a ide_state_scheme" where
  "ide_init_secondary_slave E s =
     (let (status, s) = ide_probe E IDE_SECONDARY_BASE 1 s
      in if status \<noteq> 0 then
           let (identify, s) = ide_fetch E IDE_SECONDARY_BASE s;
               s = s\<lparr>ide_secondary_slave := 1, ide_secondary_slave_sectors := total_lba28 identify\<rparr>
           in fb_draw_string (asc ''IDE: Secondary Slave detected'') 16 336 FB_COLOR_GREEN FB_COLOR_BLACK s
         else fb_draw_string (asc ''IDE: No Secondary Slave'') 16 336 FB_COLOR_RED FB_COLOR_BLACK s)"

definition ide_init :: "io_env \<Rightarrow> 'a ide_state_scheme \<Rightarrow> 'a ide_state_scheme option" where
  "ide_init E s = do {
     s \<leftarrow> serial_puts E (asc ''[IDE] start'' @ [10]) s;
     let s = fb_draw_string (asc ''IDE: Initializing IDE controller...'') 16 256 FB_COLOR_WHITE FB_COLOR_BLACK s;
     let s = outb (IDE_PRIMARY_CTRL + 2) 0x02 s;
     let s = outb (IDE_SECONDARY_CTRL + 2) 0x02 s;
     s \<leftarrow> serial_puts E (asc ''[IDE] master'' @ [10]) s;
     let s = ide_init_primary_master E s;
     let s = ide_init_primary_slave E s;
     let s = ide_init_secondary_master E s;
     let s = ide_init_secondary_slave E s;
     let s = fb_draw_string (asc ''IDE: Initialization complete'') 16 352 FB_COLOR_GREEN FB_COLOR_BLACK s;
     serial_puts E (asc ''[IDE] done'' @ [10]) s
   }"

definition ide_detect_drives :: "'a ide_state_scheme \<Rightarrow> int" where
  "ide_detect_drives s =
     (let count = 0;
          count = (if ide_primary_master s \<noteq> 0 then count + 1 else count);
          count = (if ide_primary_slave s \<noteq> 0 then count + 1 else count);
          count = (if ide_secondary_master s \<noteq> 0 then count + 1 else count)
      in if ide_secondary_slave s \<noteq> 0 then count + 1 else count)"

definition drive_base :: "u8 \<Rightarrow> u16 \<times> u8" where
  "drive_base drive =
     (if drive = 0 then (IDE_PRIMARY_BASE, 0)
      else if drive = 1 then (IDE_PRIMARY_BASE, 1)
      else if drive = 2 then (IDE_SECONDARY_BASE, 0)
      else (IDE_SECONDARY_BASE, 1))"

text \<open>Word \<open>i\<close> of a buffer at \<open>buf\<close>: \<open>buf[i] = inw(base)\<close> and \<open>outw(base, buf[i])\<close>.\<close>

definition load_word :: "io_env \<Rightarrow> u16 \<Rightarrow> u64 \<Rightarrow> nat \<Rightarrow> 'a machine_scheme \<Rightarrow> 'a machine_scheme" where
  "load_word E base buf i s =
     (let (w, s) = inw E base s
      in s\<lparr>ram := store_bytes (buf + 2 * of_nat i) (le_bytes 2 w) (ram s)\<rparr>)"

definition send_word :: "u16 \<Rightarrow> u64 \<Rightarrow> nat \<Rightarrow> 'a machine_scheme \<Rightarrow> 'a machine_scheme" where
  "send_word base buf i s = outw base (le_word (load_bytes 2 (buf + 2 * of_nat i) (ram s))) s"

definition ide_identify :: "io_env \<Rightarrow> u8 \<Rightarrow> u64 \<Rightarrow> 'a ide_state_scheme \<Rightarrow> 'a ide_state_scheme" where
  "ide_identify E drive identify s =
     (let (base, drive_sel) = drive_base drive;
          (status, s) = ide_probe E base drive_sel s
      in if status = 0 then s\<lparr>ram := snd (memset identify 0 517 (ram s))\<rparr>
         else let (r, s) = ide_wait_ready_impl E base 100000 s
              in fold (load_word E base identify) [0..<256] s)"

subsection \<open>Sectors\<close>

definition ide_missing :: "u8 \<Rightarrow> 'a ide_state_scheme \<Rightarrow> bool" where
  "ide_missing drive s \<longleftrightarrow>
     drive = 0 \<and> ide_primary_master s = 0 \<or> drive = 1 \<and> ide_primary_slave s = 0 \<or>
     drive = 2 \<and> ide_secondary_master s = 0 \<or> drive = 3 \<and> ide_secondary_slave s = 0"

definition ide_transfer ::
  "io_env \<Rightarrow> u16 \<Rightarrow> bool \<Rightarrow> u64 \<Rightarrow> nat \<Rightarrow> 'a machine_scheme \<Rightarrow> 'a machine_scheme" where
  "ide_transfer E base write buf i s =
     (if write then ide_wait_400ns E base (fold (\<lambda>j. send_word base buf (i * 256 + j)) [0..<256] s)
      else ide_wait_400ns E base (fold (\<lambda>j. load_word E base buf (i * 256 + j)) [0..<256] s))"

text \<open>The loop over \<open>uint16_t i\<close> from \<open>i\<close> to \<open>i + n\<close>; a failed wait leaves it.\<close>

fun ide_sectors_loop ::
  "io_env \<Rightarrow> u16 \<Rightarrow> bool \<Rightarrow> u64 \<Rightarrow> nat \<Rightarrow> nat \<Rightarrow> 'a ide_state_scheme \<Rightarrow> int \<times> 'a ide_state_scheme" where
  "ide_sectors_loop E base write buf i 0 s = (0, s)"
| "ide_sectors_loop E base write buf i (Suc n) s =
     (let (r, s) = ide_wait_ready_impl E base 1000000 s
      in if r \<noteq> 0 then (- 1, s)
         else ide_sectors_loop E base write buf (i + 1) n (ide_transfer E base write buf i s))"

definition ide_command :: "u16 \<Rightarrow> u8 \<Rightarrow> u32 \<Rightarrow> u16 \<Rightarrow> bool \<Rightarrow> 'a machine_scheme \<Rightarrow> 'a machine_scheme" where
  "ide_command base drive_sel lba count write s =
     (let s = ide_select_drive base drive_sel s;
          s = outb (base + 1) 0 s;
          s = outb (base + 2) (ucast count) s;
          s = outb (base + 3) (ucast (lba AND 0xFF)) s;
          s = outb (base + 4) (ucast (drop_bit 8 lba AND 0xFF)) s;
          s = outb (base + 5) (ucast (drop_bit 16 lba AND 0xFF)) s;
          s = outb (base + 6) (0xE0 OR push_bit 4 drive_sel OR ucast (drop_bit 24 lba AND 0x0F)) s
      in outb (base + 7) (if write then IDE_CMD_WRITE_SECTORS else IDE_CMD_READ_SECTORS) s)"

definition ide_read_write_sectors ::
  "io_env \<Rightarrow> u8 \<Rightarrow> u32 \<Rightarrow> u16 \<Rightarrow> u64 \<Rightarrow> bool \<Rightarrow> 'a ide_state_scheme \<Rightarrow> int \<times> 'a ide_state_scheme" where
  "ide_read_write_sectors E drive lba count buffer write s =
     (if count = 0 then (0, s)
      else let (base, drive_sel) = drive_base drive
           in if ide_missing drive s then (- 1, s)
              else let s = ide_command base drive_sel lba count write s;
                       s = ide_wait_400ns E base s;
                       (r, s) = ide_sectors_loop E base write buffer 0 (unat count) s
                   in if r \<noteq> 0 then (- 1, s)
                      else if write then
                        let s = outb (base + 7) 0xE7 s;
                            (r, s) = ide_wait_ready_impl E base 1000000 s
                        in (0, s)
                      else (0, s))"

definition ide_read_sectors ::
  "io_env \<Rightarrow> u8 \<Rightarrow> u32 \<Rightarrow> u16 \<Rightarrow> u64 \<Rightarrow> 'a ide_state_scheme \<Rightarrow> int \<times> 'a ide_state_scheme" where
  "ide_read_sectors E drive lba count buffer s = ide_read_write_sectors E drive lba count buffer False s"

definition ide_write_sectors ::
  "io_env \<Rightarrow> u8 \<Rightarrow> u32 \<Rightarrow> u16 \<Rightarrow> u64 \<Rightarrow> 'a ide_state_scheme \<Rightarrow> int \<times> 'a ide_state_scheme" where
  "ide_write_sectors E drive lba count buffer s = ide_read_write_sectors E drive lba count buffer True s"

text \<open>The interrupt routine, which no table of \<open>interrupts.c\<close> refers to.\<close>

definition ide_irq_handler :: "io_env \<Rightarrow> 'a ide_state_scheme \<Rightarrow> 'a ide_state_scheme" where
  "ide_irq_handler E s =
     (let s = s\<lparr>ide_irq_fired := 1\<rparr>;
          (st, s) = inb E (IDE_PRIMARY_BASE + 7) s;
          s = s\<lparr>ide_last_status := ucast st\<rparr>;
          s = (if ide_last_status s AND ucast IDE_STATUS_ERR \<noteq> 0
               then let (e, s) = inb E (IDE_PRIMARY_BASE + 1) s in s\<lparr>ide_last_error := ucast e\<rparr>
               else s);
          s = outb PIC1_COMMAND PIC_EOI s
      in outb PIC2_COMMAND PIC_EOI s)"

subsection \<open>Histories\<close>

text \<open>The words read from and written to a port, oldest first.\<close>

fun in_words :: "u16 \<Rightarrow> io_event list \<Rightarrow> u16 list" where
  "in_words p [] = []"
| "in_words p (InW q w # h) = in_words p h @ (if q = p then [w] else [])"
| "in_words p (_ # h) = in_words p h"

fun out_words :: "u16 \<Rightarrow> io_event list \<Rightarrow> u16 list" where
  "out_words p [] = []"
| "out_words p (OutW q w # h) = out_words p h @ (if q = p then [w] else [])"
| "out_words p (_ # h) = out_words p h"

text \<open>What an operation that only writes bytes and reads status leaves alone.\<close>

definition same_words :: "'a machine_scheme \<Rightarrow> 'a machine_scheme \<Rightarrow> bool" where
  "same_words s t \<longleftrightarrow> ram t = ram s \<and>
     (\<forall>p. in_words p (io_trace t) = in_words p (io_trace s) \<and> out_words p (io_trace t) = out_words p (io_trace s))"

lemma same_words_refl [simp]: "same_words s s"
  by (simp add: same_words_def)

lemma same_words_trans: "same_words s t \<Longrightarrow> same_words t u \<Longrightarrow> same_words s u"
  by (simp add: same_words_def)

lemma same_words_inb [simp]: "same_words s (snd (inb E p s))"
  by (simp add: same_words_def inb_def Let_def)

lemma same_words_outb [simp]: "same_words s (outb p v s)"
  by (simp add: same_words_def outb_def)

lemma byte_outputs_inb [simp]: "byte_outputs (io_trace (snd (inb E p s))) = byte_outputs (io_trace s)"
  by (simp add: inb_def Let_def)

lemma wait_400ns_same: "same_words s (ide_wait_400ns E base s)"
  unfolding ide_wait_400ns_def
  by (rule fold_keeps [of "same_words s"]) (auto intro: same_words_trans)

lemma wait_400ns_outputs [simp]:
  "byte_outputs (io_trace (ide_wait_400ns E base s)) = byte_outputs (io_trace s)"
  unfolding ide_wait_400ns_def
  by (rule fold_keeps [of "\<lambda>t. byte_outputs (io_trace t) = byte_outputs (io_trace s)"]) auto

subsection \<open>Polling\<close>

lemma poll_loop_step:
  "ide_poll_loop E base timeout True count s =
     (if count < timeout then
        let st = fst (inb E (base + 7) s); u = snd (inb E (base + 7) s)
        in if st AND IDE_STATUS_BSY \<noteq> 0 \<or> st AND IDE_STATUS_ERR = 0 \<and> st AND IDE_STATUS_DRQ = 0
           then ide_poll_loop E base timeout True (count + 1) u
           else if st AND IDE_STATUS_ERR \<noteq> 0 then
             (- 1, (snd (inb E (base + 1) u))\<lparr>ide_last_error := ucast (fst (inb E (base + 1) u)),
                     ide_last_status := ucast st\<rparr>)
           else (0, u\<lparr>ide_last_status := ucast st\<rparr>)
      else (- 1, s))"
  by (subst ide_poll_loop.simps) (simp add: split_beta Let_def)

text \<open>Every poll keeps memory, words and byte outputs, and reads at most \<open>timeout + 1\<close> ports.\<close>

definition polled :: "nat \<Rightarrow> 'a ide_state_scheme \<Rightarrow> 'a ide_state_scheme \<Rightarrow> bool" where
  "polled n s t \<longleftrightarrow>
     t = s\<lparr>io_trace := io_trace t, ide_last_status := ide_last_status t, ide_last_error := ide_last_error t\<rparr> \<and>
     same_words s t \<and> byte_outputs (io_trace t) = byte_outputs (io_trace s) \<and>
     length (io_trace t) \<le> length (io_trace s) + n"

lemma polled_step:
  assumes "polled n (s\<lparr>io_trace := InB p v # io_trace s\<rparr>) t"
  shows "polled (Suc n) s t"
  using assms unfolding polled_def by (auto simp: same_words_def)

lemma polled_mono: "polled n s t \<Longrightarrow> n \<le> m \<Longrightarrow> polled m s t"
  by (auto simp: polled_def)

lemma poll_loop_polled:
  "polled (unat timeout - unat count + 1) s (snd (ide_poll_loop E base timeout True count s))"
proof (induction "unat timeout - unat count" arbitrary: count s rule: less_induct)
  case less
  let ?v = "fst (inb E (base + 7) s)" and ?u = "snd (inb E (base + 7) s)"
  let ?u1 = "s\<lparr>io_trace := InB (base + 7) ?v # io_trace s\<rparr>"
  have u: "?u = ?u1" by (simp add: inb_def Let_def)
  show ?case
  proof (cases "count < timeout")
    case False
    then show ?thesis by (subst poll_loop_step) (simp add: polled_def)
  next
    case True
    note up = count_up [OF True]
    have "polled (Suc (unat timeout - unat (count + 1) + 1)) s
        (snd (ide_poll_loop E base timeout True (count + 1) ?u))"
      unfolding u by (rule polled_step [OF less [OF up]])
    then have again: "polled (unat timeout - unat count + 1) s
        (snd (ide_poll_loop E base timeout True (count + 1) ?u))"
      using up by (elim polled_mono) simp
    have "0 < unat timeout - unat count" using up by simp
    then have bad: "polled (unat timeout - unat count + 1) s
        ((snd (inb E (base + 1) ?u))\<lparr>ide_last_error := e, ide_last_status := st\<rparr>)"
      and good: "polled (unat timeout - unat count + 1) s (?u\<lparr>ide_last_status := st\<rparr>)" for e st
      by (auto simp: polled_def inb_def Let_def same_words_def)
    show ?thesis
      using True again bad good by (subst poll_loop_step) (simp add: Let_def)
  qed
qed

text \<open>The status a drive shows after \<open>k\<close> more polls, and when it is ready for data.\<close>

definition ata_status :: "io_env \<Rightarrow> u16 \<Rightarrow> io_event list \<Rightarrow> u8" where
  "ata_status E base h = ucast (E h (base + 7))"

fun ata_polls :: "io_env \<Rightarrow> u16 \<Rightarrow> nat \<Rightarrow> io_event list \<Rightarrow> io_event list" where
  "ata_polls E base 0 h = h"
| "ata_polls E base (Suc k) h = ata_polls E base k (InB (base + 7) (ata_status E base h) # h)"

definition ata_pending :: "u8 \<Rightarrow> bool" where
  "ata_pending st \<longleftrightarrow> st AND IDE_STATUS_BSY \<noteq> 0 \<or> st AND IDE_STATUS_ERR = 0 \<and> st AND IDE_STATUS_DRQ = 0"

definition ata_data :: "u8 \<Rightarrow> bool" where
  "ata_data st \<longleftrightarrow> st AND IDE_STATUS_BSY = 0 \<and> st AND IDE_STATUS_ERR = 0 \<and> st AND IDE_STATUS_DRQ \<noteq> 0"

text \<open>The documented behaviour of a working drive: from any history it is ready for data after
  fewer than \<open>n\<close> polls that found it pending.\<close>

definition ata_responsive :: "io_env \<Rightarrow> u16 \<Rightarrow> nat \<Rightarrow> bool" where
  "ata_responsive E base n \<longleftrightarrow>
     (\<forall>h. \<exists>k < n. (\<forall>j < k. ata_pending (ata_status E base (ata_polls E base j h))) \<and>
        ata_data (ata_status E base (ata_polls E base k h)))"

lemma poll_loop_ready:
  assumes "unat count + k < unat timeout"
    and "\<forall>j < k. ata_pending (ata_status E base (ata_polls E base j (io_trace s)))"
    and "ata_data (ata_status E base (ata_polls E base k (io_trace s)))"
  shows "fst (ide_poll_loop E base timeout True count s) = 0 \<and>
    io_trace (snd (ide_poll_loop E base timeout True count s)) =
      ata_polls E base (Suc k) (io_trace s)"
  using assms
proof (induction k arbitrary: count s)
  case 0
  then have "count < timeout" by (simp add: word_less_nat_alt)
  then show ?case using 0(3)
    by (subst (1 2) poll_loop_step) (simp add: ata_data_def ata_status_def inb_def Let_def)
next
  case (Suc k)
  have lt: "count < timeout" using Suc.prems(1) by (simp add: word_less_nat_alt)
  let ?u = "snd (inb E (base + 7) s)"
  have u: "io_trace ?u = InB (base + 7) (ata_status E base (io_trace s)) # io_trace s"
    by (simp add: inb_def Let_def ata_status_def)
  have p: "ata_pending (fst (inb E (base + 7) s))"
    using Suc.prems(2) by (force simp: inb_def Let_def ata_status_def)
  have step: "ide_poll_loop E base timeout True count s = ide_poll_loop E base timeout True (count + 1) ?u"
    using lt p by (subst poll_loop_step) (simp add: ata_pending_def Let_def)
  have "unat (count + 1) = Suc (unat count)" using lt by (rule unat_count_up)
  then have "fst (ide_poll_loop E base timeout True (count + 1) ?u) = 0 \<and>
      io_trace (snd (ide_poll_loop E base timeout True (count + 1) ?u)) = ata_polls E base (Suc k) (io_trace ?u)"
    using Suc.prems by (intro Suc.IH) (auto simp: u)
  then show ?case unfolding step by (simp add: u)
qed

text \<open>A zero result is only returned on a status that shows data ready and no error.\<close>

lemma poll_loop_zero:
  "fst (ide_poll_loop E base timeout True count s) = 0 \<Longrightarrow>
   \<exists>st h. io_trace (snd (ide_poll_loop E base timeout True count s)) = InB (base + 7) st # h \<and> ata_data st \<and>
     st = ata_status E base h \<and> ide_last_status (snd (ide_poll_loop E base timeout True count s)) = ucast st"
proof (induction "unat timeout - unat count" arbitrary: count s rule: less_induct)
  case less
  let ?st = "fst (inb E (base + 7) s)" and ?u = "snd (inb E (base + 7) s)"
  have lt: "count < timeout" using less(2) by (subst (asm) poll_loop_step) (simp split: if_splits)
  show ?case
  proof (cases "ata_pending ?st")
    case True
    then have step: "ide_poll_loop E base timeout True count s = ide_poll_loop E base timeout True (count + 1) ?u"
      using lt by (subst poll_loop_step) (simp add: ata_pending_def Let_def)
    show ?thesis using less(2) unfolding step by (rule less(1) [OF count_up [OF lt]])
  next
    case False
    then have e: "?st AND IDE_STATUS_ERR = 0"
      using less(2) lt by (subst (asm) poll_loop_step) (auto simp: ata_pending_def Let_def split: if_splits)
    then have "ide_poll_loop E base timeout True count s = (0, ?u\<lparr>ide_last_status := ucast ?st\<rparr>)"
      using lt False by (subst poll_loop_step) (simp add: ata_pending_def Let_def)
    then show ?thesis using False e by (auto simp: ata_pending_def ata_data_def inb_def Let_def ata_status_def)
  qed
qed

lemma wait_ready_polled: "polled (unat timeout + 1) s (snd (ide_wait_ready_impl E base timeout s))"
  using poll_loop_polled [of timeout 0 s E base] by (simp add: ide_wait_ready_impl_def ide_poll_def)

lemma wait_ready_returns:
  assumes "ata_responsive E base n" "n \<le> unat timeout"
  shows "fst (ide_wait_ready_impl E base timeout s) = 0"
proof -
  obtain k where "k < n" "\<forall>j < k. ata_pending (ata_status E base (ata_polls E base j (io_trace s)))"
    "ata_data (ata_status E base (ata_polls E base k (io_trace s)))"
    using assms(1) by (auto simp: ata_responsive_def)
  then show ?thesis using assms(2) poll_loop_ready [of 0 k timeout E base s]
    by (simp add: ide_wait_ready_impl_def ide_poll_def)
qed

lemma polled_words: "polled n s t \<Longrightarrow> same_words s t"
  and polled_outputs: "polled n s t \<Longrightarrow> byte_outputs (io_trace t) = byte_outputs (io_trace s)"
  by (simp_all only: polled_def)

subsection \<open>Blocks of words\<close>

lemma store_bytes_append:
  "store_bytes a (xs @ ys) m = store_bytes (a + of_nat (length xs)) ys (store_bytes a xs m)"
  by (induction xs arbitrary: a m) (simp_all add: algebra_simps)

lemma words_bytes_append: "words_bytes (xs @ ys) = words_bytes xs @ words_bytes ys"
  by (simp add: words_bytes_def)

lemma length_words_bytes [simp]: "length (words_bytes ws) = 2 * length ws"
  by (induction ws) (simp_all add: words_bytes_def)

text \<open>From \<open>s\<close> to \<open>t\<close> the words \<open>ws\<close> were read at \<open>base\<close> and stored from word \<open>i\<close> of \<open>buf\<close>.\<close>

definition loads_words ::
  "u16 \<Rightarrow> u64 \<Rightarrow> nat \<Rightarrow> u16 list \<Rightarrow> 'a machine_scheme \<Rightarrow> 'a machine_scheme \<Rightarrow> bool" where
  "loads_words base buf i ws s t \<longleftrightarrow>
     ram t = store_bytes (buf + 2 * of_nat i) (words_bytes ws) (ram s) \<and>
     in_words base (io_trace t) = in_words base (io_trace s) @ ws \<and>
     byte_outputs (io_trace t) = byte_outputs (io_trace s)"

lemma loads_words_trans:
  "loads_words base buf i ws s t \<Longrightarrow> loads_words base buf (i + length ws) vs t u \<Longrightarrow>
   loads_words base buf i (ws @ vs) s u"
  by (simp add: loads_words_def words_bytes_append store_bytes_append algebra_simps)

lemma loads_words_same:
  "same_words s t \<Longrightarrow> byte_outputs (io_trace t) = byte_outputs (io_trace s) \<Longrightarrow> loads_words base buf i [] s t"
  by (simp add: loads_words_def same_words_def words_bytes_def)

lemma loads_words_around:
  assumes "same_words s s'" "byte_outputs (io_trace s') = byte_outputs (io_trace s)"
    and "loads_words base buf i ws s' t'"
    and "same_words t' t" "byte_outputs (io_trace t) = byte_outputs (io_trace t')"
  shows "loads_words base buf i ws s t"
  using assms by (simp add: loads_words_def same_words_def)

lemma loads_words_word: "\<exists>w. loads_words base buf i [w] s (load_word E base buf i s)"
  by (simp add: loads_words_def load_word_def inw_def Let_def words_bytes_def)

lemma loads_words_fold:
  "\<exists>ws. length ws = n \<and> loads_words base buf i ws s (fold (\<lambda>j. load_word E base buf (i + j)) [0..<n] s)"
proof (induction n)
  case 0
  show ?case by (simp add: loads_words_same)
next
  case (Suc n)
  then obtain ws where ws: "length ws = n"
    "loads_words base buf i ws s (fold (\<lambda>j. load_word E base buf (i + j)) [0..<n] s)" by blast
  let ?t = "fold (\<lambda>j. load_word E base buf (i + j)) [0..<n] s"
  obtain w where "loads_words base buf (i + length ws) [w] ?t (load_word E base buf (i + length ws) ?t)"
    using loads_words_word by blast
  from loads_words_trans [OF ws(2) this] ws(1) show ?case
    by (intro exI [of _ "ws @ [w]"]) simp
qed

text \<open>The words of a buffer, and their transmission.\<close>

definition buffer_words :: "ram \<Rightarrow> u64 \<Rightarrow> nat \<Rightarrow> nat \<Rightarrow> u16 list" where
  "buffer_words m buf i n = map (\<lambda>j. le_word (load_bytes 2 (buf + 2 * of_nat j) m)) [i..<i + n]"

definition sends_words ::
  "u16 \<Rightarrow> u64 \<Rightarrow> nat \<Rightarrow> nat \<Rightarrow> 'a machine_scheme \<Rightarrow> 'a machine_scheme \<Rightarrow> bool" where
  "sends_words base buf i n s t \<longleftrightarrow> ram t = ram s \<and>
     out_words base (io_trace t) = out_words base (io_trace s) @ buffer_words (ram s) buf i n \<and>
     byte_outputs (io_trace t) = byte_outputs (io_trace s)"

lemma buffer_words_add: "buffer_words m buf i (n + k) = buffer_words m buf i n @ buffer_words m buf (i + n) k"
proof -
  have "[i..<i + (n + k)] = [i..<i + n] @ [i + n..<i + n + k]"
    using upt_add_eq_append [of i "i + n" k] by (simp add: add.assoc)
  then show ?thesis by (simp only: buffer_words_def map_append)
qed

lemma sends_words_trans:
  "sends_words base buf i n s t \<Longrightarrow> sends_words base buf (i + n) k t u \<Longrightarrow> sends_words base buf i (n + k) s u"
  by (simp add: sends_words_def buffer_words_add)

lemma sends_words_same:
  "same_words s t \<Longrightarrow> byte_outputs (io_trace t) = byte_outputs (io_trace s) \<Longrightarrow> sends_words base buf i 0 s t"
  by (simp add: sends_words_def same_words_def buffer_words_def)

lemma sends_words_around:
  assumes "same_words s s'" "byte_outputs (io_trace s') = byte_outputs (io_trace s)"
    and "sends_words base buf i n s' t'"
    and "same_words t' t" "byte_outputs (io_trace t) = byte_outputs (io_trace t')"
  shows "sends_words base buf i n s t"
  using assms by (simp add: sends_words_def same_words_def)

lemma sends_words_word: "sends_words base buf i 1 s (send_word base buf i s)"
  by (simp add: sends_words_def send_word_def outw_def buffer_words_def)

lemma sends_words_fold:
  "sends_words base buf i n s (fold (\<lambda>j. send_word base buf (i + j)) [0..<n] s)"
proof (induction n)
  case 0
  show ?case by (simp add: sends_words_same)
next
  case (Suc n)
  from sends_words_trans [OF Suc sends_words_word] show ?case by simp
qed

subsection \<open>Sectors\<close>

lemma wait_ready_same: "same_words s (snd (ide_wait_ready_impl E base timeout s))"
  by (rule polled_words [OF wait_ready_polled])

lemma wait_ready_outputs [simp]:
  "byte_outputs (io_trace (snd (ide_wait_ready_impl E base timeout s))) = byte_outputs (io_trace s)"
  by (rule polled_outputs [OF wait_ready_polled])

lemma sectors_read:
  assumes "ata_responsive E base 1000000"
  shows "\<exists>t ws. ide_sectors_loop E base False buf i n s = (0, t) \<and> length ws = 256 * n \<and>
    loads_words base buf (i * 256) ws s t"
proof (induction n arbitrary: i s)
  case 0
  show ?case by (simp add: loads_words_same)
next
  case (Suc n)
  let ?u = "snd (ide_wait_ready_impl E base 1000000 s)"
  have r: "fst (ide_wait_ready_impl E base 1000000 s) = 0"
    by (rule wait_ready_returns [OF assms]) simp
  obtain ws where ws: "length ws = 256"
    "loads_words base buf (i * 256) ws ?u (fold (\<lambda>j. load_word E base buf (i * 256 + j)) [0..<256] ?u)"
    using loads_words_fold by blast
  have tr: "loads_words base buf (i * 256) ws s (ide_transfer E base False buf i ?u)"
    unfolding ide_transfer_def if_False
    by (rule loads_words_around [OF wait_ready_same _ ws(2) wait_400ns_same]) simp_all
  obtain t vs where "ide_sectors_loop E base False buf (i + 1) n (ide_transfer E base False buf i ?u) = (0, t)"
    "length vs = 256 * n" "loads_words base buf ((i + 1) * 256) vs (ide_transfer E base False buf i ?u) t"
    using Suc by blast
  then show ?case using loads_words_trans [OF tr, of vs t] ws(1) r
    by (intro exI [of _ t] exI [of _ "ws @ vs"]) (simp add: split_beta Let_def algebra_simps)
qed

lemma sectors_written:
  assumes "ata_responsive E base 1000000"
  shows "\<exists>t. ide_sectors_loop E base True buf i n s = (0, t) \<and> sends_words base buf (i * 256) (256 * n) s t"
proof (induction n arbitrary: i s)
  case 0
  show ?case by (simp add: sends_words_same)
next
  case (Suc n)
  let ?u = "snd (ide_wait_ready_impl E base 1000000 s)"
  have r: "fst (ide_wait_ready_impl E base 1000000 s) = 0"
    by (rule wait_ready_returns [OF assms]) simp
  have tr: "sends_words base buf (i * 256) 256 s (ide_transfer E base True buf i ?u)"
    unfolding ide_transfer_def if_True
    by (rule sends_words_around [OF wait_ready_same _ sends_words_fold wait_400ns_same]) simp_all
  obtain t where "ide_sectors_loop E base True buf (i + 1) n (ide_transfer E base True buf i ?u) = (0, t)"
    "sends_words base buf ((i + 1) * 256) (256 * n) (ide_transfer E base True buf i ?u) t"
    using Suc by blast
  then show ?case using sends_words_trans [OF tr, of "256 * n" t] r
    by (intro exI [of _ t]) (simp add: split_beta Let_def algebra_simps)
qed

text \<open>The bytes of a command: drive and address registers, then the command itself.\<close>

definition command_bytes :: "u16 \<Rightarrow> u8 \<Rightarrow> u32 \<Rightarrow> u16 \<Rightarrow> u8 \<Rightarrow> (u16 \<times> u8) list" where
  "command_bytes base sel lba count cmd =
     [(base + 6, 0xE0 OR push_bit 4 sel), (base + 1, 0), (base + 2, ucast count),
      (base + 3, ucast lba), (base + 4, ucast (drop_bit 8 lba)), (base + 5, ucast (drop_bit 16 lba)),
      (base + 6, 0xE0 OR push_bit 4 sel OR ucast (drop_bit 24 lba AND 0x0F)), (base + 7, cmd)]"

lemma ucast_and_ff: "ucast (w AND 0xFF) = (ucast w :: u8)" for w :: u32
proof -
  have "(0xFF :: u32) = mask 8" by (simp add: mask_eq_exp_minus_1)
  then show ?thesis by (simp only: take_bit_eq_mask [symmetric]) (rule bit_word_eqI, simp add: bit_simps)
qed

lemma command_outputs:
  "byte_outputs (io_trace (ide_command base sel lba count write s)) = byte_outputs (io_trace s) @
     command_bytes base sel lba count (if write then IDE_CMD_WRITE_SECTORS else IDE_CMD_READ_SECTORS)"
  by (simp add: ide_command_def ide_select_drive_def command_bytes_def Let_def ucast_and_ff)

lemma command_same: "same_words s (ide_command base sel lba count write s)"
  by (simp add: same_words_def ide_command_def ide_select_drive_def Let_def outb_def)

subsection \<open>Properties\<close>


text \<open>\<open>ide_wait_ready\<close> returns 0 only when the last status it read has the data request
  bit set and the busy and error bits clear, and that status is recorded.\<close>

theorem ide_wait_ready_zero:
  assumes "fst (ide_wait_ready E base timeout s) = 0"
  shows "\<exists>st h. io_trace (snd (ide_wait_ready E base timeout s)) = InB (base + 7) st # h \<and>
    st AND IDE_STATUS_DRQ \<noteq> 0 \<and> st AND IDE_STATUS_BSY = 0 \<and> st AND IDE_STATUS_ERR = 0 \<and>
    ide_last_status (snd (ide_wait_ready E base timeout s)) = ucast st"
  using assms poll_loop_zero [of E base timeout 0 s]
  by (auto simp: ide_wait_ready_def ide_wait_ready_impl_def ide_poll_def ata_data_def)

definition sample_ide :: ide_state where
  "sample_ide = pci_state.extend (pci_state.truncate sample_pci)
     \<lparr>ide_irq_fired = 0, ide_last_status = 0, ide_last_error = 0, ide_primary_master = 1,
      ide_primary_slave = 0, ide_secondary_master = 0, ide_secondary_slave = 0,
      ide_primary_master_sectors = 0, ide_primary_slave_sectors = 0,
      ide_secondary_master_sectors = 0, ide_secondary_slave_sectors = 0\<rparr>"

theorem ide_wait_ready_zero_witness:
  "\<exists>st h. io_trace (snd (ide_wait_ready (\<lambda>_ _. 0x58) 0x1F0 5 sample_ide)) = InB 0x1F7 st # h \<and>
     st AND IDE_STATUS_DRQ \<noteq> 0"
proof -
  have "ata_responsive (\<lambda>_ _. 0x58) 0x1F0 1"
    by (simp add: ata_responsive_def ata_data_def ata_status_def)
  then have "fst (ide_wait_ready (\<lambda>_ _. 0x58) 0x1F0 5 sample_ide) = 0"
    using wait_ready_returns [of "\<lambda>_ _. 0x58" "0x1F0" 1 5 sample_ide] by (simp add: ide_wait_ready_def)
  from ide_wait_ready_zero [OF this] show ?thesis by force
qed

lemma loads_words_outputs: "loads_words base buf i ws s t \<Longrightarrow>
    byte_outputs (io_trace t) = byte_outputs (io_trace s)"
  and sends_words_outputs: "sends_words base buf i n s t \<Longrightarrow>
    byte_outputs (io_trace t) = byte_outputs (io_trace s)"
  by (simp_all add: loads_words_def sends_words_def)


lemma const_responsive: "ata_data (ucast v) \<Longrightarrow> 0 < n \<Longrightarrow> ata_responsive (\<lambda>_ _. v) base n"
  unfolding ata_responsive_def ata_status_def by (intro allI exI [of _ 0]) simp




text \<open>when the drive never shows data without an error (absent, busy or broken), reading
  returns -1 and writes nothing to memory.\<close>

theorem ide_read_sectors_fails:
  assumes "\<not> ide_missing drive s" "drive_base drive = (base, sel)" "count \<noteq> 0"
    and "\<forall>h. \<not> ata_data (ata_status E base h)"
  shows "fst (ide_read_sectors E drive lba count buf s) = - 1 \<and>
    ram (snd (ide_read_sectors E drive lba count buf s)) = ram s"
proof -
  define u where "u = ide_wait_400ns E base (ide_command base sel lba count False s)"
  have same: "same_words s u" unfolding u_def by (rule same_words_trans [OF command_same wait_400ns_same])
  have "fst (ide_wait_ready_impl E base 1000000 u) \<noteq> 0"
    using poll_loop_zero [of E base 1000000 0 u] assms(4)
    by (auto simp: ide_wait_ready_impl_def ide_poll_def)
  moreover obtain n where "unat count = Suc n" using assms(3) by (cases "unat count") (auto simp: unat_eq_zero)
  ultimately have loop: "ide_sectors_loop E base False buf 0 (unat count) u =
      (- 1, snd (ide_wait_ready_impl E base 1000000 u))" by (simp add: split_beta Let_def)
  have "ide_read_sectors E drive lba count buf s = (- 1, snd (ide_wait_ready_impl E base 1000000 u))"
    using assms(1,3) loop
    by (simp add: ide_read_sectors_def ide_read_write_sectors_def assms(2) u_def [symmetric] Let_def)
  then show ?thesis using same wait_ready_same [of u E base 1000000] by (simp add: same_words_def)
qed

theorem ide_read_sectors_fails_witness:
  "fst (ide_read_sectors (\<lambda>_ _. 0xFF) 0 5 1 0x9000 sample_ide) = - 1"
proof -
  have p: "\<not> ide_missing 0 sample_ide" by (simp add: ide_missing_def sample_ide_def pci_state.defs)
  have d: "drive_base 0 = (0x1F0, 0)" by (simp add: drive_base_def)
  have f: "\<forall>h. \<not> ata_data (ata_status (\<lambda>_ _. 0xFF) 0x1F0 h)" by (simp add: ata_data_def ata_status_def)
  from ide_read_sectors_fails [OF p d _ f, of 1] show ?thesis by simp
qed

subsection \<open>Detection\<close>

definition ide_flags :: "'a ide_state_scheme \<Rightarrow> u8 \<times> u8 \<times> u8 \<times> u8" where
  "ide_flags s = (ide_primary_master s, ide_primary_slave s, ide_secondary_master s, ide_secondary_slave s)"

lemma ide_flags_draw [simp]: "ide_flags (fb_draw_string msg x y fg bg s) = ide_flags s"
  using draw_string_ram [of msg x y fg bg s] by (auto simp: ide_flags_def)

lemma ide_flags_probe [simp]: "ide_flags (snd (ide_probe E base sel s)) = ide_flags s"
  by (simp add: ide_flags_def ide_probe_def ide_select_drive_def outb_def inb_def Let_def)

lemma inw_words_state: "\<exists>h. snd (inw_words E base n s) = s\<lparr>io_trace := h\<rparr>"
proof (induction n arbitrary: s)
  case 0
  show ?case by (intro exI [of _ "io_trace s"]) simp
next
  case (Suc n)
  obtain h where "snd (inw_words E base n (snd (inw E base s))) = (snd (inw E base s))\<lparr>io_trace := h\<rparr>"
    using Suc by blast
  then show ?case by (intro exI [of _ h]) (simp add: split_beta Let_def inw_def)
qed

lemma ide_flags_fetch [simp]: "ide_flags (snd (ide_fetch E base s)) = ide_flags s"
proof -
  let ?u = "snd (ide_wait_ready_impl E base 100000 s)"
  have e: "?u = s\<lparr>io_trace := io_trace ?u, ide_last_status := ide_last_status ?u, ide_last_error := ide_last_error ?u\<rparr>"
    using wait_ready_polled [of 100000 s E base] by (simp only: polled_def)
  have "ide_flags ?u = ide_flags s" by (subst e) (simp add: ide_flags_def)
  moreover obtain h where "snd (inw_words E base 256 ?u) = ?u\<lparr>io_trace := h\<rparr>" using inw_words_state by blast
  ultimately show ?thesis by (simp add: ide_fetch_def split_beta Let_def ide_flags_def)
qed

lemma ide_probe_status: "\<forall>h. ata_status E base h = v \<Longrightarrow> fst (ide_probe E base sel s) = v"
  by (simp add: ide_probe_def ata_status_def inb_def Let_def)

lemma ide_init_flags:
  assumes "ide_flags s = (a, b, c, d)"
  shows "ide_flags (ide_init_primary_master E s) =
      (if fst (ide_probe E IDE_PRIMARY_BASE 0 s) \<noteq> 0 then (1, b, c, d) else (a, b, c, d))"
    and "ide_flags (ide_init_primary_slave E s) =
      (if fst (ide_probe E IDE_PRIMARY_BASE 1 s) \<noteq> 0 then (a, 1, c, d) else (a, b, c, d))"
    and "ide_flags (ide_init_secondary_master E s) =
      (if fst (ide_probe E IDE_SECONDARY_BASE 0 s) \<noteq> 0 then (a, b, 1, d) else (a, b, c, d))"
    and "ide_flags (ide_init_secondary_slave E s) =
      (if fst (ide_probe E IDE_SECONDARY_BASE 1 s) \<noteq> 0 then (a, b, c, 1) else (a, b, c, d))"
proof -
  have f: "ide_flags (snd (ide_fetch E base (snd (ide_probe E base sel s)))) = (a, b, c, d)" for base sel
    using assms by simp
  have u: "ide_flags (v\<lparr>ide_primary_master := 1, ide_primary_master_sectors := n\<rparr>) = (1, b, c, d)"
    "ide_flags (v\<lparr>ide_primary_slave := 1, ide_primary_slave_sectors := n\<rparr>) = (a, 1, c, d)"
    "ide_flags (v\<lparr>ide_secondary_master := 1, ide_secondary_master_sectors := n\<rparr>) = (a, b, 1, d)"
    "ide_flags (v\<lparr>ide_secondary_slave := 1, ide_secondary_slave_sectors := n\<rparr>) = (a, b, c, 1)"
    if "ide_flags v = (a, b, c, d)" for v :: "'a ide_state_scheme" and n
    using that by (simp_all add: ide_flags_def)
  show "ide_flags (ide_init_primary_master E s) =
      (if fst (ide_probe E IDE_PRIMARY_BASE 0 s) \<noteq> 0 then (1, b, c, d) else (a, b, c, d))"
    "ide_flags (ide_init_primary_slave E s) =
      (if fst (ide_probe E IDE_PRIMARY_BASE 1 s) \<noteq> 0 then (a, 1, c, d) else (a, b, c, d))"
    "ide_flags (ide_init_secondary_master E s) =
      (if fst (ide_probe E IDE_SECONDARY_BASE 0 s) \<noteq> 0 then (a, b, 1, d) else (a, b, c, d))"
    "ide_flags (ide_init_secondary_slave E s) =
      (if fst (ide_probe E IDE_SECONDARY_BASE 1 s) \<noteq> 0 then (a, b, c, 1) else (a, b, c, d))"
    using assms
    by (simp_all add: ide_init_primary_master_def ide_init_primary_slave_def ide_init_secondary_master_def
        ide_init_secondary_slave_def split_beta Let_def u [OF f])
qed

text \<open>\<open>ide_init\<close> counts a drive as present whenever the status after IDENTIFY is not zero,
  whatever the drive then does: a bus nobody drives, which reads as 0xFF, is two drives.\<close>

theorem ide_init_presence:
  assumes "uart_responsive E" "\<forall>h. ata_status E IDE_PRIMARY_BASE h = p" "\<forall>h. ata_status E IDE_SECONDARY_BASE h = q"
    and "ide_flags s = (0, 0, 0, 0)"
  shows "\<exists>t. ide_init E s = Some t \<and>
    ide_detect_drives t = (if p \<noteq> 0 then 2 else 0) + (if q \<noteq> 0 then 2 else 0)"
proof -
  note puts = serial_puts_spec [OF assms(1)]
  have fl: "ide_flags (v\<lparr>io_trace := h\<rparr>) = ide_flags v" "ide_flags (outb pt b v) = ide_flags v"
    for v :: "'a ide_state_scheme" and h pt b by (simp_all add: ide_flags_def outb_def)
  obtain h1 where h1: "serial_puts E (asc ''[IDE] start'' @ [10]) s = Some (s\<lparr>io_trace := h1\<rparr>)" using puts by blast
  define s1 where "s1 = outb (IDE_SECONDARY_CTRL + 2) 0x02 (outb (IDE_PRIMARY_CTRL + 2) 0x02
    (fb_draw_string (asc ''IDE: Initializing IDE controller...'') 16 256 FB_COLOR_WHITE FB_COLOR_BLACK (s\<lparr>io_trace := h1\<rparr>)))"
  obtain h2 where h2: "serial_puts E (asc ''[IDE] master'' @ [10]) s1 = Some (s1\<lparr>io_trace := h2\<rparr>)" using puts by blast
  define s2 where "s2 = s1\<lparr>io_trace := h2\<rparr>"
  define s3 where "s3 = ide_init_secondary_slave E (ide_init_secondary_master E
    (ide_init_primary_slave E (ide_init_primary_master E s2)))"
  define s4 where "s4 = fb_draw_string (asc ''IDE: Initialization complete'') 16 352 FB_COLOR_GREEN FB_COLOR_BLACK s3"
  obtain h5 where h5: "serial_puts E (asc ''[IDE] done'' @ [10]) s4 = Some (s4\<lparr>io_trace := h5\<rparr>)" using puts by blast
  have init: "ide_init E s = Some (s4\<lparr>io_trace := h5\<rparr>)"
    by (simp only: ide_init_def Let_def h1 Option.bind.simps s1_def [symmetric] h2 s2_def [symmetric]
        s3_def [symmetric] s4_def [symmetric] h5)
  have "ide_flags s2 = (0, 0, 0, 0)" using assms(4) by (simp add: s2_def s1_def fl)
  then have m: "ide_flags (ide_init_primary_master E s2) = (if p \<noteq> 0 then 1 else 0, 0, 0, 0)"
    by (simp add: ide_init_flags(1) ide_probe_status [OF assms(2)])
  have l: "ide_flags (ide_init_primary_slave E (ide_init_primary_master E s2)) =
      (if p \<noteq> 0 then 1 else 0, if p \<noteq> 0 then 1 else 0, 0, 0)"
    by (simp add: ide_init_flags(2) [OF m] ide_probe_status [OF assms(2)])
  have n: "ide_flags (ide_init_secondary_master E (ide_init_primary_slave E (ide_init_primary_master E s2))) =
      (if p \<noteq> 0 then 1 else 0, if p \<noteq> 0 then 1 else 0, if q \<noteq> 0 then 1 else 0, 0)"
    by (simp add: ide_init_flags(3) [OF l] ide_probe_status [OF assms(3)])
  have "ide_flags s3 =
      (if p \<noteq> 0 then 1 else 0, if p \<noteq> 0 then 1 else 0, if q \<noteq> 0 then 1 else 0, if q \<noteq> 0 then 1 else 0)"
    unfolding s3_def by (simp add: ide_init_flags(4) [OF n] ide_probe_status [OF assms(3)])
  then have "ide_flags (s4\<lparr>io_trace := h5\<rparr>) =
      (if p \<noteq> 0 then 1 else 0, if p \<noteq> 0 then 1 else 0, if q \<noteq> 0 then 1 else 0, if q \<noteq> 0 then 1 else 0)"
    by (simp only: fl s4_def ide_flags_draw)
  then show ?thesis unfolding init by (simp add: ide_detect_drives_def ide_flags_def)
qed

theorem ide_init_presence_witness:
  "\<exists>t. ide_init (\<lambda>_ _. 0xFF) (sample_ide\<lparr>ide_primary_master := 0\<rparr>) = Some t \<and> ide_detect_drives t = 4"
proof -
  have u: "uart_responsive (\<lambda>_ _. 0xFF)"
    unfolding uart_responsive_def by (intro allI exI [of _ 0]) (simp add: lsr_ready_def)
  have a: "\<forall>h. ata_status (\<lambda>_ _. 0xFF) b h = 0xFF" for b by (simp add: ata_status_def)
  have f: "ide_flags (sample_ide\<lparr>ide_primary_master := 0\<rparr>) = (0, 0, 0, 0)"
    by (simp add: ide_flags_def sample_ide_def pci_state.defs)
  from ide_init_presence [OF u a a f] show ?thesis by simp
qed

end
