(* ===== verification/Sysinfo.thy ===== *)
theory Sysinfo
  imports Ide
begin

section \<open>\<^verbatim>\<open>sysinfo.c\<close>: what the kernel knows of the machine\<close>

text \<open>
  The processor's \<open>cpuid\<close> is a parameter from the leaf to the four registers
  \<open>(eax, ebx, ecx, edx)\<close>. The static strings are byte arrays of the state; a getter copies one
  to a buffer in memory. \<open>boot_info\<close> is a pointer: \<open>None\<close> is NULL, and dereferencing it is a
  fault. The feature list is the fold of one guarded copy per line of the code over the table
  of bit, room wanted, and bytes copied; the bytes are the ones \<open>memcpy\<close> takes, so a length
  beyond the literal copies its terminating NUL.
\<close>

type_synonym cpuid = "u32 \<Rightarrow> u32 \<times> u32 \<times> u32 \<times> u32"

record sys_state = ide_state +
  sys_boot_info :: "boot_info option"
  cpu_vendor_str :: "u8 list"
  cpu_brand_str :: "u8 list"
  cpu_features_edx :: u32
  cpu_features_ecx :: u32

text \<open>Bytes written into an array from index \<open>k\<close>.\<close>

fun poke :: "nat \<Rightarrow> u8 list \<Rightarrow> u8 list \<Rightarrow> u8 list" where
  "poke k [] xs = xs"
| "poke k (b # bs) xs = poke (Suc k) bs (xs[k := b])"

definition sysinfo_init :: "cpuid \<Rightarrow> boot_info option \<Rightarrow> 'a sys_state_scheme \<Rightarrow> 'a sys_state_scheme" where
  "sysinfo_init cpuid info s =
     (let s = s\<lparr>sys_boot_info := info\<rparr>;
          (eax, ebx, ecx, edx) = cpuid 0;
          v = poke 0 (le_bytes 4 ebx) (cpu_vendor_str s);
          v = poke 4 (le_bytes 4 edx) v;
          v = poke 8 (le_bytes 4 ecx) v;
          s = s\<lparr>cpu_vendor_str := v[12 := 0]\<rparr>;
          (eax, ebx, ecx, edx) = cpuid 1;
          s = s\<lparr>cpu_features_edx := edx, cpu_features_ecx := ecx\<rparr>;
          b = fold (\<lambda>i b.
                let (eax, ebx, ecx, edx) = cpuid (0x80000002 + of_nat i);
                    b = poke (16 * i) (le_bytes 4 eax) b;
                    b = poke (16 * i + 4) (le_bytes 4 ebx) b;
                    b = poke (16 * i + 8) (le_bytes 4 ecx) b
                in poke (16 * i + 12) (le_bytes 4 edx) b) [0..<3] (cpu_brand_str s)
      in s\<lparr>cpu_brand_str := b[48 := 0]\<rparr>)"

definition sysinfo_get_cpu_vendor :: "u64 \<Rightarrow> 'a sys_state_scheme \<Rightarrow> 'a sys_state_scheme" where
  "sysinfo_get_cpu_vendor buf s = s\<lparr>ram := store_bytes buf (take 13 (cpu_vendor_str s)) (ram s)\<rparr>"

definition sysinfo_get_cpu_brand :: "u64 \<Rightarrow> 'a sys_state_scheme \<Rightarrow> 'a sys_state_scheme" where
  "sysinfo_get_cpu_brand buf s = s\<lparr>ram := store_bytes buf (take 49 (cpu_brand_str s)) (ram s)\<rparr>"

definition sysinfo_get_ram_total :: "'a sys_state_scheme \<Rightarrow> u64" where
  "sysinfo_get_ram_total s = mem_total_bytes s"

definition sysinfo_get_screen_res :: "'a sys_state_scheme \<Rightarrow> u64 \<times> u64" where
  "sysinfo_get_screen_res s =
     (case sys_boot_info s of
        Some info \<Rightarrow> (info_fb_width info, info_fb_height info)
      | None \<Rightarrow> (0, 0))"

definition sysinfo_get_os_version :: "u64 \<Rightarrow> 'a sys_state_scheme \<Rightarrow> 'a sys_state_scheme" where
  "sysinfo_get_os_version buf s = s\<lparr>ram := store_bytes buf (asc ''OS44 v0.1'' @ [0]) (ram s)\<rparr>"

definition sysinfo_get_uefi_vendor :: "u64 \<Rightarrow> 'a sys_state_scheme \<Rightarrow> 'a sys_state_scheme option" where
  "sysinfo_get_uefi_vendor buf s = do {
     info \<leftarrow> sys_boot_info s;
     let m = fold (\<lambda>i m. m(buf + of_nat i := ucast (fw_vendor info ! i))) [0..<32] (ram s);
     Some (s\<lparr>ram := m(buf + 32 := 0)\<rparr>)
   }"

definition sysinfo_get_uefi_revision :: "'a sys_state_scheme \<Rightarrow> u32 option" where
  "sysinfo_get_uefi_revision s = do { info \<leftarrow> sys_boot_info s; Some (fw_revision info) }"

definition sysinfo_get_uptime :: "'a sys_state_scheme \<Rightarrow> u64" where
  "sysinfo_get_uptime s = timer_get_uptime_seconds s"

text \<open>The values of \<open>*used\<close> and \<open>*total\<close>.\<close>

definition sysinfo_get_mem_usage :: "'a sys_state_scheme \<Rightarrow> u64 \<times> u64" where
  "sysinfo_get_mem_usage s =
     (let total = mem_total_bytes s;
          free_frames = pmm_get_free_frames s;
          used_frames = total div 4096 - free_frames
      in (used_frames * 4096, total))"

definition sysinfo_get_cpu_features_edx :: "'a sys_state_scheme \<Rightarrow> u64" where
  "sysinfo_get_cpu_features_edx s = ucast (cpu_features_edx s)"

definition sysinfo_get_cpu_features_ecx :: "'a sys_state_scheme \<Rightarrow> u64" where
  "sysinfo_get_cpu_features_ecx s = ucast (cpu_features_ecx s)"

definition sysinfo_get_lapic_id :: "cpuid \<Rightarrow> u32" where
  "sysinfo_get_lapic_id cpuid = (let (eax, ebx, ecx, edx) = cpuid 1 in drop_bit 24 ebx AND 0xFF)"

definition sysinfo_get_core_count :: "cpuid \<Rightarrow> u32" where
  "sysinfo_get_core_count cpuid = (let (eax, ebx, ecx, edx) = cpuid 1 in drop_bit 16 ebx AND 0xFF)"

text \<open>Bit tested, \<open>k\<close> of the guard \<open>pos + k < (int)cap\<close>, bytes copied.\<close>

definition feature_table :: "(nat \<times> int \<times> u8 list) list" where
  "feature_table =
     [(0, 3, asc ''FPU ''), (1, 4, asc ''VME  ''), (2, 4, asc ''DE   ''), (3, 4, asc ''PSE  ''),
      (4, 4, asc ''TSC  ''), (5, 4, asc ''MSR  ''), (8, 5, asc ''CX8  ''), (9, 5, asc ''APIC ''),
      (11, 5, asc ''SEP  ''), (15, 5, asc ''CMOV ''), (23, 5, asc ''MMX  ''), (24, 5, asc ''FXSR ''),
      (25, 4, asc ''SSE ''), (26, 5, asc ''SSE2 ''),
      (33, 5, asc ''SSE3 ''), (35, 6, asc ''FMA  ''), (36, 7, asc ''CX16 '' @ [0]), (41, 7, asc ''SSE41 ''),
      (42, 7, asc ''SSE42 ''), (43, 5, asc ''X2APIC''), (57, 4, asc ''AVX ''), (58, 5, asc ''AVX2 ''),
      (62, 7, asc ''AVX512'')]"

definition feature_step ::
  "u64 \<Rightarrow> int \<Rightarrow> u64 \<Rightarrow> nat \<times> int \<times> u8 list \<Rightarrow> int \<times> ram \<Rightarrow> int \<times> ram" where
  "feature_step features cap buf f st =
     (let (b, room, bytes) = f; (pos, m) = st
      in if bit features b \<and> pos + room < cap
         then (pos + int (length bytes), store_bytes (buf + word_of_int pos) bytes m)
         else (pos, m))"

definition cpu_features_word :: "'a sys_state_scheme \<Rightarrow> u64" where
  "cpu_features_word s =
     (let edx = ucast (cpu_features_edx s); ecx = ucast (cpu_features_ecx s)
      in (edx AND 0xFFFFFFFF) OR push_bit 32 (ecx AND 0xFFFFFFFF))"

definition sysinfo_get_cpu_features :: "u64 \<Rightarrow> u64 \<Rightarrow> 'a sys_state_scheme \<Rightarrow> 'a sys_state_scheme" where
  "sysinfo_get_cpu_features buf cap s =
     (let features = cpu_features_word s;
          cap = (if cap = 0 then 0xFFFFFFFFFFFFFFFF else cap);
          (pos, m) = fold (feature_step features (sint (ucast cap :: u32)) buf) feature_table (0, ram s);
          pos = (if 0 < pos \<and> m (buf + word_of_int (pos - 1)) = 32 then pos - 1 else pos)
      in s\<lparr>ram := m(buf + word_of_int pos := 0)\<rparr>)"

subsection \<open>The feature list\<close>

lemma feature_room: "\<forall>(b, room, bytes) \<in> set feature_table. 0 \<le> room \<and> int (length bytes) \<le> room + 1"
  by (simp add: feature_table_def asc_def)

text \<open>The position stays within \<open>cap\<close> and the bytes from \<open>cap\<close> on are untouched.\<close>

definition features_inv :: "int \<Rightarrow> u64 \<Rightarrow> ram \<Rightarrow> int \<times> ram \<Rightarrow> bool" where
  "features_inv cap buf m0 st \<longleftrightarrow>
     0 \<le> fst st \<and> fst st \<le> cap \<and> (\<forall>a. cap \<le> int (unat (a - buf)) \<longrightarrow> snd st a = m0 a)"

lemma feature_step_inv:
  assumes "features_inv cap buf m0 st" "f \<in> set feature_table" "cap < 2 ^ 31"
  shows "features_inv cap buf m0 (feature_step features cap buf f st)"
proof -
  obtain b room bytes where f: "f = (b, room, bytes)" by (cases f)
  obtain p m where st: "st = (p, m)" by (cases st)
  have len: "int (length bytes) \<le> room + 1" using feature_room assms(2) by (auto simp: f)
  show ?thesis
  proof (cases "bit features b \<and> p + room < cap")
    case False
    then show ?thesis using assms(1) by (auto simp: feature_step_def f st)
  next
    case True
    define n where "n = nat p"
    have p: "p = int n" "int n + int (length bytes) \<le> cap"
      using assms(1) len True by (simp_all add: features_inv_def st n_def)
    have "store_bytes (buf + word_of_int p) bytes m a = m a" if "cap \<le> int (unat (a - buf))" for a
    proof (rule store_bytes_outside)
      show "length bytes \<le> 2 ^ 64" using p(2) assms(3) by simp
      have "n + length bytes \<le> unat (a - buf)" using that p(2) by linarith
      moreover have "n < 2 ^ 64" using p(2) assms(3) by simp
      ultimately show "length bytes \<le> unat (a - (buf + word_of_int p))"
        using unat_sub_shift(2) [of n 0 a buf] by (simp add: p(1))
    qed
    then show ?thesis using assms(1) True p by (simp add: feature_step_def f st features_inv_def)
  qed
qed

lemma features_fold_inv:
  "features_inv cap buf m0 st \<Longrightarrow> set fs \<subseteq> set feature_table \<Longrightarrow> cap < 2 ^ 31 \<Longrightarrow>
   features_inv cap buf m0 (fold (feature_step features cap buf) fs st)"
proof (induction fs arbitrary: st)
  case (Cons f fs)
  have "features_inv cap buf m0 (feature_step features cap buf f st)"
    using Cons.prems by (intro feature_step_inv) simp_all
  then show ?case using Cons.IH Cons.prems by simp
qed simp

lemma sint_cap: "unat (cap :: u64) < 2 ^ 31 \<Longrightarrow> sint (ucast cap :: u32) = int (unat cap)"
proof -
  assume c: "unat cap < 2 ^ 31"
  then have "unat (ucast cap :: u32) = unat cap"
    by (simp add: unsigned_ucast_eq take_bit_nat_eq_self)
  then have u: "uint (ucast cap :: u32) = int (unat cap)" by (metis uint_nat)
  have "signed_take_bit 31 (int n) = int n" if "n < 2 ^ 31" for n
    using that by (intro signed_take_bit_int_eq_self) auto
  from this [OF c] show ?thesis unfolding sint_uint u by simp
qed

lemma features_outside:
  assumes "0 < cap" "unat cap < 2 ^ 31" "unat cap < unat (a - buf)"
  shows "ram (sysinfo_get_cpu_features buf cap s) a = ram s a"
proof -
  define features where "features = cpu_features_word s"
  define c where "c = int (unat cap)"
  have "0 < unat cap" using assms(1) by (simp add: word_less_nat_alt)
  then have "int 0 < c" "c < int (2 ^ 31)" "c < int (unat (a - buf))"
    using assms(2,3) unfolding c_def by (simp_all only: of_nat_less_iff)
  then have c: "0 < c" "c < 2 ^ 31" "c < int (unat (a - buf))" by simp_all
  obtain p m where pm: "fold (feature_step features c buf) feature_table (0, ram s) = (p, m)" by fastforce
  have "features_inv c buf (ram s) (0, ram s)" using c by (simp add: features_inv_def)
  from features_fold_inv [OF this, of feature_table features]
  have inv: "features_inv c buf (ram s) (p, m)" using c by (simp add: pm)
  have ne: "a \<noteq> buf + word_of_int q" if "0 \<le> q" "q \<le> p" for q
  proof
    assume a: "a = buf + word_of_int q"
    have q: "0 \<le> q" "q \<le> c" using that inv by (simp_all add: features_inv_def)
    then have "word_of_int q = (of_nat (nat q) :: u64)" by simp
    moreover have "nat q < 2 ^ 64" using q c(2) by (simp add: nat_less_iff)
    ultimately have "unat (a - buf) = nat q" using a by (simp add: unat_of_nat_u64)
    then show False using q c(3) by linarith
  qed
  have f: "sysinfo_get_cpu_features buf cap s =
      s\<lparr>ram := m(buf + word_of_int (if 0 < p \<and> m (buf + word_of_int (p - 1)) = 32 then p - 1 else p) := 0)\<rparr>"
    using assms(1) by (simp add: sysinfo_get_cpu_features_def Let_def sint_cap [OF assms(2)]
        c_def [symmetric] features_def [symmetric] pm word_gt_0 del: int_nat_eq of_nat_unat)
  have "m a = ram s a" using inv c(3) by (simp add: features_inv_def)
  moreover have "0 \<le> p" using inv by (simp add: features_inv_def)
  ultimately show ?thesis unfolding f using ne [of p] ne [of "p - 1"] by simp
qed

subsection \<open>Properties\<close>

text \<open>\<open>sysinfo_get_cpu_features\<close> writes nothing beyond the byte after the \<open>cap\<close> bytes of
  the buffer.\<close>

theorem sysinfo_features_bounded:
  assumes "0 < cap" "unat cap < 2 ^ 31" "unat cap < unat (a - buf)"
  shows "ram (sysinfo_get_cpu_features buf cap s) a = ram s a"
  using assms by (rule features_outside)

definition sample_sys :: "u32 \<Rightarrow> sys_state" where
  "sample_sys ecx = ide_state.extend (ide_state.truncate sample_ide)
     \<lparr>sys_boot_info = None, cpu_vendor_str = replicate 16 0, cpu_brand_str = replicate 49 0,
      cpu_features_edx = 0, cpu_features_ecx = ecx\<rparr>"

theorem sysinfo_features_bounded_witness:
  "ram (sysinfo_get_cpu_features 0x9000 6 (sample_sys 0x800)) 0x9007 = ram (sample_sys 0x800) 0x9007"
  by (rule sysinfo_features_bounded) simp_all

text \<open>the byte after the buffer is reached: with only the X2APIC bit set and a buffer of 6
  bytes, the terminating NUL is written outside it.\<close>

theorem sysinfo_features_overflow:
  assumes "cpu_features_edx s = 0" "cpu_features_ecx s = 0x800"
  shows "ram (sysinfo_get_cpu_features buf 6 s) (buf + 6) = 0 \<and>
    load_bytes 6 buf (ram (sysinfo_get_cpu_features buf 6 s)) = asc ''X2APIC''"
proof -
  have bits: "filter (\<lambda>(b, room, bytes). bit (0x80000000000 :: u64) b) feature_table = [(43, 5, asc ''X2APIC'')]"
    by code_simp
  have skip: "fold (feature_step v c buf) fs st = fold (feature_step v c buf) (filter (\<lambda>(b, room, bytes). bit v b) fs) st"
    for v c fs st by (induction fs arbitrary: st) (auto simp: feature_step_def split_beta)
  have tab: "fold (feature_step 0x80000000000 6 buf) feature_table (0, ram s) =
      (6, store_bytes buf (asc ''X2APIC'') (ram s))"
    by (subst skip) (simp only: bits, simp add: feature_step_def asc_def)
  have last: "store_bytes buf (asc ''X2APIC'') m (buf + 5) \<noteq> 32" for m
    by (simp add: store_bytes_apply asc_def)
  have f: "sysinfo_get_cpu_features buf 6 s =
      s\<lparr>ram := (store_bytes buf (asc ''X2APIC'') (ram s))(buf + 6 := 0)\<rparr>"
    using assms by (simp add: sysinfo_get_cpu_features_def cpu_features_word_def tab Let_def last)
  have "load_bytes 6 buf ((store_bytes buf (asc ''X2APIC'') m)(buf + 6 := 0)) = asc ''X2APIC''" for m
  proof -
    have "[0..<6] = [0, 1, 2, 3, 4, 5 :: nat]" by code_simp
    then show ?thesis by (simp add: load_bytes_def store_bytes_apply asc_def)
  qed
  then show ?thesis by (simp add: f)
qed

theorem sysinfo_features_overflow_witness:
  "ram (sysinfo_get_cpu_features 0x9000 6 (sample_sys 0x800)) 0x9006 = 0"
  using sysinfo_features_overflow [of "sample_sys 0x800" "0x9000"]
  by (simp add: sample_sys_def ide_state.defs)

text \<open>a capacity of 0, which the code replaces by the largest one, is -1 in the signed
  comparisons, so no feature at all is listed.\<close>

theorem sysinfo_features_cap_zero:
  "sysinfo_get_cpu_features buf 0 s = s\<lparr>ram := (ram s)(buf := 0)\<rparr>"
proof -
  have "sint (ucast (0xFFFFFFFFFFFFFFFF :: u64) :: u32) = - 1" by simp
  moreover have "fold (feature_step v (- 1) buf) fs (0, m) = (0, m)" if "set fs \<subseteq> set feature_table" for v fs m
    using that
  proof (induction fs)
    case (Cons f fs)
    then have "0 \<le> fst (snd f)" using feature_room by auto
    then show ?case using Cons by (simp add: feature_step_def split_beta)
  qed simp
  ultimately show ?thesis by (simp add: sysinfo_get_cpu_features_def Let_def)
qed

end
