(* ===== verification/Debug_Panel.thy ===== *)
theory Debug_Panel
  imports Sysinfo
begin

section \<open>\<^verbatim>\<open>debug_panel.c\<close>: the status screen\<close>

text \<open>
  One definition per section of the screen; each takes the line \<open>y\<close> and the state and gives
  both back, as an option because the log lines between them wait for the serial port. The
  local buffers that \<open>sysinfo\<close> fills (\<open>vendor\<close>, \<open>brand\<close>, \<open>features\<close>, \<open>fw_vendor\<close>) are
  on the stack, in memory: their addresses are the parameter \<open>panel_stack\<close>. The text buffers
  only the panel uses are the \<open>line\<close>s of \<open>Interrupts\<close>, whose append routines
  \<open>debug_panel.c\<close> repeats word for word.
\<close>

record panel_state = sys_state +
  test_pmm_status :: u32
  test_vmm_status :: u32
  frame_counter :: u64

record panel_stack =
  vendor_buf :: u64
  brand_buf :: u64
  features_buf :: u64
  fw_vendor_buf :: u64

abbreviation FB_COLOR_CYAN :: u32 where "FB_COLOR_CYAN \<equiv> 0x0000FFFF"
abbreviation FB_COLOR_YELLOW :: u32 where "FB_COLOR_YELLOW \<equiv> 0x00FFFF00"
abbreviation PANEL_X :: u64 where "PANEL_X \<equiv> 16"
abbreviation BUF_CAP :: u64 where "BUF_CAP \<equiv> 256"

subsection \<open>Text\<close>

definition str_append :: "u64 \<Rightarrow> u8 list \<Rightarrow> line \<Rightarrow> line" where
  "str_append cap xs l = append_str cap xs l"

definition str_append_dec :: "u64 \<Rightarrow> u64 \<Rightarrow> line \<Rightarrow> line" where
  "str_append_dec cap v l = append_dec cap v l"

definition str_append_hex :: "u64 \<Rightarrow> u64 \<Rightarrow> line \<Rightarrow> line" where
  "str_append_hex cap v l = append_hex cap v l"

text \<open>An unchecked \<open>buf[pos++] = c\<close>, an empty array, and the string once \<open>buf[pos] = '\0'\<close>.\<close>

definition put_char :: "u8 \<Rightarrow> line \<Rightarrow> line" where
  "put_char c l = ((fst l)[unat (snd l) := c], snd l + 1)"

definition new_line :: "nat \<Rightarrow> line" where
  "new_line n = (replicate n 0, 0)"

definition text_of :: "line \<Rightarrow> u8 list" where
  "text_of l = c_string ((fst l)[unat (snd l) := 0])"

definition string_at :: "u64 \<Rightarrow> nat \<Rightarrow> 'a machine_scheme \<Rightarrow> u8 list" where
  "string_at a n s = c_string (load_bytes n a (ram s))"

definition format_uptime :: "u64 \<Rightarrow> u8 list" where
  "format_uptime seconds =
     (let h = seconds div 3600;
          m = (seconds mod 3600) div 60;
          s = seconds mod 60;
          l = new_line 64;
          l = (if h < 10 then put_char 48 l else l);
          l = str_append_dec 64 h l;
          l = put_char 58 l;
          l = (if m < 10 then put_char 48 l else l);
          l = str_append_dec 64 m l;
          l = put_char 58 l;
          l = (if s < 10 then put_char 48 l else l);
          l = str_append_dec 64 s l
      in text_of l)"

definition format_size_mb :: "u64 \<Rightarrow> u8 list" where
  "format_size_mb bytes =
     (let l = str_append_dec 64 (bytes div (1024 * 1024)) (new_line 32);
          l = str_append 64 (asc '' MB'') l
      in text_of l)"

definition panel_line ::
  "u8 list \<Rightarrow> u8 list \<Rightarrow> u64 \<Rightarrow> u32 \<Rightarrow> 'a fb_state_scheme \<Rightarrow> u64 \<times> 'a fb_state_scheme" where
  "panel_line label val y label_color s =
     (let l = str_append BUF_CAP (asc ''  '') (new_line 256);
          l = str_append BUF_CAP label l;
          l = str_append BUF_CAP (asc '': '') l;
          l = str_append BUF_CAP val l;
          msg = c_string ((fst l)[unat (if snd l < BUF_CAP then snd l else BUF_CAP - 1) := 0])
      in (y + 16, fb_draw_string msg PANEL_X y label_color FB_COLOR_BLACK s))"

definition section_header :: "u8 list \<Rightarrow> u64 \<Rightarrow> 'a fb_state_scheme \<Rightarrow> u64 \<times> 'a fb_state_scheme" where
  "section_header title y s = (y + 16, fb_draw_string title PANEL_X y FB_COLOR_CYAN FB_COLOR_BLACK s)"

definition debug_panel_init :: "u32 \<Rightarrow> u32 \<Rightarrow> 'a panel_state_scheme \<Rightarrow> 'a panel_state_scheme" where
  "debug_panel_init pmm_status vmm_status s =
     s\<lparr>test_pmm_status := pmm_status, test_vmm_status := vmm_status\<rparr>"

subsection \<open>The sections of the screen\<close>

definition panel_header ::
  "io_env \<Rightarrow> u64 \<Rightarrow> 'a panel_state_scheme \<Rightarrow> (u64 \<times> 'a panel_state_scheme) option" where
  "panel_header E y s = do {
     s \<leftarrow> serial_puts E (asc ''[DP] render start'' @ [10]) s;
     let s = fb_clear FB_COLOR_BLACK s;
     let s = fb_draw_color_bar 0 40 s;
     s \<leftarrow> serial_puts E (asc ''[DP] colorbar'' @ [10]) s;
     let s = fb_draw_string (asc ''OS44 DEBUG PANEL'') PANEL_X y FB_COLOR_WHITE FB_COLOR_BLACK s;
     let y = y + 20;
     let uptime = sysinfo_get_uptime s;
     let buf = asc ''Uptime: '' @ format_uptime uptime;
     let s = fb_draw_string buf PANEL_X y FB_COLOR_WHITE FB_COLOR_BLACK s;
     Some (y + 20, s)
   }"

definition panel_cpu ::
  "io_env \<Rightarrow> cpuid \<Rightarrow> panel_stack \<Rightarrow> u64 \<Rightarrow> 'a panel_state_scheme \<Rightarrow> (u64 \<times> 'a panel_state_scheme) option" where
  "panel_cpu E cpuid stk y s = do {
     let (y, s) = section_header (asc ''--- CPU ---'') y s;
     let s = sysinfo_get_cpu_vendor (vendor_buf stk) s;
     let (y, s) = panel_line (asc ''Vendor'') (string_at (vendor_buf stk) 16 s) y FB_COLOR_WHITE s;
     let s = sysinfo_get_cpu_brand (brand_buf stk) s;
     s \<leftarrow> serial_puts E (asc ''[DP] cpu_brand: '') s;
     s \<leftarrow> serial_puts E (string_at (brand_buf stk) 49 s) s;
     s \<leftarrow> serial_puts E [10] s;
     let (y, s) = panel_line (asc ''Brand'') (string_at (brand_buf stk) 49 s) y FB_COLOR_WHITE s;
     let cores = text_of (str_append_dec 32 (ucast (sysinfo_get_core_count cpuid)) (new_line 32));
     let (y, s) = panel_line (asc ''Logical Cores'') cores y FB_COLOR_WHITE s;
     let s = sysinfo_get_cpu_features (features_buf stk) 256 s;
     s \<leftarrow> serial_puts E (asc ''[DP] features: '') s;
     s \<leftarrow> serial_puts E (string_at (features_buf stk) 256 s) s;
     s \<leftarrow> serial_puts E [10] s;
     let (y, s) = (if ram s (features_buf stk) \<noteq> 0
       then panel_line (asc ''Features'') (string_at (features_buf stk) 256 s) y FB_COLOR_WHITE s
       else (y, s));
     Some (y + 4, s)
   }"

definition panel_memory ::
  "io_env \<Rightarrow> u64 \<Rightarrow> 'a panel_state_scheme \<Rightarrow> (u64 \<times> 'a panel_state_scheme) option" where
  "panel_memory E y s = do {
     let (y, s) = section_header (asc ''--- MEMORY ---'') y s;
     let (mem_used, mem_total) = sysinfo_get_mem_usage s;
     let (y, s) = panel_line (asc ''Total RAM'') (format_size_mb mem_total) y FB_COLOR_WHITE s;
     let (y, s) = panel_line (asc ''Used'') (format_size_mb mem_used) y FB_COLOR_WHITE s;
     let mem_free = mem_total - mem_used;
     let (y, s) = panel_line (asc ''Free'') (format_size_mb mem_free) y FB_COLOR_WHITE s;
     let l = str_append_dec 32 (pmm_get_free_frames s) (new_line 32);
     let frames = text_of (str_append 32 (asc '' free pages'') l);
     s \<leftarrow> serial_puts E (asc ''[DP] pmm frames'' @ [10]) s;
     let (y, s) = panel_line (asc ''PMM'') frames y FB_COLOR_WHITE s;
     Some (y + 4, s)
   }"

definition panel_display :: "u64 \<Rightarrow> 'a panel_state_scheme \<Rightarrow> u64 \<times> 'a panel_state_scheme" where
  "panel_display y s =
     (let (y, s) = section_header (asc ''--- DISPLAY ---'') y s;
          (w, h) = sysinfo_get_screen_res s;
          res = text_of (str_append_dec 64 h (put_char 120 (str_append_dec 64 w (new_line 64))));
          (y, s) = panel_line (asc ''Resolution'') res y FB_COLOR_WHITE s;
          pitch = text_of (str_append 32 (asc '' bytes'') (str_append_dec 32 (fb_pitch s) (new_line 32)));
          (y, s) = panel_line (asc ''Pitch'') pitch y FB_COLOR_WHITE s;
          (y, s) = panel_line (asc ''Format'') (asc ''BGR 8-bit'') y FB_COLOR_WHITE s
      in (y + 4, s))"

definition panel_firmware ::
  "panel_stack \<Rightarrow> u64 \<Rightarrow> 'a panel_state_scheme \<Rightarrow> (u64 \<times> 'a panel_state_scheme) option" where
  "panel_firmware stk y s = do {
     let (y, s) = section_header (asc ''--- FIRMWARE ---'') y s;
     s \<leftarrow> sysinfo_get_uefi_vendor (fw_vendor_buf stk) s;
     let (y, s) = panel_line (asc ''UEFI Vendor'') (string_at (fw_vendor_buf stk) 33 s) y FB_COLOR_WHITE s;
     rev \<leftarrow> sysinfo_get_uefi_revision s;
     let rev_buf = text_of (str_append_hex 32 (ucast rev) (new_line 32));
     let (y, s) = panel_line (asc ''Revision'') rev_buf y FB_COLOR_WHITE s;
     let (y, s) = panel_line (asc ''MMap Size'') [] y FB_COLOR_WHITE s;
     Some (y + 4, s)
   }"

text \<open>One IDE drive: \<open>buf + 2\<close> drops the first two characters of the text.\<close>

definition panel_drive ::
  "u8 list \<Rightarrow> u8 \<Rightarrow> u32 \<Rightarrow> u64 \<Rightarrow> 'a panel_state_scheme \<Rightarrow> u64 \<times> 'a panel_state_scheme" where
  "panel_drive label present sectors y s =
     (if present \<noteq> 0 then
        let l = str_append BUF_CAP label (new_line 256);
            l = str_append_dec BUF_CAP (ucast (sectors div 2048)) l;
            l = str_append BUF_CAP (asc '' MB'') l
        in panel_line [] (drop 2 (text_of l)) y FB_COLOR_GREEN s
      else panel_line [] (label @ asc ''Not present'') y FB_COLOR_RED s)"

definition panel_ide :: "u64 \<Rightarrow> 'a panel_state_scheme \<Rightarrow> u64 \<times> 'a panel_state_scheme" where
  "panel_ide y s =
     (let (y, s) = panel_drive (asc ''[IDE] Primary Master   : '') (ide_primary_master s)
                     (ide_primary_master_sectors s) y s;
          (y, s) = panel_drive (asc ''[IDE] Primary Slave    : '') (ide_primary_slave s)
                     (ide_primary_slave_sectors s) y s;
          (y, s) = panel_drive (asc ''[IDE] Secondary Master : '') (ide_secondary_master s)
                     (ide_secondary_master_sectors s) y s
      in panel_drive (asc ''[IDE] Secondary Slave  : '') (ide_secondary_slave s)
           (ide_secondary_slave_sectors s) y s)"

definition panel_nvme :: "pci_device \<Rightarrow> bool \<times> u64 \<times> 'a panel_state_scheme \<Rightarrow> bool \<times> u64 \<times> 'a panel_state_scheme" where
  "panel_nvme dev st =
     (let (found, y, s) = st
      in if dev_class dev = 0x01 \<and> sub_class dev = 0x08 then
           let l = str_append BUF_CAP (asc ''[NVMe] '') (new_line 256);
               l = str_append_hex BUF_CAP (ucast (vendor_id dev)) l;
               l = str_append BUF_CAP (asc '':'') l;
               l = str_append_hex BUF_CAP (ucast (device_id dev)) l
           in (True, panel_line [] (drop 2 (text_of l)) y FB_COLOR_GREEN s)
         else (found, y, s))"

definition panel_sata :: "pci_device \<Rightarrow> bool \<times> u64 \<times> 'a panel_state_scheme \<Rightarrow> bool \<times> u64 \<times> 'a panel_state_scheme" where
  "panel_sata dev st =
     (let (found, y, s) = st
      in if dev_class dev = 0x01 \<and> sub_class dev = 0x06 then
           let l = str_append BUF_CAP (asc ''[SATA] AHCI Controller at '') (new_line 256);
               l = str_append_hex BUF_CAP (ucast (bar0 dev AND NOT 0xF)) l
           in (True, panel_line [] (drop 2 (text_of l)) y FB_COLOR_GREEN s)
         else (found, y, s))"

definition panel_storage :: "u64 \<Rightarrow> 'a panel_state_scheme \<Rightarrow> u64 \<times> 'a panel_state_scheme" where
  "panel_storage y s =
     (let (y, s) = section_header (asc ''--- STORAGE DEVICES ---'') y s;
          (y, s) = panel_ide y s;
          devs = take (pci_device_count s) (pci_devices s);
          (found_nvme, y, s) = fold panel_nvme devs (False, y, s);
          (y, s) = (if \<not> found_nvme then panel_line [] (asc ''[NVMe] No NVMe devices found'') y FB_COLOR_RED s
                    else (y, s));
          (found_sata, y, s) = fold panel_sata devs (False, y, s);
          (y, s) = (if \<not> found_sata then panel_line [] (asc ''[SATA] No AHCI controllers found'') y FB_COLOR_RED s
                    else (y, s))
      in (y + 4, s))"

definition hex_nibble :: "u8 \<Rightarrow> u8" where
  "hex_nibble n = (if n < 10 then 48 + n else 65 + n - 10)"

definition pci_addr_text :: "pci_device \<Rightarrow> u8 list" where
  "pci_addr_text dev =
     c_string [hex_nibble (drop_bit 4 (dev_bus dev)), hex_nibble (dev_bus dev AND 0xF), 58,
       hex_nibble (drop_bit 4 (dev_device dev)), hex_nibble (dev_device dev AND 0xF), 46,
       48 + dev_function dev, 0]"

definition pci_entry_text :: "pci_device \<Rightarrow> u8 list" where
  "pci_entry_text dev =
     (let l = str_append BUF_CAP (pci_addr_text dev) (new_line 256);
          l = str_append BUF_CAP (asc '' '') l;
          l = str_append BUF_CAP (pci_class_name (dev_class dev) (sub_class dev) (prog_if dev)) l;
          l = str_append BUF_CAP (asc '' ['') l;
          l = str_append_hex BUF_CAP (ucast (vendor_id dev)) l;
          l = str_append BUF_CAP (asc '':'') l;
          l = str_append_hex BUF_CAP (ucast (device_id dev)) l;
          l = str_append BUF_CAP (asc '']'') l;
          l = (if irq_line dev \<noteq> 0 \<and> irq_line dev \<noteq> 0xFF
               then str_append_dec BUF_CAP (ucast (irq_line dev)) (str_append BUF_CAP (asc '' IRQ:'') l)
               else l)
      in c_string ((fst l)[unat (if snd l < BUF_CAP then snd l else BUF_CAP - 1) := 0]))"

definition pci_entry_color :: "pci_device \<Rightarrow> u32" where
  "pci_entry_color dev =
     (if dev_class dev = 0x03 then FB_COLOR_GREEN
      else if dev_class dev = 0x02 then FB_COLOR_CYAN
      else if dev_class dev = 0x01 then FB_COLOR_YELLOW
      else FB_COLOR_WHITE)"

fun panel_pci_loop ::
  "pci_device list \<Rightarrow> u64 \<Rightarrow> 'a panel_state_scheme \<Rightarrow> u64 \<times> 'a panel_state_scheme" where
  "panel_pci_loop [] y s = (y, s)"
| "panel_pci_loop (dev # devs) y s =
     (if y < fb_height s - 16 then
        let s = fb_draw_string (asc ''  '') PANEL_X y FB_COLOR_BLACK FB_COLOR_BLACK s;
            s = fb_draw_string (pci_entry_text dev) (PANEL_X + 16) y (pci_entry_color dev) FB_COLOR_BLACK s
        in panel_pci_loop devs (y + 14) s
      else (y, s))"

definition panel_pci ::
  "io_env \<Rightarrow> u64 \<Rightarrow> 'a panel_state_scheme \<Rightarrow> (u64 \<times> 'a panel_state_scheme) option" where
  "panel_pci E y s = do {
     let (y, s) = section_header (asc ''--- PCI DEVICES ---'') y s;
     (y, s) \<leftarrow> (if pci_device_count s = 0
        then Some (panel_line (asc ''No PCI devices detected'') [] y FB_COLOR_RED s)
        else do {
          let (y, s) = panel_pci_loop (take (pci_device_count s) (pci_devices s)) y s;
          s \<leftarrow> serial_puts E (asc ''[DP] pci devices drawn'' @ [10]) s;
          Some (y, s)
        });
     Some (y + 4, s)
   }"

definition test_text :: "u32 \<Rightarrow> u8 list" where
  "test_text st = (if st = 1 then asc ''PASS'' else if st = 2 then asc ''FAIL'' else asc ''TESTING...'')"

definition panel_tests :: "u64 \<Rightarrow> 'a panel_state_scheme \<Rightarrow> u64 \<times> 'a panel_state_scheme" where
  "panel_tests y s =
     (let (y, s) = section_header (asc ''--- SELF-TESTS ---'') y s;
          (y, s) = panel_line (asc ''PMM Test'') (test_text (test_pmm_status s)) y FB_COLOR_WHITE s;
          (y, s) = panel_line (asc ''VMM Test'') (test_text (test_vmm_status s)) y FB_COLOR_WHITE s
      in (y + 4, s))"

definition panel_frame ::
  "io_env \<Rightarrow> u64 \<Rightarrow> 'a panel_state_scheme \<Rightarrow> 'a panel_state_scheme option" where
  "panel_frame E y s = do {
     let (y, s) = section_header (asc ''--- FRAME COUNTER ---'') y s;
     let s = s\<lparr>frame_counter := frame_counter s + 1\<rparr>;
     let l = str_append_dec BUF_CAP (frame_counter s) (str_append BUF_CAP (asc ''Frame: '') (new_line 256));
     let s = fb_draw_string (text_of l) PANEL_X y FB_COLOR_WHITE FB_COLOR_BLACK s;
     serial_puts E (asc ''[DP] render end'' @ [10]) s
   }"

definition debug_panel_render ::
  "io_env \<Rightarrow> cpuid \<Rightarrow> panel_stack \<Rightarrow> 'a panel_state_scheme \<Rightarrow> 'a panel_state_scheme option" where
  "debug_panel_render E cpuid stk s = do {
     (y, s) \<leftarrow> panel_header E 56 s;
     (y, s) \<leftarrow> panel_cpu E cpuid stk y s;
     (y, s) \<leftarrow> panel_memory E y s;
     let (y, s) = panel_display y s;
     (y, s) \<leftarrow> panel_firmware stk y s;
     let (y, s) = panel_storage y s;
     (y, s) \<leftarrow> panel_pci E y s;
     let (y, s) = panel_tests y s;
     panel_frame E y s
   }"

subsection \<open>What rendering may change\<close>

definition fb_area :: "'a fb_state_scheme \<Rightarrow> u64 set" where
  "fb_area s = {a. unat (a - fb_target s) < unat (screen_h s) * unat (fb_pitch_val s)}"

text \<open>\<open>t\<close> differs from \<open>s0\<close> in memory within \<open>S\<close>, in the history of port accesses, and in
  the frame counter, which is \<open>k\<close>.\<close>

definition panel_inv :: "u64 set \<Rightarrow> 'a panel_state_scheme \<Rightarrow> u64 \<Rightarrow> 'a panel_state_scheme \<Rightarrow> bool" where
  "panel_inv S s0 k t \<longleftrightarrow>
     t = s0\<lparr>ram := ram t, io_trace := io_trace t, frame_counter := k\<rparr> \<and> (\<forall>a. a \<notin> S \<longrightarrow> ram t a = ram s0 a)"

text \<open>A screen that can be drawn to inside \<open>S\<close>.\<close>

definition panel_ready :: "u64 set \<Rightarrow> 'a panel_state_scheme \<Rightarrow> bool" where
  "panel_ready S s \<longleftrightarrow>
     fb_ok s \<and> (use_double_buffer s \<longrightarrow> back_buffer s \<noteq> 0) \<and> sys_boot_info s \<noteq> None \<and> fb_area s \<subseteq> S \<and>
     length (cpu_vendor_str s) = 16 \<and> length (cpu_brand_str s) = 49"

lemma panel_inv_fields:
  assumes "panel_inv S s0 k t"
  shows "panel_ready S t = panel_ready S s0" "fb_area t = fb_area s0" "frame_counter t = k"
    "sys_boot_info t = sys_boot_info s0" "cpu_vendor_str t = cpu_vendor_str s0" "cpu_brand_str t = cpu_brand_str s0"
proof -
  have e: "t = s0\<lparr>ram := ram t, io_trace := io_trace t, frame_counter := k\<rparr>"
    using assms by (simp only: panel_inv_def)
  show "panel_ready S t = panel_ready S s0" "fb_area t = fb_area s0" "frame_counter t = k"
    "sys_boot_info t = sys_boot_info s0" "cpu_vendor_str t = cpu_vendor_str s0" "cpu_brand_str t = cpu_brand_str s0"
    by (subst e, simp add: panel_ready_def fb_area_def fb_ok_def fb_target_def)+
qed

lemma panel_inv_refl: "panel_inv S s (frame_counter s) s"
  by (simp add: panel_inv_def)

lemma panel_inv_ram:
  assumes "panel_inv S s0 k t" "\<And>a. a \<notin> S \<Longrightarrow> m a = ram t a"
  shows "panel_inv S s0 k (t\<lparr>ram := m\<rparr>)"
proof -
  have e: "t = s0\<lparr>ram := ram t, io_trace := io_trace t, frame_counter := k\<rparr>"
    using assms by (simp only: panel_inv_def)
  have "t\<lparr>ram := m\<rparr> = s0\<lparr>ram := m, io_trace := io_trace t, frame_counter := k\<rparr>"
    using arg_cong [OF e, of "\<lambda>t. t\<lparr>ram := m\<rparr>"] by simp
  then show ?thesis using assms by (simp add: panel_inv_def)
qed

lemma panel_inv_trace:
  assumes "panel_inv S s0 k t"
  shows "panel_inv S s0 k (t\<lparr>io_trace := h\<rparr>)"
proof -
  have e: "t = s0\<lparr>ram := ram t, io_trace := io_trace t, frame_counter := k\<rparr>"
    using assms by (simp only: panel_inv_def)
  have "t\<lparr>io_trace := h\<rparr> = s0\<lparr>ram := ram t, io_trace := h, frame_counter := k\<rparr>"
    using arg_cong [OF e, of "\<lambda>t. t\<lparr>io_trace := h\<rparr>"] by simp
  then show ?thesis using assms by (simp add: panel_inv_def)
qed

lemma panel_inv_count:
  assumes "panel_inv S s0 k t"
  shows "panel_inv S s0 j (t\<lparr>frame_counter := j\<rparr>)"
proof -
  have e: "t = s0\<lparr>ram := ram t, io_trace := io_trace t, frame_counter := k\<rparr>"
    using assms by (simp only: panel_inv_def)
  have "t\<lparr>frame_counter := j\<rparr> = s0\<lparr>ram := ram t, io_trace := io_trace t, frame_counter := j\<rparr>"
    using arg_cong [OF e, of "\<lambda>t. t\<lparr>frame_counter := j\<rparr>"] by simp
  then show ?thesis using assms by (simp add: panel_inv_def)
qed

lemma panel_inv_draws:
  assumes "panel_ready S s0" "panel_inv S s0 k t" "fb_draws t u"
  shows "panel_inv S s0 k u"
proof -
  have u: "u = t\<lparr>ram := ram u\<rparr>" using assms(3) by (simp add: fb_draws_def)
  have "ram u a = ram t a" if "a \<notin> S" for a
  proof -
    have "a \<notin> fb_area t" using that assms(1) panel_inv_fields(2) [OF assms(2)] by (auto simp: panel_ready_def)
    then show ?thesis using assms(3) by (simp add: fb_draws_def fb_area_def not_less)
  qed
  from panel_inv_ram [OF assms(2) this] show ?thesis by (subst u)
qed

lemma panel_inv_puts:
  assumes "uart_responsive E" "panel_inv S s0 k t"
  shows "succeeds (serial_puts E msg t) (panel_inv S s0 k)"
  using serial_puts_spec [OF assms(1), of msg t] panel_inv_trace [OF assms(2)] by (auto simp: succeeds_def)

lemma panel_inv_string:
  assumes "panel_ready S s0" "panel_inv S s0 k t"
  shows "panel_inv S s0 k (fb_draw_string msg x y fg bg t)"
proof -
  have "fb_ok t" using assms panel_inv_fields(1) [OF assms(2)] by (simp add: panel_ready_def)
  then show ?thesis by (intro panel_inv_draws [OF assms] fb_draws_string fb_draws_refl)
qed

lemma panel_inv_clear:
  assumes "panel_ready S s0" "panel_inv S s0 k t"
  shows "panel_inv S s0 k (fb_clear c t)"
proof -
  have "panel_ready S t" using assms panel_inv_fields(1) [OF assms(2)] by simp
  then show ?thesis unfolding panel_ready_def
    by (intro panel_inv_draws [OF assms] fb_draws_clear) blast+
qed

lemma panel_inv_color_bar:
  assumes "panel_ready S s0" "panel_inv S s0 k t"
  shows "panel_inv S s0 k (fb_draw_color_bar y height t)"
proof -
  have "fb_ok t" using assms panel_inv_fields(1) [OF assms(2)] by (simp add: panel_ready_def)
  then show ?thesis by (intro panel_inv_draws [OF assms] fb_draws_color_bar fb_draws_refl)
qed

lemma panel_inv_line:
  assumes "panel_ready S s0" "panel_inv S s0 k t"
  shows "panel_inv S s0 k (snd (panel_line label val y c t))"
  unfolding panel_line_def Let_def snd_conv by (rule panel_inv_string [OF assms])

lemma panel_inv_section:
  assumes "panel_ready S s0" "panel_inv S s0 k t"
  shows "panel_inv S s0 k (snd (section_header title y t))"
  unfolding section_header_def snd_conv by (rule panel_inv_string [OF assms])

text \<open>The stack buffers that \<open>sysinfo\<close> fills; the feature list may write one byte more than
  its 256 (\<open>sysinfo_features_overflow\<close>).\<close>

definition stack_area :: "panel_stack \<Rightarrow> u64 set" where
  "stack_area stk = {a. unat (a - vendor_buf stk) < 13 \<or> unat (a - brand_buf stk) < 49 \<or>
     unat (a - features_buf stk) < 257 \<or> unat (a - fw_vendor_buf stk) < 33}"

lemma panel_inv_vendor:
  assumes "stack_area stk \<subseteq> S" "panel_inv S s0 k t"
  shows "panel_inv S s0 k (sysinfo_get_cpu_vendor (vendor_buf stk) t)"
  unfolding sysinfo_get_cpu_vendor_def
proof (rule panel_inv_ram [OF assms(2)])
  fix a
  assume "a \<notin> S"
  then have "13 \<le> unat (a - vendor_buf stk)" using assms(1) by (auto simp: stack_area_def not_less)
  then show "store_bytes (vendor_buf stk) (take 13 (cpu_vendor_str t)) (ram t) a = ram t a"
    by (intro store_bytes_outside) (auto simp: min_def)
qed

lemma panel_inv_brand:
  assumes "stack_area stk \<subseteq> S" "panel_inv S s0 k t"
  shows "panel_inv S s0 k (sysinfo_get_cpu_brand (brand_buf stk) t)"
  unfolding sysinfo_get_cpu_brand_def
proof (rule panel_inv_ram [OF assms(2)])
  fix a
  assume "a \<notin> S"
  then have "49 \<le> unat (a - brand_buf stk)" using assms(1) by (auto simp: stack_area_def not_less)
  then show "store_bytes (brand_buf stk) (take 49 (cpu_brand_str t)) (ram t) a = ram t a"
    by (intro store_bytes_outside) (auto simp: min_def)
qed

lemma cpu_features_ram: "\<exists>m. sysinfo_get_cpu_features buf cap s = s\<lparr>ram := m\<rparr>"
  by (simp add: sysinfo_get_cpu_features_def Let_def split_beta) blast

lemma panel_inv_features:
  assumes "stack_area stk \<subseteq> S" "panel_inv S s0 k t"
  shows "panel_inv S s0 k (sysinfo_get_cpu_features (features_buf stk) 256 t)"
proof -
  obtain m where m: "sysinfo_get_cpu_features (features_buf stk) 256 t = t\<lparr>ram := m\<rparr>"
    using cpu_features_ram by blast
  have "m a = ram t a" if "a \<notin> S" for a
  proof -
    have "\<not> unat (a - features_buf stk) < 257" using that assms(1) by (auto simp: stack_area_def)
    then have "ram (sysinfo_get_cpu_features (features_buf stk) 256 t) a = ram t a"
      by (intro features_outside) simp_all
    then show ?thesis by (simp add: m)
  qed
  then show ?thesis unfolding m by (rule panel_inv_ram [OF assms(2)])
qed

lemma fold_updates_outside:
  "\<forall>i \<in> set is. a \<noteq> p i \<Longrightarrow> fold (\<lambda>i m. m(p i := v i)) is m a = m a"
  by (induction "is" arbitrary: m) auto

lemma panel_inv_uefi:
  assumes "panel_ready S s0" "stack_area stk \<subseteq> S" "panel_inv S s0 k t"
  shows "succeeds (sysinfo_get_uefi_vendor (fw_vendor_buf stk) t) (panel_inv S s0 k)"
proof -
  let ?b = "fw_vendor_buf stk"
  obtain info where i: "sys_boot_info t = Some info"
    using assms(1) panel_inv_fields(4) [OF assms(3)] by (auto simp: panel_ready_def)
  define m where "m = fold (\<lambda>i m. m(?b + of_nat i := ucast (fw_vendor info ! i))) [0..<32] (ram t)"
  have "(m(?b + 32 := 0)) a = ram t a" if "a \<notin> S" for a
  proof -
    have far: "33 \<le> unat (a - ?b)" using that assms(2) by (auto simp: stack_area_def not_less)
    have ne: "a \<noteq> ?b + of_nat i" if "i < 33" for i
      using far that by (auto simp: unat_of_nat)
    have "m a = ram t a" unfolding m_def by (rule fold_updates_outside) (use ne in auto)
    moreover have "a \<noteq> ?b + 32" using ne [of 32] by simp
    ultimately show ?thesis by simp
  qed
  then have "panel_inv S s0 k (t\<lparr>ram := m(?b + 32 := 0)\<rparr>)" by (rule panel_inv_ram [OF assms(3)])
  then show ?thesis by (simp add: sysinfo_get_uefi_vendor_def i m_def Let_def del: upt_rec_numeral)
qed

subsection \<open>Every section keeps to its area\<close>

lemmas panel_steps = panel_inv_string panel_inv_line panel_inv_section panel_inv_clear panel_inv_color_bar

lemma panel_header_keeps:
  assumes "panel_ready S s0" "uart_responsive E" "panel_inv S s0 k t"
  shows "succeeds (panel_header E y t) (\<lambda>p. panel_inv S s0 k (snd p))"
  unfolding panel_header_def Let_def
  by (rule succeeds_bind [OF panel_inv_puts [OF assms(2,3)]],
      rule succeeds_bind [OF panel_inv_puts [where S = S and ?s0.0 = s0 and k = k, OF assms(2)]])
    (simp_all add: panel_steps [OF assms(1)])

lemma panel_cpu_keeps:
  assumes "panel_ready S s0" "stack_area stk \<subseteq> S" "uart_responsive E" "panel_inv S s0 k t"
  shows "succeeds (panel_cpu E cpuid stk y t) (\<lambda>p. panel_inv S s0 k (snd p))"
  unfolding panel_cpu_def Let_def
  by (rule succeeds_pair [where P = "panel_inv S s0 k"]
      succeeds_bind [OF panel_inv_puts [where S = S and ?s0.0 = s0 and k = k, OF assms(3)]]
      panel_steps [OF assms(1)] panel_inv_vendor [OF assms(2)] panel_inv_brand [OF assms(2)]
      panel_inv_features [OF assms(2)] assms(4) if_snd [where P = "panel_inv S s0 k"]
      pair_Some [where P = "panel_inv S s0 k"] | assumption)+

lemma panel_memory_keeps:
  assumes "panel_ready S s0" "uart_responsive E" "panel_inv S s0 k t"
  shows "succeeds (panel_memory E y t) (\<lambda>p. panel_inv S s0 k (snd p))"
  unfolding panel_memory_def Let_def sysinfo_get_mem_usage_def prod.case
  by (rule succeeds_pair [where P = "panel_inv S s0 k"]
      succeeds_bind [OF panel_inv_puts [where S = S and ?s0.0 = s0 and k = k, OF assms(2)]]
      panel_steps [OF assms(1)] assms(3) pair_Some [where P = "panel_inv S s0 k"] | assumption)+

lemma panel_display_keeps:
  "panel_ready S s0 \<Longrightarrow> panel_inv S s0 k t \<Longrightarrow> panel_inv S s0 k (snd (panel_display y t))"
  by (simp add: panel_display_def split_beta Let_def panel_steps)

lemma panel_firmware_keeps:
  assumes "panel_ready S s0" "stack_area stk \<subseteq> S" "panel_inv S s0 k t"
  shows "succeeds (panel_firmware stk y t) (\<lambda>p. panel_inv S s0 k (snd p))"
proof -
  have rev: "succeeds (sysinfo_get_uefi_revision u) (\<lambda>_. True)" if "panel_inv S s0 k u" for u
    using assms(1) panel_inv_fields(4) [OF that] by (auto simp: sysinfo_get_uefi_revision_def panel_ready_def)
  show ?thesis
    unfolding panel_firmware_def Let_def
    by (rule succeeds_pair [where P = "panel_inv S s0 k", OF panel_inv_section [OF assms(1,3)]],
        rule succeeds_bind [OF panel_inv_uefi [OF assms(1,2)]], assumption,
        rule succeeds_pair [where P = "panel_inv S s0 k", OF panel_inv_line [OF assms(1)]], assumption,
        rule succeeds_bind [OF rev], assumption)
      (simp add: split_beta panel_steps [OF assms(1)])
qed

lemma panel_drive_keeps:
  "panel_ready S s0 \<Longrightarrow> panel_inv S s0 k t \<Longrightarrow> panel_inv S s0 k (snd (panel_drive label p n y t))"
  by (simp add: panel_drive_def Let_def panel_steps)

lemma panel_ide_keeps:
  "panel_ready S s0 \<Longrightarrow> panel_inv S s0 k t \<Longrightarrow> panel_inv S s0 k (snd (panel_ide y t))"
  by (simp add: panel_ide_def Let_def split_beta panel_drive_keeps)

lemma panel_nvme_keeps:
  "panel_ready S s0 \<Longrightarrow> panel_inv S s0 k (snd (snd st)) \<Longrightarrow> panel_inv S s0 k (snd (snd (panel_nvme d st)))"
  by (simp add: panel_nvme_def Let_def split_beta panel_steps)

lemma panel_sata_keeps:
  "panel_ready S s0 \<Longrightarrow> panel_inv S s0 k (snd (snd st)) \<Longrightarrow> panel_inv S s0 k (snd (snd (panel_sata d st)))"
  by (simp add: panel_sata_def Let_def split_beta panel_steps)

lemma panel_fold_keeps:
  assumes "panel_inv S s0 k (snd p)"
    and "\<And>d st. panel_inv S s0 k (snd (snd st)) \<Longrightarrow> panel_inv S s0 k (snd (snd (f d st)))"
  shows "panel_inv S s0 k (snd (snd (fold f ds (b, p))))"
  by (rule fold_keeps [of "\<lambda>st. panel_inv S s0 k (snd (snd st))"]) (simp_all add: assms)

lemma panel_storage_keeps:
  assumes "panel_ready S s0" "panel_inv S s0 k t"
  shows "panel_inv S s0 k (snd (panel_storage y t))"
  unfolding panel_storage_def Let_def split_beta
  by (simp add: panel_steps panel_ide_keeps panel_fold_keeps panel_nvme_keeps panel_sata_keeps assms)

lemma panel_pci_loop_keeps:
  "panel_ready S s0 \<Longrightarrow> panel_inv S s0 k t \<Longrightarrow> panel_inv S s0 k (snd (panel_pci_loop ds y t))"
  by (induction ds y t rule: panel_pci_loop.induct) (simp_all add: Let_def panel_steps)

lemma panel_pci_keeps:
  assumes "panel_ready S s0" "uart_responsive E" "panel_inv S s0 k t"
  shows "succeeds (panel_pci E y t) (\<lambda>p. panel_inv S s0 k (snd p))"
proof -
  have log: "succeeds (serial_puts E msg u \<bind> (\<lambda>s. Some (z, s))) (\<lambda>p. panel_inv S s0 k (snd p))"
    if "panel_inv S s0 k u" for msg z u
    by (rule succeeds_bind [OF panel_inv_puts [OF assms(2) that]]) simp
  have last: "succeeds m (\<lambda>p. panel_inv S s0 k (snd p)) \<Longrightarrow>
      succeeds (m \<bind> (\<lambda>(y, s). Some (y + 4, s))) (\<lambda>p. panel_inv S s0 k (snd p))" for m
    by (erule succeeds_bind) (simp add: split_beta)
  show ?thesis
    unfolding panel_pci_def Let_def
    by (rule succeeds_pair [where P = "panel_inv S s0 k", OF panel_inv_section [OF assms(1,3)]], rule last)
      (simp add: panel_steps [OF assms(1)] log panel_pci_loop_keeps [OF assms(1)] split_beta)
qed

lemma panel_tests_keeps:
  "panel_ready S s0 \<Longrightarrow> panel_inv S s0 k t \<Longrightarrow> panel_inv S s0 k (snd (panel_tests y t))"
  by (simp add: panel_tests_def split_beta Let_def panel_steps)

lemma panel_frame_keeps:
  assumes "panel_ready S s0" "uart_responsive E" "panel_inv S s0 k t"
  shows "succeeds (panel_frame E y t) (panel_inv S s0 (k + 1))"
proof -
  have "panel_inv S s0 (k + 1) (u\<lparr>frame_counter := frame_counter u + 1\<rparr>)" if "panel_inv S s0 k u" for u
    using panel_inv_count [OF that, of "k + 1"] panel_inv_fields(3) [OF that] by simp
  then show ?thesis
    unfolding panel_frame_def Let_def
    by (intro succeeds_pair [where P = "panel_inv S s0 k"] panel_inv_section [OF assms(1,3)]
        panel_inv_puts [OF assms(2)] panel_inv_string [OF assms(1)]) blast
qed

lemma debug_panel_keeps:
  assumes "panel_ready S s" "stack_area stk \<subseteq> S" "uart_responsive E"
  shows "succeeds (debug_panel_render E cpuid stk s) (panel_inv S s (frame_counter s + 1))"
proof -
  let ?I = "panel_inv S s (frame_counter s)"
  have pair: "succeeds (m \<bind> (\<lambda>(y, s). f y s)) Q" 
    if "succeeds m (\<lambda>p. ?I (snd p))" "\<And>y s. ?I s \<Longrightarrow> succeeds (f y s) Q"
    for m :: "(u64 \<times> 'a panel_state_scheme) option" and f Q
    by (rule succeeds_bind [OF that(1)]) (use that(2) in \<open>simp add: split_beta\<close>)
  show ?thesis
    unfolding debug_panel_render_def Let_def
    by (rule pair panel_header_keeps [OF assms(1,3)] panel_cpu_keeps [OF assms(1,2,3)]
        panel_memory_keeps [OF assms(1,3)] panel_firmware_keeps [OF assms(1,2)] panel_pci_keeps [OF assms(1,3)]
        panel_frame_keeps [OF assms(1,3)] succeeds_pair [where P = ?I]
        panel_display_keeps [OF assms(1)] panel_storage_keeps [OF assms(1)] panel_tests_keeps [OF assms(1)]
        panel_inv_refl | assumption)+
qed

subsection \<open>Texts\<close>

lemma dec_tmp_short: "unat v < 10 ^ k \<Longrightarrow> length (dec_tmp n v) \<le> k"
proof (induction n arbitrary: k v)
  case (Suc n)
  show ?case
  proof (cases "0 < v")
    case True
    then have "0 < unat v" by (simp add: word_less_nat_alt)
    then obtain j where k: "k = Suc j" using Suc.prems by (cases k) auto
    have "unat (v div 10) < 10 ^ j" using Suc.prems by (simp add: unat_div k less_mult_imp_div_less)
    then show ?thesis using Suc.IH [of "v div 10" j] by (simp add: k)
  qed simp
qed simp

lemma dec_tmp_nonzero: "c \<in> set (dec_tmp n v) \<Longrightarrow> c \<noteq> 0"
proof (induction n arbitrary: v)
  case (Suc n)
  have "unat (48 + ucast (v mod 10) :: u8) = 48 + unat (ucast (v mod 10) :: u8)"
    by (simp add: unat_word_ariths unsigned_ucast_eq take_bit_eq_mod unat_mod)
  then have "(48 + ucast (v mod 10) :: u8) \<noteq> 0" by (metis add_is_0 unsigned_0 zero_neq_numeral)
  then show ?case using Suc by (auto split: if_splits)
qed simp

lemma dec_text_nonzero: "c \<in> set (dec_text v) \<Longrightarrow> c \<noteq> 0"
  using dec_tmp_nonzero [of c 24 v] by (auto simp: dec_text_def split: if_splits)

lemma dec_text_short: "unat v < 10 ^ k \<Longrightarrow> 0 < k \<Longrightarrow> length (dec_text v) \<le> k"
  using dec_tmp_short [of v k 24] by (simp add: dec_text_def)

text \<open>The line \<open>l\<close> of an array of \<open>cap\<close> bytes holds the text \<open>xs\<close>.\<close>

definition holds_text :: "u64 \<Rightarrow> line \<Rightarrow> u8 list \<Rightarrow> bool" where
  "holds_text cap l xs \<longleftrightarrow> line_ok cap l \<and> line_content l = xs"

lemma holds_new: "0 < n \<Longrightarrow> n < 2 ^ 64 \<Longrightarrow> holds_text (of_nat n) (new_line n) []"
  by (simp add: holds_text_def line_ok_def line_content_def new_line_def word_less_nat_alt unat_of_nat)

lemma holds_dec:
  assumes "holds_text cap l xs" "length xs + length (dec_text v) < unat cap"
  shows "holds_text cap (str_append_dec cap v l) (xs @ dec_text v)"
  using append_dec_spec [of cap l v] assms by (simp add: holds_text_def str_append_dec_def)

lemma holds_put:
  assumes "holds_text cap l xs" "length xs + 1 < unat cap"
  shows "holds_text cap (put_char c l) (xs @ [c])"
proof -
  obtain buf pos where l: "l = (buf, pos)" by (cases l)
  have ok: "line_ok cap l" "line_content l = xs" using assms(1) by (simp_all add: holds_text_def)
  then have p: "unat pos = length xs" using length_line_content [OF ok(1)] by (simp add: l)
  then have "pos + 1 < cap" using assms(2) unat_u64_bound [of cap] unat_add_of_nat [of pos 1]
    by (simp add: word_less_nat_alt)
  then have "put_char c l = append_str cap [c] l" by (simp add: put_char_def l)
  then show ?thesis using append_str_spec [OF ok(1), of "[c]"] ok(2) assms(2) by (simp add: holds_text_def)
qed

lemma holds_text_of:
  assumes "holds_text cap l xs" "0 \<notin> set xs"
  shows "text_of l = xs"
proof -
  obtain buf pos where l: "l = (buf, pos)" by (cases l)
  have ok: "line_ok cap l" "line_content l = xs" using assms(1) by (simp_all add: holds_text_def)
  then have lt: "unat pos < length buf" by (simp add: line_ok_def l word_less_nat_alt)
  have "buf[unat pos := 0] = xs @ 0 # drop (Suc (unat pos)) buf"
    using ok(2) lt by (simp add: line_content_def l upd_conv_take_nth_drop)
  then have "text_of l = takeWhile (\<lambda>c. c \<noteq> 0) (xs @ 0 # drop (Suc (unat pos)) buf)"
    by (simp add: text_of_def c_string_def l)
  then show ?thesis using assms(2) by (subst (asm) takeWhile_append2) auto
qed

definition two_digits :: "u64 \<Rightarrow> u8 list" where
  "two_digits v = (if v < 10 then [48] else []) @ dec_text v"

lemma holds_two_digits:
  assumes "holds_text cap l xs" "length xs + 1 + length (dec_text v) < unat cap"
  shows "holds_text cap (str_append_dec cap v (if v < 10 then put_char 48 l else l)) (xs @ two_digits v)"
  using assms holds_put [OF assms(1), of 48]
  by (auto simp: two_digits_def intro!: holds_dec [of _ _ "xs @ [48]", simplified] holds_dec)

lemma format_uptime_text:
  "format_uptime secs = two_digits (secs div 3600) @ [58] @ two_digits ((secs mod 3600) div 60) @ [58] @
     two_digits (secs mod 60)"
proof -
  let ?h = "secs div 3600" and ?m = "(secs mod 3600) div 60" and ?s = "secs mod 60"
  have "unat ?h < 10 ^ 17" "unat ?m < 10 ^ 2" "unat ?s < 10 ^ 2"
    using unat_u64_bound [of secs] by (simp_all add: unat_div unat_mod less_mult_imp_div_less)
  then have len: "length (dec_text ?h) \<le> 17" "length (dec_text ?m) \<le> 2" "length (dec_text ?s) \<le> 2"
    using dec_text_short by (metis zero_less_numeral)+
  have two: "length (two_digits v) \<le> Suc (length (dec_text v))" for v by (simp add: two_digits_def)
  have "holds_text 64 (new_line 64) []" using holds_new [of 64] by simp
  from holds_two_digits [OF this, of ?h] len(1)
  have a: "holds_text 64 (str_append_dec 64 ?h (if ?h < 10 then put_char 48 (new_line 64) else new_line 64))
      (two_digits ?h)" (is "holds_text 64 ?a _") by simp
  have b: "holds_text 64 (put_char 58 ?a) (two_digits ?h @ [58])" (is "holds_text 64 ?b _")
    by (rule holds_put [OF a]) (use two [of ?h] len(1) in simp)
  have c: "holds_text 64 (str_append_dec 64 ?m (if ?m < 10 then put_char 48 ?b else ?b))
      ((two_digits ?h @ [58]) @ two_digits ?m)" (is "holds_text 64 ?c _")
    by (rule holds_two_digits [OF b]) (use two [of ?h] len in simp)
  have d: "holds_text 64 (put_char 58 ?c) (((two_digits ?h @ [58]) @ two_digits ?m) @ [58])" (is "holds_text 64 ?d _")
    by (rule holds_put [OF c]) (use two [of ?h] two [of ?m] len in simp)
  have e: "holds_text 64 (str_append_dec 64 ?s (if ?s < 10 then put_char 48 ?d else ?d))
      ((((two_digits ?h @ [58]) @ two_digits ?m) @ [58]) @ two_digits ?s)"
    by (rule holds_two_digits [OF d]) (use two [of ?h] two [of ?m] len in simp)
  have "0 \<notin> set (two_digits v)" for v using dec_text_nonzero [of 0 v] by (auto simp: two_digits_def)
  then show ?thesis using holds_text_of [OF e] by (simp add: format_uptime_def Let_def)
qed

subsection \<open>Properties\<close>


definition sample_panel :: panel_state where
  "sample_panel = sys_state.extend (sys_state.truncate ((sample_sys 0)\<lparr>sys_boot_info := Some sample_info\<rparr>))
     \<lparr>test_pmm_status = 1, test_vmm_status = 1, frame_counter = 7\<rparr>"

lemma sample_panel_ready:
  "fb_ok sample_panel" "\<not> use_double_buffer sample_panel" "sys_boot_info sample_panel = Some sample_info"
  "length (cpu_vendor_str sample_panel) = 16" "length (cpu_brand_str sample_panel) = 49"
  "frame_counter sample_panel = 7"
  by (simp_all add: sample_panel_def sys_state.defs sample_sys_def ide_state.defs sample_ide_def pci_state.defs
      sample_pci_def intr_state.defs sample_intr_def fb_state.defs sample_fb_def fb_ok_def fb_target_def)


text \<open>the uptime line is hours, minutes and seconds, each with at least two decimal digits
  and separated by colons, and minutes and seconds are below 60.\<close>

theorem format_uptime_clock:
  "\<exists>h m s. format_uptime secs = two_digits h @ [58] @ two_digits m @ [58] @ two_digits s \<and>
    unat h * 3600 + unat m * 60 + unat s = unat secs \<and> m < 60 \<and> s < 60 \<and>
    dec_value (rev (dec_text h)) = unat h \<and> dec_value (rev (dec_text m)) = unat m \<and>
    dec_value (rev (dec_text s)) = unat s"
proof -
  let ?h = "secs div 3600" and ?m = "(secs mod 3600) div 60" and ?s = "secs mod 60"
  have v: "dec_value (rev (dec_text x)) = unat x" for x
    using append_dec_value by blast
  have "unat ?h * 3600 + unat ?m * 60 + unat ?s = unat secs"
  proof -
    have "(n div 3600) * 3600 + ((n mod 3600) div 60) * 60 + n mod 60 = n" for n :: nat
    proof -
      have "n mod 60 = (n mod 3600) mod 60" by (simp add: mod_mod_cancel)
      then show ?thesis by simp
    qed
    then show ?thesis by (simp add: unat_div unat_mod)
  qed
  moreover have "?m < 60" "?s < 60"
    by (simp_all add: word_less_nat_alt unat_div unat_mod less_mult_imp_div_less)
  ultimately show ?thesis using format_uptime_text [of secs] v by blast
qed

end
