(* ===== verification/Kernel.thy ===== *)
theory Kernel
  imports Debug_Panel
begin

section \<open>\<^verbatim>\<open>kernel.c\<close>: boot, self tests and the main loop\<close>

text \<open>
  \<open>kernel_boot\<close> is \<open>kernel_main\<close> up to the main loop, \<open>kernel_iter\<close> one iteration of that
  loop on its two local counters and the state, and \<open>kernel_step\<close> adds the interrupts the
  processor may take between iterations once they are enabled. What is not code of the
  repository is the record \<open>platform\<close>: the devices, \<open>cpuid\<close>, the addresses of the interrupt
  stubs, the value of \<open>CR3\<close>, the processor's address translation, the addresses of the panel's
  stack buffers. \<open>None\<close> is a wait that never ends or a fault; \<open>halted\<close> is an endless \<open>hlt\<close>.
\<close>

record kernel_state = panel_state +
  pmm_test_status :: u32
  vmm_test_status :: u32

record platform =
  env :: io_env
  cpu :: cpuid
  stub :: "nat \<Rightarrow> u64"
  stub_unhandled :: u64
  boot_cr3 :: u64
  walk :: mmu
  stack :: panel_stack

subsection \<open>Self tests\<close>

definition run_pmm_test :: "'a kernel_state_scheme \<Rightarrow> 'a kernel_state_scheme" where
  "run_pmm_test s =
     (let (p1, s) = pmm_alloc_frame s;
          (p2, s) = pmm_alloc_frame s
      in if p1 \<noteq> 0 \<and> p2 \<noteq> 0 \<and> p1 \<noteq> p2 then
           let s = s\<lparr>pmm_test_status := 1\<rparr>;
               s = pmm_free_frame p1 s
           in pmm_free_frame p2 s
         else s\<lparr>pmm_test_status := 2\<rparr>)"

text \<open>Bytes read through the translation, the counterpart of \<open>mmu_store\<close>.\<close>

fun mmu_load :: "(u64 \<Rightarrow> u64 option) \<Rightarrow> u64 \<Rightarrow> nat \<Rightarrow> ram \<Rightarrow> u8 list option" where
  "mmu_load x va 0 m = Some []"
| "mmu_load x va (Suc n) m = do { pa \<leftarrow> x va; bs \<leftarrow> mmu_load x (va + 1) n m; Some (m pa # bs) }"

definition run_vmm_test :: "mmu \<Rightarrow> 'a kernel_state_scheme \<Rightarrow> 'a kernel_state_scheme option" where
  "run_vmm_test X s = do {
     (v1, s) \<leftarrow> vmm_alloc 4096 s;
     (if v1 \<noteq> 0 then do {
        m \<leftarrow> mmu_store (X (ram s) (pml4 s)) v1 (le_bytes 8 (0xDEADBEEFCAFEBABE :: u64)) (ram s);
        let s = s\<lparr>ram := m\<rparr>;
        bs \<leftarrow> mmu_load (X (ram s) (pml4 s)) v1 8 (ram s);
        (if (le_word bs :: u64) = 0xDEADBEEFCAFEBABE
         then vmm_free v1 (s\<lparr>vmm_test_status := 1\<rparr>)
         else Some (s\<lparr>vmm_test_status := 2\<rparr>))
      }
      else Some (s\<lparr>vmm_test_status := 2\<rparr>))
   }"

subsection \<open>Boot\<close>

definition klog :: "platform \<Rightarrow> u8 list \<Rightarrow> 'a machine_scheme \<Rightarrow> 'a machine_scheme option" where
  "klog P msg s = serial_puts (env P) (msg @ [10]) s"

definition bad_info :: "boot_info option \<Rightarrow> bool" where
  "bad_info pinfo = (case pinfo of None \<Rightarrow> True | Some info \<Rightarrow> magic info \<noteq> BOOTINFO_MAGIC)"

definition kernel_boot :: "platform \<Rightarrow> boot_info option \<Rightarrow> kernel_state \<Rightarrow> kernel_state option" where
  "kernel_boot P pinfo s = do {
     let s = serial_init s;
     s \<leftarrow> klog P ([10] @ asc ''=== OS44 KERNEL ==='') s;
     (if bad_info pinfo then do {
        s \<leftarrow> klog P (asc ''FATAL: bad bootinfo'') s;
        Some (s\<lparr>halted := True\<rparr>)
      }
      else do {
        s \<leftarrow> klog P (asc ''[1] bootinfo OK'') s;
        info \<leftarrow> pinfo;
        let s = fb_init info s;
        s \<leftarrow> klog P (asc ''[2] fb_init OK'') s;
        let s = intr_init (env P) (stub P) (stub_unhandled P) s;
        s \<leftarrow> klog P (asc ''[3] intr_init OK'') s;
        s \<leftarrow> mem_init (boot_cr3 P) pinfo s;
        s \<leftarrow> klog P (asc ''[4] mem_init OK'') s;
        let s = fb_enable_double_buffering s;
        s \<leftarrow> klog P (asc ''[5] double buffering OK'') s;
        let s = sysinfo_init (cpu P) pinfo s;
        s \<leftarrow> klog P (asc ''[6] sysinfo_init OK'') s;
        let s = keyboard_init (env P) s;
        s \<leftarrow> klog P (asc ''[7] keyboard_init OK'') s;
        s \<leftarrow> timer_init (env P) 100 s;
        s \<leftarrow> klog P (asc ''[8] timer_init OK'') s;
        s \<leftarrow> klog P (asc ''[9] calling ide_init...'') s;
        s \<leftarrow> ide_init (env P) s;
        s \<leftarrow> klog P (asc ''[10] ide_init DONE'') s;
        s \<leftarrow> klog P (asc ''[11] calling pci_init...'') s;
        s \<leftarrow> pci_init (env P) s;
        s \<leftarrow> klog P (asc ''[12] pci_init DONE'') s;
        s \<leftarrow> klog P (asc ''[13] calling process_init...'') s;
        let s = process_init s;
        s \<leftarrow> klog P (asc ''[14] process_init DONE'') s;
        s \<leftarrow> klog P (asc ''[14.5] about to sti'') s;
        let s = s\<lparr>if_flag := True\<rparr>;
        s \<leftarrow> klog P (asc ''[15] interrupts enabled'') s;
        let s = run_pmm_test s;
        s \<leftarrow> klog P (asc ''[16] pmm test done'') s;
        s \<leftarrow> run_vmm_test (walk P) s;
        s \<leftarrow> klog P (asc ''[17] vmm test done'') s;
        let s = debug_panel_init (pmm_test_status s) (vmm_test_status s) s;
        klog P (asc ''[18] debug_panel_init done'') s
      })
   }"

subsection \<open>The main loop\<close>

type_synonym kernel_config = "u64 \<times> u64 \<times> kernel_state"

definition alive_text :: "u64 \<Rightarrow> u8 list" where
  "alive_text t = (if t = 0 then [48] else rev (dec_tmp 20 t))"

definition kernel_alive :: "platform \<Rightarrow> u64 \<Rightarrow> kernel_state \<Rightarrow> kernel_state option" where
  "kernel_alive P current_ticks s = do {
     s \<leftarrow> serial_puts (env P) (asc ''[LOOP] alive, ticks='') s;
     s \<leftarrow> serial_puts (env P) (alive_text current_ticks) s;
     serial_puts (env P) [10] s
   }"

definition kernel_iter :: "platform \<Rightarrow> kernel_config \<Rightarrow> kernel_config option" where
  "kernel_iter P c = do {
     let (loop_count, last_tick, s) = c;
     let current_ticks = timer_get_ticks s;
     let s = scheduler s;
     (last_tick, s) \<leftarrow> (if 2 \<le> current_ticks - last_tick then do {
         s \<leftarrow> debug_panel_render (env P) (cpu P) (stack P) s;
         let s = fb_swap_buffers s;
         Some (current_ticks, s)
       }
       else Some (last_tick, s));
     let loop_count = loop_count + 1;
     s \<leftarrow> (if loop_count mod 5000000 = 0 then kernel_alive P current_ticks s else Some s);
     Some (loop_count, last_tick, s)
   }"

inductive kernel_step :: "platform \<Rightarrow> kernel_config \<Rightarrow> kernel_config \<Rightarrow> bool" for P where
  iteration: "\<not> halted (snd (snd c)) \<Longrightarrow> kernel_iter P c = Some c' \<Longrightarrow> kernel_step P c c'"
| interrupt: "\<not> halted s \<Longrightarrow> if_flag s \<Longrightarrow>
    kernel_step P (n, l, s) (n, l, isr_handler (env P) cr2 frame s)"

inductive_cases kernel_stepE: "kernel_step P c c'"

subsection \<open>The allocator self test\<close>

lemma alloc_step:
  assumes "pmm_inv s" "pmm_avail s \<noteq> {}"
  shows "fst (pmm_alloc_frame s) \<noteq> 0" "unat (fst (pmm_alloc_frame s)) = Min (pmm_avail s) * 4096"
    "pmm_avail (snd (pmm_alloc_frame s)) = pmm_avail s - {Min (pmm_avail s)}" "pmm_inv (snd (pmm_alloc_frame s))"
    "Min (pmm_avail s) \<in> pmm_avail s" "2048 \<le> Min (pmm_avail s)" "Min (pmm_avail s) < 1048576"
proof -
  show m: "Min (pmm_avail s) \<in> pmm_avail s" using assms by (rule pmm.Min_avail)
  show lo: "2048 \<le> Min (pmm_avail s)" using pmm_avail_reserved [OF assms(1) m] .
  show "Min (pmm_avail s) < 1048576" by (rule pmm_avail_bound [OF m])
  then show u: "unat (fst (pmm_alloc_frame s)) = Min (pmm_avail s) * 4096"
    by (simp add: pmm.alloc_addr [OF assms] frame_address_div)
  show "pmm_avail (snd (pmm_alloc_frame s)) = pmm_avail s - {Min (pmm_avail s)}"
    by (rule pmm.alloc_avail [OF assms])
  show "pmm_inv (snd (pmm_alloc_frame s))" by (rule pmm.alloc_invar [OF assms(1)])
  show "fst (pmm_alloc_frame s) \<noteq> 0" using u lo by (metis not_numeral_le_zero mult_eq_0_iff unsigned_0 zero_neq_numeral)
qed

lemma free_step:
  assumes "unat p = f * 4096" "f < 1048576"
  shows "pmm_avail (pmm_free_frame p s) = insert f (pmm_avail s)"
proof -
  have "unat (p div 4096) = f" using assms(1) by (simp add: unat_div)
  then show ?thesis using assms(2) by (simp add: pmm_free_frame_def pmm_avail_clear)
qed

lemma card_two:
  assumes "finite A" "2 \<le> card A"
  shows "A \<noteq> {}" "A - {x} \<noteq> {}"
  using assms by (auto simp: subset_singleton_iff)

lemma pmm_test_passes:
  assumes "pmm_inv s" "2 \<le> card (pmm_avail s)"
  shows "pmm_test_status (run_pmm_test s) = 1 \<and> pmm_avail (run_pmm_test s) = pmm_avail s"
proof -
  let ?f = "Min (pmm_avail s)" and ?p = "fst (pmm_alloc_frame s)" and ?t = "snd (pmm_alloc_frame s)"
  let ?g = "Min (pmm_avail ?t)" and ?q = "fst (pmm_alloc_frame ?t)" and ?u = "snd (pmm_alloc_frame ?t)"
  have ne: "pmm_avail s \<noteq> {}" using card_two(1) [OF _ assms(2)] by simp
  note a = alloc_step [OF assms(1) ne]
  have ne': "pmm_avail ?t \<noteq> {}" using card_two(2) [OF _ assms(2)] by (simp add: a(3))
  note b = alloc_step [OF a(4) ne']
  have g: "?g \<in> pmm_avail s" "?g \<noteq> ?f" using b(5) by (simp_all add: a(3))
  have pq: "?p \<noteq> ?q" using a(2) b(2) g(2) by (metis mult_cancel2 zero_neq_numeral)
  define v where "v = ?u\<lparr>pmm_test_status := 1\<rparr>"
  have v: "pmm_avail v = pmm_avail s - {?f} - {?g}" using b(3) a(3) by (simp add: v_def pmm_avail_def frame_bit_def)
  have run: "run_pmm_test s = pmm_free_frame ?q (pmm_free_frame ?p v)"
    using a(1) b(1) pq by (simp add: run_pmm_test_def split_beta Let_def v_def)
  have "pmm_avail (run_pmm_test s) = insert ?g (insert ?f (pmm_avail v))"
    unfolding run free_step [OF b(2,7)] free_step [OF a(2,7)] by (rule refl)
  then have "pmm_avail (run_pmm_test s) = pmm_avail s" using g a(5) by (auto simp: v)
  moreover have "pmm_test_status (run_pmm_test s) = 1"
    by (simp add: run pmm_free_frame_def pmm_clear_bit_def Let_def v_def)
  ultimately show ?thesis by simp
qed

lemma pmm_test_fails:
  assumes "pmm_inv s" "card (pmm_avail s) < 2"
  shows "pmm_test_status (run_pmm_test s) = 2 \<and> pmm_avail (run_pmm_test s) = {}"
proof (cases "pmm_avail s = {}")
  case True
  then have "run_pmm_test s = s\<lparr>pmm_test_status := 2\<rparr>"
    using pmm_alloc_frame_none [OF assms(1) True] by (simp add: run_pmm_test_def)
  then show ?thesis using True by (simp add: pmm_avail_def frame_bit_def)
next
  case False
  let ?t = "snd (pmm_alloc_frame s)"
  note a = alloc_step [OF assms(1) False]
  have "card (pmm_avail s) = 1" using False assms(2) card_gt_0_iff [of "pmm_avail s"] by simp
  then have e: "pmm_avail ?t = {}" using a(3,5) by (auto simp: card_1_singleton_iff)
  have "pmm_alloc_frame ?t = (0, ?t)" by (rule pmm_alloc_frame_none [OF a(4) e])
  then have "run_pmm_test s = ?t\<lparr>pmm_test_status := 2\<rparr>" by (simp add: run_pmm_test_def split_beta Let_def)
  then show ?thesis using e by (simp add: pmm_avail_def frame_bit_def)
qed

subsection \<open>What the running kernel keeps\<close>

text \<open>The state with everything erased that the main loop and the interrupts may change,
  memory apart.\<close>

definition kernel_fixed :: "kernel_state \<Rightarrow> kernel_state" where
  "kernel_fixed s = s\<lparr>ram := (\<lambda>_. 0), io_trace := [], timer_ticks := 0, system_uptime_seconds := 0,
     shift_pressed := 0, caps_lock := 0, proc_table := [], last_time := 0, frame_counter := 0,
     if_flag := False, halted := False\<rparr>"

definition front_area :: "'a fb_state_scheme \<Rightarrow> u64 set" where
  "front_area s = {a. unat (a - fb s) < unat (screen_h s) * unat (fb_pitch_val s)}"

definition draw_area :: "platform \<Rightarrow> kernel_state \<Rightarrow> u64 set" where
  "draw_area P s = fb_area s \<union> front_area s \<union> stack_area (stack P)"

text \<open>A kernel that has booted: drawing is safe, and the two buffers do not meet.\<close>

definition kernel_ready :: "kernel_state \<Rightarrow> bool" where
  "kernel_ready s \<longleftrightarrow>
     fb_ok s \<and> sys_boot_info s \<noteq> None \<and> length (cpu_vendor_str s) = 16 \<and> length (cpu_brand_str s) = 49 \<and>
     (use_double_buffer s \<longrightarrow> back_buffer s \<noteq> 0 \<and>
        disj_range (fb s) (unat (screen_h s) * unat (fb_pitch_val s))
          (back_buffer s) (unat (screen_h s) * unat (fb_pitch_val s)))"

definition kernel_keeps :: "platform \<Rightarrow> kernel_state \<Rightarrow> kernel_state \<Rightarrow> bool" where
  "kernel_keeps P s t \<longleftrightarrow> kernel_fixed t = kernel_fixed s \<and> map pid (proc_table t) = map pid (proc_table s) \<and>
     (\<forall>a. a \<notin> draw_area P s \<longrightarrow> ram t a = ram s a)"

lemma kernel_fixed_fields:
  assumes "kernel_fixed t = kernel_fixed s"
  shows "fb t = fb s" "back_buffer t = back_buffer s" "screen_w t = screen_w s" "screen_h t = screen_h s"
    "fb_pitch_val t = fb_pitch_val s" "use_double_buffer t = use_double_buffer s" "sys_boot_info t = sys_boot_info s"
    "cpu_vendor_str t = cpu_vendor_str s" "cpu_brand_str t = cpu_brand_str s"
  using arg_cong [OF assms, of fb] arg_cong [OF assms, of back_buffer] arg_cong [OF assms, of screen_w]
    arg_cong [OF assms, of screen_h] arg_cong [OF assms, of fb_pitch_val] arg_cong [OF assms, of use_double_buffer]
    arg_cong [OF assms, of sys_boot_info] arg_cong [OF assms, of cpu_vendor_str] arg_cong [OF assms, of cpu_brand_str]
  by (simp_all add: kernel_fixed_def)

lemma kernel_fixed_ready:
  assumes "kernel_fixed t = kernel_fixed s"
  shows "kernel_ready t = kernel_ready s" "draw_area P t = draw_area P s"
  by (simp_all add: kernel_ready_def draw_area_def fb_area_def front_area_def fb_ok_def fb_target_def
      kernel_fixed_fields [OF assms])

lemma kernel_keeps_refl [simp]: "kernel_keeps P s s"
  by (simp add: kernel_keeps_def)

lemma kernel_keeps_trans: "kernel_keeps P s t \<Longrightarrow> kernel_keeps P t u \<Longrightarrow> kernel_keeps P s u"
  using kernel_fixed_ready(2) [of t s P] by (simp add: kernel_keeps_def)

lemma kernel_keeps_ready: "kernel_keeps P s t \<Longrightarrow> kernel_ready s \<Longrightarrow> kernel_ready t"
  using kernel_fixed_ready(1) [of t s] by (simp add: kernel_keeps_def)

subsection \<open>Every step keeps it\<close>

lemma keeps_scheduler: "kernel_keeps P s (scheduler s)"
  by (simp add: kernel_keeps_def scheduler_def kernel_fixed_def Let_def comp_def account_def)

lemma keeps_trace: "kernel_keeps P s t \<Longrightarrow> kernel_keeps P s (t\<lparr>io_trace := h\<rparr>)"
  by (simp add: kernel_keeps_def kernel_fixed_def)

lemma keeps_puts:
  assumes "uart_responsive (env P)" "kernel_keeps P s t"
  shows "succeeds (serial_puts (env P) msg t) (\<lambda>u. kernel_keeps P s u \<and> frame_counter u = frame_counter t)"
  using serial_puts_spec [OF assms(1), of msg t] keeps_trace [OF assms(2)] by (auto simp: succeeds_def)

lemma keeps_draws:
  assumes "fb_draws s t"
  shows "kernel_keeps P s t"
proof -
  have t: "t = s\<lparr>ram := ram t\<rparr>" using assms by (simp add: fb_draws_def)
  have "kernel_fixed t = kernel_fixed s" "proc_table t = proc_table s"
    by (subst t, simp add: kernel_fixed_def)+
  then show ?thesis using assms
    by (simp add: kernel_keeps_def fb_draws_def draw_area_def fb_area_def not_less)
qed

lemma keeps_render:
  assumes "uart_responsive (env P)" "kernel_ready s"
  shows "succeeds (debug_panel_render (env P) (cpu P) (stack P) s)
    (\<lambda>t. kernel_keeps P s t \<and> frame_counter t = frame_counter s + 1)"
proof -
  have r: "panel_ready (draw_area P s) s"
    using assms(2) by (auto simp: panel_ready_def kernel_ready_def draw_area_def)
  have "stack_area (stack P) \<subseteq> draw_area P s" by (simp add: draw_area_def)
  from debug_panel_keeps [OF r this assms(1), of "cpu P"] show ?thesis
  proof (rule succeeds_mono)
    fix t
    assume i: "panel_inv (draw_area P s) s (frame_counter s + 1) t"
    then have t: "t = s\<lparr>ram := ram t, io_trace := io_trace t, frame_counter := frame_counter s + 1\<rparr>"
      by (simp only: panel_inv_def)
    have "kernel_fixed t = kernel_fixed s" "proc_table t = proc_table s" "frame_counter t = frame_counter s + 1"
      by (subst t, simp add: kernel_fixed_def)+
    then show "kernel_keeps P s t \<and> frame_counter t = frame_counter s + 1"
      using i by (simp add: kernel_keeps_def panel_inv_def)
  qed
qed

lemma keeps_swap:
  assumes "kernel_ready s"
  shows "kernel_keeps P s (fb_swap_buffers s)" "frame_counter (fb_swap_buffers s) = frame_counter s"
proof -
  have keeps: "kernel_keeps P s (fb_swap_buffers s) \<and> frame_counter (fb_swap_buffers s) = frame_counter s"
  proof (cases "use_double_buffer s")
    case False
    then show ?thesis by (simp add: fb_swap_buffers_def)
  next
    case True
    let ?p = "unat (fb_pitch_val s)" and ?h = "unat (screen_h s)"
    have b: "back_buffer s \<noteq> 0" "fb_ok s" "disj_range (fb s) (?h * ?p) (back_buffer s) (?h * ?p)"
      using assms True by (simp_all add: kernel_ready_def)
    obtain m where m: "fb_swap_buffers s = s\<lparr>ram := m\<rparr>" using fb_swap_fold [OF True b(1)] by blast
    have "m a = ram s a" if "a \<notin> draw_area P s" for a
    proof -
      have "?h * ?p \<le> unat (a - fb s)" using that by (auto simp: draw_area_def front_area_def)
      then have "\<not> (unat (a - fb s) div ?p < ?h \<and> unat (a - fb s) mod ?p < 4 * unat (screen_w s))"
        using b(2) by (cases "?p = 0") (auto simp: fb_ok_def div_less_iff_less_mult not_less)
      then have "ram (fb_swap_buffers s) a = ram s a"
        using fb_swap_ram [OF True b, of a] by (simp only: Let_def if_False)
      then show ?thesis by (simp add: m)
    qed
    then show ?thesis by (simp add: m kernel_keeps_def kernel_fixed_def)
  qed
  then show "kernel_keeps P s (fb_swap_buffers s)" "frame_counter (fb_swap_buffers s) = frame_counter s"
    by blast+
qed

lemma keeps_alive:
  assumes "uart_responsive (env P)" "kernel_keeps P s t"
  shows "succeeds (kernel_alive P n t) (\<lambda>u. kernel_keeps P s u \<and> frame_counter u = frame_counter t)"
  unfolding kernel_alive_def
  by (rule succeeds_bind [OF keeps_puts [OF assms]], rule succeeds_bind [OF keeps_puts [OF assms(1)]], blast)
    (rule succeeds_mono [OF keeps_puts [OF assms(1)]], auto)

lemma keeps_isr:
  assumes "kernel_ready s"
  shows "kernel_keeps P s (isr_handler E cr2 frame s)"
proof -
  consider "vector frame < 32 \<or> 48 \<le> vector frame \<and> vector frame \<noteq> 0xFFFF"
    | "32 \<le> vector frame" "vector frame < 48" | "vector frame = 0xFFFF" by (metis not_less)
  then show ?thesis
  proof cases
    case 1
    have "fb_ok s" "use_double_buffer s \<longrightarrow> back_buffer s \<noteq> 0" using assms by (simp_all add: kernel_ready_def)
    then obtain h u where u: "isr_handler E cr2 frame s = u\<lparr>halted := True\<rparr>"
      "fb_draws (s\<lparr>io_trace := h, if_flag := False\<rparr>) u" using isr_handler_panic [OF 1] by blast
    have "kernel_keeps P s (s\<lparr>io_trace := h, if_flag := False\<rparr>)" by (simp add: kernel_keeps_def kernel_fixed_def)
    then have "kernel_keeps P s u" using keeps_draws [OF u(2)] by (rule kernel_keeps_trans)
    then show ?thesis by (simp add: u(1) kernel_keeps_def kernel_fixed_def)
  next
    case 2
    from isr_handler_irq [OF 2, of E cr2 s] show ?thesis by (auto simp: kernel_keeps_def kernel_fixed_def)
  next
    case 3
    obtain h where "fold (outb COM1) (isr_banner (vector frame)) s = s\<lparr>io_trace := h\<rparr>"
      using banner_state by blast
    then show ?thesis using 3 by (simp add: isr_handler_def kernel_keeps_def kernel_fixed_def)
  qed
qed

lemma keeps_iter:
  assumes "uart_responsive (env P)" "kernel_ready s"
  shows "succeeds (kernel_iter P (n, l, s)) (\<lambda>(n', l', t). n' = n + 1 \<and> kernel_keeps P s t \<and>
    (l', frame_counter t) = (if 2 \<le> timer_ticks s - l then (timer_ticks s, frame_counter s + 1)
                             else (l, frame_counter s)))"
proof -
  let ?d = "2 \<le> timer_ticks s - l"
  let ?F = "\<lambda>t. frame_counter t = (if ?d then frame_counter s + 1 else frame_counter s)"
  let ?L = "if ?d then timer_ticks s else l"
  have sched: "kernel_keeps P s (scheduler s)" by (rule keeps_scheduler)
  have f: "frame_counter (scheduler s) = frame_counter s" by (simp add: scheduler_def Let_def)
  have ready: "kernel_ready (scheduler s)" by (rule kernel_keeps_ready [OF sched assms(2)])
  have draw: "succeeds (if ?d then do {
         s \<leftarrow> debug_panel_render (env P) (cpu P) (stack P) (scheduler s);
         let s' = fb_swap_buffers s;
         Some (timer_ticks s0, s') }
       else Some (l, scheduler s)) (\<lambda>p. fst p = (if ?d then timer_ticks s0 else l) \<and> kernel_keeps P s (snd p) \<and> ?F (snd p))"
    for s0 :: kernel_state
  proof (cases ?d)
    case False
    then show ?thesis using sched f by simp
  next
    case True
    have "succeeds (debug_panel_render (env P) (cpu P) (stack P) (scheduler s)) (\<lambda>t. kernel_keeps P s (fb_swap_buffers t) \<and>
        frame_counter (fb_swap_buffers t) = frame_counter s + 1)"
    proof (rule succeeds_mono [OF keeps_render [OF assms(1) ready]])
      fix t
      assume t: "kernel_keeps P (scheduler s) t \<and> frame_counter t = frame_counter (scheduler s) + 1"
      then have "kernel_ready t" using kernel_keeps_ready ready by blast
      then show "kernel_keeps P s (fb_swap_buffers t) \<and> frame_counter (fb_swap_buffers t) = frame_counter s + 1"
        using t f kernel_keeps_trans [OF kernel_keeps_trans [OF sched]] keeps_swap by metis
    qed
    then show ?thesis using True by (auto simp: succeeds_def Let_def)
  qed
  show ?thesis
    unfolding kernel_iter_def Let_def timer_get_ticks_def prod.case
  proof (rule succeeds_bind [OF draw [of s, unfolded Let_def]], clarify)
    fix l' t
    assume "fst (l', t) = ?L" "kernel_keeps P s (snd (l', t))" "?F (snd (l', t))"
    then have i: "l' = ?L" "kernel_keeps P s t" "?F t" by simp_all
    have "succeeds (if (n + 1) mod 5000000 = 0 then kernel_alive P (timer_ticks s) t else Some t)
      (\<lambda>u. kernel_keeps P s u \<and> frame_counter u = frame_counter t)"
      using keeps_alive [OF assms(1) i(2)] i(2) by simp
    then show "succeeds ((if (n + 1) mod 5000000 = 0 then kernel_alive P (timer_ticks s) t else Some t) \<bind>
        (\<lambda>s. Some (n + 1, l', s))) (\<lambda>(n', l', t). n' = n + 1 \<and> kernel_keeps P s t \<and>
        (l', frame_counter t) = (if ?d then (timer_ticks s, frame_counter s + 1) else (l, frame_counter s)))"
      by (rule succeeds_bind) (use i in auto)
  qed
qed

lemma keeps_step:
  assumes "kernel_step P c c'" "uart_responsive (env P)" "kernel_ready (snd (snd c))"
  shows "kernel_keeps P (snd (snd c)) (snd (snd c'))"
  using assms(1)
proof cases
  case iteration
  obtain n l s where c: "c = (n, l, s)" by (cases c)
  show ?thesis using iteration(2) keeps_iter [OF assms(2), of s n l] assms(3) by (auto simp: c succeeds_def)
next
  case interrupt
  then show ?thesis using keeps_isr assms(3) by simp
qed

lemma keeps_steps:
  assumes "(kernel_step P)\<^sup>*\<^sup>* c c'" "uart_responsive (env P)" "kernel_ready (snd (snd c))"
  shows "kernel_keeps P (snd (snd c)) (snd (snd c'))"
  using assms(1)
proof (induction rule: rtranclp_induct)
  case base
  show ?case by simp
next
  case (step y z)
  show ?case
    by (rule kernel_keeps_trans [OF step.IH keeps_step [OF step.hyps(2) assms(2) kernel_keeps_ready [OF step.IH assms(3)]]])
qed

subsection \<open>Refused boot\<close>

definition serial_setup :: "(u16 \<times> u8) list" where
  "serial_setup = [(0x3F9, 0), (0x3FB, 0x80), (0x3F8, 3), (0x3F9, 0), (0x3FB, 3), (0x3FA, 0xC7), (0x3FC, 0x0B)]"

lemma serial_init_state:
  "\<exists>h. serial_init s = s\<lparr>io_trace := h\<rparr> \<and> byte_outputs h = byte_outputs (io_trace s) @ serial_setup"
  by (intro exI [of _ "io_trace (serial_init s)"])
    (simp add: serial_init_def outb_def serial_setup_def Let_def)

lemma klog_spec:
  assumes "uart_responsive (env P)"
  shows "\<exists>h. klog P msg s = Some (s\<lparr>io_trace := h\<rparr>) \<and>
    byte_outputs h = byte_outputs (io_trace s) @ map (Pair COM1) (crlf (msg @ [10]))"
  unfolding klog_def by (rule serial_puts_spec [OF assms])

lemma irq_ticks:
  assumes "vector frame = 32"
  shows "timer_ticks (isr_handler E cr2 frame s) = timer_ticks s + 1"
    "frame_counter (isr_handler E cr2 frame s) = frame_counter s"
proof -
  obtain h where h: "fold (outb COM1) (isr_banner (vector frame)) s = s\<lparr>io_trace := h\<rparr>"
    using banner_state by blast
  show "timer_ticks (isr_handler E cr2 frame s) = timer_ticks s + 1"
    "frame_counter (isr_handler E cr2 frame s) = frame_counter s"
    using assms h by (simp_all add: isr_handler_def pic_eoi_def outb_def timer_handler_def Let_def)
qed

definition sample_kernel :: kernel_state where
  "sample_kernel = panel_state.extend (panel_state.truncate sample_panel)
     \<lparr>pmm_test_status = 0, vmm_test_status = 0\<rparr>"

definition sample_platform :: platform where
  "sample_platform = \<lparr>env = \<lambda>_ _. 0x20, cpu = \<lambda>_. (0, 0, 0, 0), stub = \<lambda>v. of_nat v * 16, stub_unhandled = 0x1000,
     boot_cr3 = 0x1000, walk = \<lambda>m t. Some,
     stack = \<lparr>vendor_buf = 0x8000, brand_buf = 0x8100, features_buf = 0x8200, fw_vendor_buf = 0x8400\<rparr>\<rparr>"

lemmas sample_defs = sample_kernel_def panel_state.defs sample_panel_def sys_state.defs sample_sys_def ide_state.defs
  sample_ide_def pci_state.defs sample_pci_def intr_state.defs sample_intr_def fb_state.defs sample_fb_def

lemma sample_kernel_ready:
  "kernel_ready sample_kernel" "if_flag sample_kernel" "\<not> halted sample_kernel" "timer_ticks sample_kernel = 0"
  "frame_counter sample_kernel = 7" "io_trace sample_kernel = []" "pmm_inv sample_kernel"
  "pmm_avail sample_kernel = {2048, 2049, 2050}" "ram sample_kernel a = ucast a"
  by (simp_all add: sample_defs kernel_ready_def fb_ok_def fb_target_def sample_inv sample_avail)

lemma sample_platform_uart: "uart_responsive (env sample_platform)"
  unfolding uart_responsive_def by (intro allI exI [of _ 0]) (simp add: lsr_ready_def sample_platform_def)

subsection \<open>Properties\<close>

text \<open>C5: whatever sequence of main-loop iterations and interrupts runs after boot, panics
  included, memory outside the two framebuffers and the panel's stack buffers keeps its
  contents, and so does every part of the kernel state that \<open>kernel_fixed\<close> does not erase:
  the free frames, the page-table root, the regions, the display mode, the descriptor tables,
  the device tables, the boot information; no process appears or disappears.\<close>

theorem kernel_isolated:
  assumes "uart_responsive (env P)" "kernel_ready s" "(kernel_step P)\<^sup>*\<^sup>* (n, l, s) (n', l', t)"
  shows "kernel_ready t \<and> kernel_fixed t = kernel_fixed s \<and> map pid (proc_table t) = map pid (proc_table s) \<and>
    (\<forall>a. a \<notin> fb_area s \<union> front_area s \<union> stack_area (stack P) \<longrightarrow> ram t a = ram s a)"
proof -
  have k: "kernel_keeps P s t" using keeps_steps [OF assms(3,1)] assms(2) by simp
  then show ?thesis using kernel_keeps_ready [OF k assms(2)] by (simp add: kernel_keeps_def draw_area_def)
qed



theorem kernel_isolated_witness:
  "\<exists>t. (kernel_step sample_platform)\<^sup>*\<^sup>* (5, 0, sample_kernel) (5, 0, t) \<and> timer_ticks t = 1 \<and>
    proc_table t = proc_table sample_kernel \<and> ram t 0x300000 = 0 \<and> pmm_avail t = {2048, 2049, 2050}"
proof -
  let ?t = "isr_handler (env sample_platform) 0 (sample_frame 32) sample_kernel"
  have s: "(kernel_step sample_platform)\<^sup>*\<^sup>* (5, 0, sample_kernel) (5, 0, ?t)"
    by (rule r_into_rtranclp, rule interrupt) (simp_all add: sample_kernel_ready)
  note k = kernel_isolated [OF sample_platform_uart sample_kernel_ready(1) s]
  have a: "0x300000 \<notin> fb_area sample_kernel \<union> front_area sample_kernel \<union> stack_area (stack sample_platform)"
    by (simp add: fb_area_def front_area_def stack_area_def fb_target_def sample_defs sample_platform_def)
  have "kernel_fixed ?t = kernel_fixed sample_kernel" using k by blast
  from arg_cong [OF this, of pmm_bitmap] have m: "pmm_bitmap ?t = pmm_bitmap sample_kernel"
    by (simp add: kernel_fixed_def)
  have "ram ?t 0x300000 = 0" using k a by (simp add: sample_kernel_ready)
  moreover have "pmm_avail ?t = {2048, 2049, 2050}"
    using sample_kernel_ready(8) m by (simp add: pmm_avail_def frame_bit_def)
  moreover have "timer_ticks ?t = 1" by (simp add: irq_ticks sample_frame_def sample_kernel_ready)
  moreover have "proc_table ?t = proc_table sample_kernel"
    using k by (simp add: sample_defs)
  ultimately show ?thesis using s by blast
qed

text \<open>C19: the allocator self test passes exactly when at least two frames are free, and then it
  gives both back; when it fails no frame is free afterwards, so a single free frame is lost.\<close>

theorem run_pmm_test_exact:
  assumes "pmm_inv s"
  shows "pmm_test_status (run_pmm_test s) = (if 2 \<le> card (pmm_avail s) then 1 else 2) \<and>
    pmm_avail (run_pmm_test s) = (if 2 \<le> card (pmm_avail s) then pmm_avail s else {})"
  using pmm_test_passes [OF assms] pmm_test_fails [OF assms] by simp

theorem run_pmm_test_exact_witness:
  "pmm_test_status (run_pmm_test sample_kernel) = 1 \<and> pmm_avail (run_pmm_test sample_kernel) = {2048, 2049, 2050}"
  using run_pmm_test_exact [OF sample_kernel_ready(7)] by (simp add: sample_kernel_ready)

text \<open>C31: without a boot information block, or with a wrong magic number, \<open>kernel_main\<close> prints
  the banner and the reason on the serial port, changes nothing else and halts for good.\<close>

theorem kernel_boot_rejects:
  assumes "uart_responsive (env P)" "bad_info pinfo"
  shows "\<exists>h. kernel_boot P pinfo s = Some (s\<lparr>io_trace := h, halted := True\<rparr>) \<and>
    byte_outputs h = byte_outputs (io_trace s) @ serial_setup @
      map (Pair COM1) (crlf ([10] @ asc ''=== OS44 KERNEL ==='' @ [10]) @ crlf (asc ''FATAL: bad bootinfo'' @ [10])) \<and>
    (\<forall>n l c. \<not> kernel_step P (n, l, s\<lparr>io_trace := h, halted := True\<rparr>) c)"
proof -
  obtain h0 where h0: "serial_init s = s\<lparr>io_trace := h0\<rparr>"
    "byte_outputs h0 = byte_outputs (io_trace s) @ serial_setup" using serial_init_state by blast
  obtain h1 where h1: "klog P ([10] @ asc ''=== OS44 KERNEL ==='') (s\<lparr>io_trace := h0\<rparr>) = Some (s\<lparr>io_trace := h1\<rparr>)"
    "byte_outputs h1 = byte_outputs h0 @ map (Pair COM1) (crlf (([10] @ asc ''=== OS44 KERNEL ==='') @ [10]))"
    using klog_spec [OF assms(1), of "[10] @ asc ''=== OS44 KERNEL ===''" "s\<lparr>io_trace := h0\<rparr>"] by auto
  obtain h2 where h2: "klog P (asc ''FATAL: bad bootinfo'') (s\<lparr>io_trace := h1\<rparr>) = Some (s\<lparr>io_trace := h2\<rparr>)"
    "byte_outputs h2 = byte_outputs h1 @ map (Pair COM1) (crlf (asc ''FATAL: bad bootinfo'' @ [10]))"
    using klog_spec [OF assms(1), of "asc ''FATAL: bad bootinfo''" "s\<lparr>io_trace := h1\<rparr>"] by auto
  have "kernel_boot P pinfo s = Some (s\<lparr>io_trace := h2, halted := True\<rparr>)"
    unfolding kernel_boot_def Let_def h0(1) h1(1) Option.bind.simps using assms(2) by (simp add: h2(1))
  moreover have "\<not> kernel_step P (n, l, s\<lparr>io_trace := h2, halted := True\<rparr>) c" for n l c
    by (auto elim!: kernel_stepE)
  ultimately show ?thesis
    by (intro exI [of _ h2]) (simp only: h0 h1 h2 map_append append_assoc simp_thms)
qed

theorem kernel_boot_rejects_witness:
  "\<exists>h. kernel_boot sample_platform None sample_kernel = Some (sample_kernel\<lparr>io_trace := h, halted := True\<rparr>) \<and>
    length (byte_outputs h) = 51"
proof -
  have n: "length (serial_setup @ map (Pair COM1) (crlf ([10] @ asc ''=== OS44 KERNEL ==='' @ [10]) @
      crlf (asc ''FATAL: bad bootinfo'' @ [10]))) = 51" by code_simp
  have b: "bad_info None" by (simp add: bad_info_def)
  obtain h where h: "kernel_boot sample_platform None sample_kernel = Some (sample_kernel\<lparr>io_trace := h, halted := True\<rparr>)"
    and o: "byte_outputs h = byte_outputs (io_trace sample_kernel) @ serial_setup @
      map (Pair COM1) (crlf ([10] @ asc ''=== OS44 KERNEL ==='' @ [10]) @ crlf (asc ''FATAL: bad bootinfo'' @ [10]))"
    using kernel_boot_rejects [OF sample_platform_uart b, of sample_kernel] by blast
  have "byte_outputs h = serial_setup @
      map (Pair COM1) (crlf ([10] @ asc ''=== OS44 KERNEL ==='' @ [10]) @ crlf (asc ''FATAL: bad bootinfo'' @ [10]))"
    using o by (simp add: sample_kernel_ready)
  then show ?thesis using h n by metis
qed

end
