(* ===== verification/Boot.thy ===== *)
theory Boot
  imports Kernel
begin

section \<open>What booting establishes\<close>

text \<open>
  \<open>kernel_boot\<close> is a long sequence of calls that each change a few variables. What the running
  kernel relies on is split in three views: the display, the processor's data, the allocators.
  Most calls keep all three and write memory only in the back buffer (\<open>boot_keeps\<close>), which one
  lemma per call states; the others are followed one by one, in four parts of the sequence
  (\<open>kernel_boot_parts\<close>). \<open>bootable\<close> collects what the machine has to provide.
\<close>

type_synonym display = "u64 \<times> u64 \<times> u64 \<times> u64 \<times> u64 \<times> bool \<times> bool"

definition display_view :: "kernel_state \<Rightarrow> display" where
  "display_view s = (fb s, back_buffer s, screen_w s, screen_h s, fb_pitch_val s, use_double_buffer s, halted s)"

definition cpu_view :: "kernel_state \<Rightarrow> boot_info option \<times> nat \<times> nat" where
  "cpu_view s = (sys_boot_info s, length (cpu_vendor_str s), length (cpu_brand_str s))"

definition memory_view :: "kernel_state \<Rightarrow> (nat \<Rightarrow> u8) \<times> u64 \<times> nat option \<times> (nat \<Rightarrow> vma) \<times> nat \<times> u64 \<times> u64" where
  "memory_view s = (pmm_bitmap s, total_frames s, vma_list s, vma_nodes s, vma_count s, next_vaddr s, pml4 s)"

definition boot_keeps :: "u64 set \<Rightarrow> kernel_state \<Rightarrow> kernel_state \<Rightarrow> bool" where
  "boot_keeps W s t \<longleftrightarrow> display_view t = display_view s \<and> cpu_view t = cpu_view s \<and> memory_view t = memory_view s \<and>
     (\<forall>a. a \<notin> W \<longrightarrow> ram t a = ram s a)"

lemma boot_keeps_refl [simp]: "boot_keeps W s s"
  by (simp add: boot_keeps_def)

lemma boot_keeps_trans: "boot_keeps W s t \<Longrightarrow> boot_keeps W t u \<Longrightarrow> boot_keeps W s u"
  by (simp add: boot_keeps_def)

lemmas view_defs = boot_keeps_def display_view_def cpu_view_def memory_view_def

lemma boot_keeps_fields [simp]:
  "boot_keeps W s (t\<lparr>io_trace := h\<rparr>) = boot_keeps W s t"
  "boot_keeps W s (t\<lparr>if_flag := b\<rparr>) = boot_keeps W s t"
  by (simp_all add: view_defs)

lemma boot_keeps_memory:
  assumes "boot_keeps W s t"
  shows "pmm_avail t = pmm_avail s" "pmm_inv t = pmm_inv s" "vmm_rep t rs = vmm_rep s rs" "next_vaddr t = next_vaddr s"
    "vma_count t = vma_count s" "pml4 t = pml4 s"
  using assms by (simp_all add: view_defs pmm_avail_def pmm_inv_def frame_bit_def vmm_rep_def)

subsection \<open>Ports\<close>

text \<open>A computation on ports only adds to the record of accesses.\<close>

definition io_only :: "'a machine_scheme \<Rightarrow> 'a machine_scheme \<Rightarrow> bool" where
  "io_only s t \<longleftrightarrow> (\<exists>h. t = s\<lparr>io_trace := h\<rparr>)"

lemma io_only_refl [simp]: "io_only s s"
  unfolding io_only_def by (intro exI [of _ "io_trace s"]) simp

lemma io_only_trace: "io_only s t \<Longrightarrow> io_only s (t\<lparr>io_trace := h\<rparr>)"
  by (auto simp: io_only_def)

lemma io_only_in: "io_only s t \<Longrightarrow> io_only s (snd (inb E p t))" "io_only s t \<Longrightarrow> io_only s (snd (inw E p t))"
  by (auto simp: io_only_def inb_def inw_def Let_def)

lemma io_only_out: "io_only s t \<Longrightarrow> io_only s (outb p v t)"
  by (auto simp: io_only_def outb_def)

lemma io_only_keeps: "io_only t u \<Longrightarrow> boot_keeps W s t \<Longrightarrow> boot_keeps W s u"
  by (auto simp: io_only_def)

lemma io_only_wait_write: "io_only s t \<Longrightarrow> io_only s (i8042_wait_write_loop E n t)"
  by (induction n arbitrary: t) (auto simp: split_beta Let_def intro: io_only_in)

lemma io_only_wait_read: "io_only s t \<Longrightarrow> io_only s (snd (i8042_wait_read_loop E n t))"
  by (induction n arbitrary: t) (auto simp: split_beta Let_def intro: io_only_in)

lemma io_only_flush: "io_only s t \<Longrightarrow> io_only s (i8042_flush_loop E n t)"
  by (induction n arbitrary: t) (auto simp: split_beta Let_def intro: io_only_in)

lemma io_only_send: "io_only s t \<Longrightarrow> io_only s (i8042_send E p v t)"
  unfolding i8042_send_def i8042_wait_write_def by (intro io_only_out io_only_wait_write)

lemma io_only_if: "io_only s t \<Longrightarrow> io_only s u \<Longrightarrow> io_only s (if c then t else u)"
  by simp

lemma io_only_keyboard_init: "io_only s (keyboard_init E s)"
  unfolding keyboard_init_def Let_def split_beta i8042_wait_read_def i8042_flush_def
  by (intro io_only_if io_only_out io_only_in io_only_send io_only_wait_read io_only_flush io_only_refl)

lemma timer_init_returns: "succeeds (timer_init E 100 s) (io_only s)"
  unfolding timer_init_def Let_def split_beta
  by simp (intro io_only_out io_only_in io_only_refl)

subsection \<open>Calls that keep the view\<close>

lemma keeps_klog: "uart_responsive (env P) \<Longrightarrow> boot_keeps W s t \<Longrightarrow> succeeds (klog P msg t) (boot_keeps W s)"
  using klog_spec [of P msg t] by (auto simp: succeeds_def)

lemma keeps_puts': "uart_responsive E \<Longrightarrow> boot_keeps W s t \<Longrightarrow> succeeds (serial_puts E msg t) (boot_keeps W s)"
  using serial_puts_spec [of E msg t] by (auto simp: succeeds_def)

text \<open>Drawing is confined to the current buffer.\<close>

definition draws_into :: "u64 set \<Rightarrow> kernel_state \<Rightarrow> bool" where
  "draws_into W s \<longleftrightarrow> fb_ok s \<and> fb_area s \<subseteq> W"

lemma draws_into_keeps: "boot_keeps W s t \<Longrightarrow> draws_into W t = draws_into W s"
  by (simp add: view_defs draws_into_def fb_ok_def fb_area_def fb_target_def)

lemma keeps_draws_boot: "draws_into W s \<Longrightarrow> fb_draws s t \<Longrightarrow> boot_keeps W s t"
proof -
  assume a: "draws_into W s" "fb_draws s t"
  then have t: "t = s\<lparr>ram := ram t\<rparr>" by (simp add: fb_draws_def)
  have r: "\<forall>a. a \<notin> W \<longrightarrow> ram t a = ram s a"
  proof (intro allI impI)
    fix b
    assume "b \<notin> W"
    then have "b \<notin> fb_area s" using a(1) by (auto simp: draws_into_def)
    then show "ram t b = ram s b" using a(2) by (simp add: fb_draws_def fb_area_def not_less)
  qed
  have "boot_keeps W s (s\<lparr>ram := ram t\<rparr>)" using r by (simp add: view_defs)
  then show ?thesis using t by simp
qed

lemma keeps_string:
  assumes "draws_into W s" "boot_keeps W s t"
  shows "boot_keeps W s (fb_draw_string str x y fg bg t)"
proof -
  have d: "draws_into W t" using assms draws_into_keeps by blast
  then have "fb_draws t (fb_draw_string str x y fg bg t)" by (intro fb_draws_string) (simp_all add: draws_into_def)
  then show ?thesis by (rule boot_keeps_trans [OF assms(2) keeps_draws_boot [OF d]])
qed

lemma keeps_outb: "boot_keeps W s t \<Longrightarrow> boot_keeps W s (outb p v t)"
  by (simp add: outb_def)

lemma keeps_inb: "boot_keeps W s t \<Longrightarrow> boot_keeps W s (snd (inb E p t))"
  by (simp add: inb_def Let_def)

lemma keeps_gate: "boot_keeps W s t \<Longrightarrow> boot_keeps W s (idt_set_gate i a t)"
  by (simp add: idt_set_gate_def view_defs)

lemma keeps_intr_init: "boot_keeps W s t \<Longrightarrow> boot_keeps W s (intr_init E stubs unhandled t)"
proof -
  assume t: "boot_keeps W s t"
  have g: "boot_keeps W s (gdt_init t)" using t by (simp add: gdt_init_def view_defs)
  have i: "boot_keeps W s (idt_load u)" if "boot_keeps W s u" for u using that by (simp add: idt_load_def view_defs)
  show ?thesis
    unfolding intr_init_def pic_remap_def Let_def split_beta
    by (intro i keeps_outb keeps_inb fold_keeps [of "boot_keeps W s"] keeps_gate g)
qed

lemma keeps_wait: "boot_keeps W s t \<Longrightarrow> boot_keeps W s (snd (ide_wait_ready_impl E base n t))"
proof -
  assume t: "boot_keeps W s t"
  let ?u = "snd (ide_wait_ready_impl E base n t)"
  have u: "?u = t\<lparr>io_trace := io_trace ?u, ide_last_status := ide_last_status ?u, ide_last_error := ide_last_error ?u\<rparr>"
    using wait_ready_polled [of n t E base] unfolding polled_def by (rule conjunct1)
  have "boot_keeps W t ?u" by (subst u) (simp add: view_defs)
  then show ?thesis by (rule boot_keeps_trans [OF t])
qed

lemma keeps_fetch: "boot_keeps W s t \<Longrightarrow> boot_keeps W s (snd (ide_fetch E base t))"
  using inw_words_state [of E base 256 "snd (ide_wait_ready_impl E base 100000 t)"] keeps_wait [of W s t E base 100000]
  by (auto simp: ide_fetch_def split_beta Let_def)

lemma keeps_probe: "boot_keeps W s t \<Longrightarrow> boot_keeps W s (snd (ide_probe E base sel t))"
  unfolding ide_probe_def ide_select_drive_def Let_def by (intro keeps_outb keeps_inb)

lemma keeps_ide_fields [simp]:
  "boot_keeps W s (t\<lparr>ide_primary_master := a, ide_primary_master_sectors := n\<rparr>) = boot_keeps W s t"
  "boot_keeps W s (t\<lparr>ide_primary_slave := a, ide_primary_slave_sectors := n\<rparr>) = boot_keeps W s t"
  "boot_keeps W s (t\<lparr>ide_secondary_master := a, ide_secondary_master_sectors := n\<rparr>) = boot_keeps W s t"
  "boot_keeps W s (t\<lparr>ide_secondary_slave := a, ide_secondary_slave_sectors := n\<rparr>) = boot_keeps W s t"
  by (simp_all add: view_defs)

lemma keeps_if: "boot_keeps W s t \<Longrightarrow> boot_keeps W s u \<Longrightarrow> boot_keeps W s (if c then t else u)"
  by simp

lemma keeps_drives:
  assumes "draws_into W s" "boot_keeps W s t"
  shows "boot_keeps W s (ide_init_primary_master E t)" "boot_keeps W s (ide_init_primary_slave E t)"
    "boot_keeps W s (ide_init_secondary_master E t)" "boot_keeps W s (ide_init_secondary_slave E t)"
  unfolding ide_init_primary_master_def ide_init_primary_slave_def ide_init_secondary_master_def
    ide_init_secondary_slave_def Let_def split_beta
  by (intro keeps_if keeps_string, simp_all only: keeps_ide_fields, (intro keeps_fetch keeps_probe assms)+)+

lemma keeps_ide_init:
  assumes "uart_responsive E" "draws_into W s" "boot_keeps W s t"
  shows "succeeds (ide_init E t) (boot_keeps W s)"
  unfolding ide_init_def Let_def
  by (intro succeeds_bind [OF keeps_puts' [OF assms(1)]] keeps_puts' [OF assms(1)] keeps_string keeps_drives keeps_outb)
    (use assms in simp_all)

lemma keeps_config: "boot_keeps W s t \<Longrightarrow> boot_keeps W s (snd (pci_config_read E b d f r t))"
  by (simp add: pci_config_read_trace)

lemma keeps_pci_fields [simp]:
  "boot_keeps W s (t\<lparr>pci_device_count := n\<rparr>) = boot_keeps W s t" "boot_keeps W s (t\<lparr>pci_devices := ds\<rparr>) = boot_keeps W s t"
  by (simp_all add: view_defs)

lemma keeps_read_device: "boot_keeps W s t \<Longrightarrow> boot_keeps W s (snd (pci_read_device E dev t))"
  using read_device_keeps [of E dev t] by auto

lemma keeps_check_device: "boot_keeps W s t \<Longrightarrow> boot_keeps W s (pci_check_device E b d f t)"
  by (simp add: pci_check_device_def split_beta Let_def keeps_config keeps_read_device)

lemma keeps_check_function: "boot_keeps W s t \<Longrightarrow> boot_keeps W s (pci_check_function E b d f t)"
  by (simp add: pci_check_function_def split_beta Let_def keeps_config keeps_check_device)

lemma keeps_check_slot: "boot_keeps W s t \<Longrightarrow> boot_keeps W s (pci_check_slot E b d t)"
  by (simp add: pci_check_slot_def split_beta Let_def keeps_config keeps_check_device keeps_check_function
      fold_keeps [of "boot_keeps W s"] del: upt_rec_numeral)

lemma keeps_check_bus: "boot_keeps W s t \<Longrightarrow> boot_keeps W s (pci_check_bus E b t)"
  by (simp add: pci_check_bus_def keeps_check_slot fold_keeps [of "boot_keeps W s"] del: upt_rec_numeral)

lemma keeps_other_buses: "boot_keeps W s t \<Longrightarrow> boot_keeps W s (pci_check_other_buses E t)"
  unfolding pci_check_other_buses_def split_beta Let_def
  by (intro keeps_if keeps_config fold_keeps [of "boot_keeps W s"] keeps_check_bus)

lemma keeps_pci_init:
  assumes "uart_responsive E" "boot_keeps W s t"
  shows "succeeds (pci_init E t) (boot_keeps W s)"
  unfolding pci_init_def Let_def
  by (intro succeeds_bind [OF keeps_puts' [OF assms(1)]] keeps_puts' [OF assms(1)] keeps_check_bus keeps_other_buses)
    (use assms in simp_all)

lemma keeps_small:
  assumes "boot_keeps W s t"
  shows "boot_keeps W s (process_init t)" "boot_keeps W s (debug_panel_init a b t)" "boot_keeps W s (serial_init t)"
    "boot_keeps W s (keyboard_init E t)" "succeeds (timer_init E 100 t) (boot_keeps W s)"
proof -
  show "boot_keeps W s (process_init t)" "boot_keeps W s (debug_panel_init a b t)"
    using assms by (simp_all add: process_init_def debug_panel_init_def view_defs)
  show "boot_keeps W s (serial_init t)" using serial_init_state [of t] assms by auto
  show "boot_keeps W s (keyboard_init E t)" by (rule io_only_keeps [OF io_only_keyboard_init assms])
  show "succeeds (timer_init E 100 t) (boot_keeps W s)"
    by (rule succeeds_mono [OF timer_init_returns]) (rule io_only_keeps [OF _ assms])
qed

subsection \<open>The display and the processor's data\<close>

lemma fb_init_views:
  "display_view (fb_init info s) = (framebuffer info, back_buffer s, info_fb_width info, info_fb_height info,
     info_fb_pitch info, use_double_buffer s, halted s)"
  "cpu_view (fb_init info s) = cpu_view s" "ram (fb_init info s) = ram s"
  "next_vaddr (fb_init info s) = next_vaddr s"
  by (simp_all add: fb_init_def display_view_def cpu_view_def)

lemma length_poke [simp]: "length (poke k bs xs) = length xs"
  by (induction k bs xs rule: poke.induct) simp_all

lemma sysinfo_init_views:
  "display_view (sysinfo_init C pinfo s) = display_view s" "memory_view (sysinfo_init C pinfo s) = memory_view s"
  "cpu_view (sysinfo_init C pinfo s) = (pinfo, length (cpu_vendor_str s), length (cpu_brand_str s))"
  "ram (sysinfo_init C pinfo s) = ram s"
proof -
  have "length (fold (\<lambda>i b. let (eax, ebx, ecx, edx) = C (0x80000002 + of_nat i);
        b = poke (16 * i) (le_bytes 4 eax) b; b = poke (16 * i + 4) (le_bytes 4 ebx) b;
        b = poke (16 * i + 8) (le_bytes 4 ecx) b
      in poke (16 * i + 12) (le_bytes 4 edx) b) is xs) = length xs" for "is" :: "nat list" and xs
    by (rule fold_keeps [where P = "\<lambda>b. length b = length xs"]) (simp_all add: split_beta Let_def)
  then show "cpu_view (sysinfo_init C pinfo s) = (pinfo, length (cpu_vendor_str s), length (cpu_brand_str s))"
    by (simp add: sysinfo_init_def cpu_view_def split_beta Let_def)
qed (simp_all add: sysinfo_init_def display_view_def memory_view_def split_beta Let_def)

subsection \<open>The back buffer\<close>

lemma pmm_alloc_frame_more: "pmm_state.more (snd (pmm_alloc_frame s)) = pmm_state.more s"
  using pmm_alloc_frame_state [of s "fst (pmm_alloc_frame s)" "snd (pmm_alloc_frame s)"] by auto

lemma alloc_frames_more: "pmm_state.more (fold (\<lambda>i s. snd (pmm_alloc_frame s)) xs s) = pmm_state.more s"
  by (induction xs arbitrary: s) (simp_all add: pmm_alloc_frame_more)

lemma mem_alloc_more: "pmm_state.more (snd (mem_alloc sz s)) = pmm_state.more s"
  by (simp add: mem_alloc_def Let_def split_beta alloc_frames_more pmm_alloc_frame_more)

lemma more_views:
  assumes "pmm_state.more t = pmm_state.more s"
  shows "display_view t = display_view s" "cpu_view t = cpu_view s" "if_flag t = if_flag s"
    "vmm_rep t rs = vmm_rep s rs" "next_vaddr t = next_vaddr s" "pml4 t = pml4 s"
  using assms by (cases s, cases t, simp add: display_view_def cpu_view_def vmm_rep_def)+

definition screen_frames :: "nat \<Rightarrow> nat" where
  "screen_frames len = (len + 4103) div 4096"

lemma mem_pages_screen:
  assumes "screen_frames (unat h * unat p) \<le> 1048576"
  shows "unat (mem_pages (h * p)) = screen_frames (unat h * unat p)"
    "unat h * unat p + 8 \<le> screen_frames (unat h * unat p) * 4096" "0 < screen_frames (unat h * unat p)"
proof -
  let ?k = "unat h * unat p"
  have k: "?k < 4294967296" using assms by (simp add: screen_frames_def)
  have hp: "unat (h * p) = ?k" using k by (simp add: unat_word_ariths(2))
  have "h * p + 8 + 4096 - 1 = h * p + 4103" by simp
  moreover have "unat (h * p + 4103) = ?k + 4103" using k by (simp add: unat_word_ariths(1) hp)
  ultimately show "unat (mem_pages (h * p)) = screen_frames ?k"
    by (simp only: mem_pages_def Let_def unat_div screen_frames_def) simp
  show "?k + 8 \<le> screen_frames ?k * 4096" "0 < screen_frames ?k" unfolding screen_frames_def by linarith+
qed

text \<open>The bytes of a set of frames.\<close>

definition frame_bytes :: "nat set \<Rightarrow> u64 set" where
  "frame_bytes A = {a. unat a div 4096 \<in> A}"

lemma store64_frame:
  assumes "f < 1048576" "a \<notin> frame_bytes {f}"
  shows "store64 (of_nat f * PAGE_SIZE) v m a = m a"
proof -
  let ?b = "of_nat f * PAGE_SIZE :: u64"
  have b: "unat ?b = f * 4096" using frame_address_div(2) [OF assms(1)] .
  have "8 \<le> unat (a - ?b)"
  proof (rule ccontr)
    assume "\<not> 8 \<le> unat (a - ?b)"
    then have i: "unat (a - ?b) < 8" by simp
    have "unat (?b + (a - ?b)) = f * 4096 + unat (a - ?b)"
      using assms(1) i by (subst unat_add_lem [THEN iffD1]) (simp_all add: b)
    then have "unat a = f * 4096 + unat (a - ?b)" by simp
    then show False using assms(2) i by (simp add: frame_bytes_def)
  qed
  then show ?thesis by (simp add: store64_def store_bytes_apply)
qed

lemma enable_double_buffering:
  assumes "pmm_inv s" "{f..<f + n} \<subseteq> pmm_avail s" "\<forall>g \<in> pmm_avail s. f \<le> g"
    and n: "n = screen_frames (unat (screen_h s) * unat (fb_pitch_val s))" "n \<le> 1048576"
  defines "b \<equiv> of_nat f * PAGE_SIZE + 8" and "t \<equiv> fb_enable_double_buffering s"
  shows "display_view t = (fb s, b, screen_w s, screen_h s, fb_pitch_val s, True, halted s)"
    "cpu_view t = cpu_view s" "vmm_rep t rs = vmm_rep s rs" "next_vaddr t = next_vaddr s" "pml4 t = pml4 s"
    "pmm_inv t" "pmm_avail t = pmm_avail s - {f..<f + n}" "a \<notin> frame_bytes (pmm_avail s) \<Longrightarrow> ram t a = ram s a"
proof -
  let ?sz = "screen_h s * fb_pitch_val s"
  note p = mem_pages_screen [OF n(2) [unfolded n(1)], folded n(1)]
  have fA: "f \<in> pmm_avail s" using assms(2) p(3) by (simp add: subset_eq)
  then have ne: "pmm_avail s \<noteq> {}" by auto
  have m: "Min (pmm_avail s) = f" using fA assms(3) by (intro Min_eqI) auto
  have f: "f < 1048576" using fA by (rule pmm_avail_bound)
  note a = mem_alloc_some [OF assms(1) ne, of ?sz, unfolded m]
  define u where "u = snd (mem_alloc ?sz s)"
  have "unat (of_nat f * PAGE_SIZE :: u64) = f * 4096" using frame_address_div(2) [OF f] .
  then have "unat b = f * 4096 + 8" unfolding b_def using f by (simp add: unat_word_ariths(1))
  then have nz: "b \<noteq> 0" by auto
  have t: "t = u\<lparr>back_buffer := b, use_double_buffer := True\<rparr>"
    using nz a(1) by (simp add: t_def fb_enable_double_buffering_def split_beta Let_def u_def b_def)
  note v = more_views [OF mem_alloc_more [of ?sz s], folded u_def]
  show "display_view t = (fb s, b, screen_w s, screen_h s, fb_pitch_val s, True, halted s)"
    using v(1) by (simp add: t display_view_def)
  show "cpu_view t = cpu_view s" "vmm_rep t rs = vmm_rep s rs" "next_vaddr t = next_vaddr s" "pml4 t = pml4 s"
    using v(2,4-) by (simp_all add: t cpu_view_def vmm_rep_def)
  show "pmm_inv t" using a(4) by (simp add: t u_def pmm_inv_def frame_bit_def)
  have "pmm_avail t = pmm_avail u" by (simp add: t pmm_avail_def frame_bit_def)
  also have "\<dots> = drop_lowest n (pmm_avail s)" using a(2) p(1,3) by (simp add: u_def)
  also have "\<dots> = pmm_avail s - {f..<f + n}" using assms(2,3) by (intro drop_lowest_run) simp_all
  finally show "pmm_avail t = pmm_avail s - {f..<f + n}" .
  show "ram t a = ram s a" if "a \<notin> frame_bytes (pmm_avail s)"
  proof -
    have "a \<notin> frame_bytes {f}" using that fA by (auto simp: frame_bytes_def)
    from store64_frame [OF f this] show ?thesis using a(3) by (simp add: t u_def)
  qed
qed

subsection \<open>The self tests\<close>

definition run_view :: "kernel_state \<Rightarrow> display \<times> (boot_info option \<times> nat \<times> nat) \<times> bool" where
  "run_view s = (display_view s, cpu_view s, if_flag s)"

lemma run_view_fields [simp]:
  "run_view (s\<lparr>io_trace := h\<rparr>) = run_view s" "run_view (s\<lparr>ram := m\<rparr>) = run_view s"
  "run_view (s\<lparr>pmm_test_status := a\<rparr>) = run_view s" "run_view (s\<lparr>vmm_test_status := a\<rparr>) = run_view s"
  by (simp_all add: run_view_def display_view_def cpu_view_def)

lemma run_view_more: "pmm_state.more t = pmm_state.more s \<Longrightarrow> run_view t = run_view s"
  by (simp only: run_view_def more_views(1-3) [of t s])

lemma vmm_more_view:
  assumes "vmm_state.more t = vmm_state.more s"
  shows "run_view t = run_view s" "pmm_test_status t = pmm_test_status s"
  using assms by (cases s, cases t, simp add: run_view_def display_view_def cpu_view_def)+

lemma free_frame_more: "pmm_state.more (pmm_free_frame p s) = pmm_state.more s"
  by (simp add: pmm_free_frame_def)

lemma pmm_frame_keeps:
  "ram (snd (pmm_alloc_frame s)) = ram s" "total_frames (snd (pmm_alloc_frame s)) = total_frames s"
  "ram (pmm_free_frame p s) = ram s" "total_frames (pmm_free_frame p s) = total_frames s"
  using pmm_alloc_frame_state [of s "fst (pmm_alloc_frame s)" "snd (pmm_alloc_frame s)"]
  by (auto simp: pmm_free_frame_def)

text \<open>What the allocator self test keeps besides the free frames.\<close>

definition test_keeps :: "kernel_state \<Rightarrow> kernel_state \<Rightarrow> bool" where
  "test_keeps s t \<longleftrightarrow> run_view t = run_view s \<and> vma_list t = vma_list s \<and> vma_nodes t = vma_nodes s \<and>
     vma_count t = vma_count s \<and> next_vaddr t = next_vaddr s \<and> pml4 t = pml4 s \<and> ram t = ram s \<and>
     total_frames t = total_frames s"

lemma test_keeps_more:
  assumes "test_keeps s t" "pmm_state.more u = pmm_state.more t" "ram u = ram t" "total_frames u = total_frames t"
  shows "test_keeps s u"
proof -
  have "vma_list u = vma_list t" "vma_nodes u = vma_nodes t" "vma_count u = vma_count t"
    using assms(2) by (cases t, cases u, simp)+
  then show ?thesis using assms more_views(5,6) [OF assms(2)] run_view_more [OF assms(2)] by (simp add: test_keeps_def)
qed

lemma run_pmm_test_keeps: "test_keeps s (run_pmm_test s)"
proof -
  have a: "test_keeps s (snd (pmm_alloc_frame t))" if "test_keeps s t" for t
    using that by (rule test_keeps_more) (simp_all only: pmm_alloc_frame_more pmm_frame_keeps)
  have f: "test_keeps s (pmm_free_frame p t)" if "test_keeps s t" for p t
    using that by (rule test_keeps_more) (simp_all only: free_frame_more pmm_frame_keeps)
  have "test_keeps s s" by (simp add: test_keeps_def)
  then have u: "test_keeps s (snd (pmm_alloc_frame (snd (pmm_alloc_frame s))))" by (intro a)
  have st: "test_keeps s (t\<lparr>pmm_test_status := k\<rparr>)" if "test_keeps s t" for t k
    using that by (simp add: test_keeps_def)
  show ?thesis unfolding run_pmm_test_def split_beta Let_def using u f st by simp
qed

lemma pmm_inv_avail:
  assumes "pmm_avail t = pmm_avail s" "total_frames t = total_frames s" "pmm_inv s"
  shows "pmm_inv t"
proof -
  have "frame_bit t f" if "f < RESERVED_FRAMES" for f
  proof -
    have "f \<notin> pmm_avail s" using that assms(3) by (simp add: pmm_inv_def pmm_avail_def)
    then have "f \<notin> pmm_avail t" by (simp only: assms(1) not_False_eq_True)
    moreover have "f < 1048576" using that by (simp add: RESERVED_FRAMES_def)
    ultimately show ?thesis by (simp add: pmm_avail_def)
  qed
  then show ?thesis using assms(2,3) by (simp add: pmm_inv_def)
qed

text \<open>The tables of \<open>CR3\<close> lead to a page table for \<open>v\<close>.\<close>

definition has_page_table :: "ram \<Rightarrow> u64 \<Rightarrow> u64 \<Rightarrow> bool" where
  "has_page_table m root v \<longleftrightarrow>
     (let pdpt = next_table m root (pml4_idx v); pd = next_table m pdpt (pdpt_idx v)
      in root \<noteq> 0 \<and> pdpt \<noteq> 0 \<and> pd \<noteq> 0 \<and> next_table m pd (pd_idx v) \<noteq> 0)"

lemma paging_map_returns:
  assumes "has_page_table (ram s) (pml4 s) v"
  shows "\<exists>t. paging_map v p s = Some t"
proof -
  let ?pdpt = "next_table (ram s) (pml4 s) (pml4_idx v)"
  let ?pd = "next_table (ram s) ?pdpt (pdpt_idx v)"
  let ?pt = "next_table (ram s) ?pd (pd_idx v)"
  have ne: "pml4 s \<noteq> 0" "?pdpt \<noteq> 0" "?pd \<noteq> 0" "?pt \<noteq> 0" using assms by (simp_all add: has_page_table_def Let_def)
  have "get_next_table (pml4 s) (pml4_idx v) True s = Some (?pdpt, s)"
    "get_next_table ?pdpt (pdpt_idx v) True s = Some (?pd, s)"
    "get_next_table ?pd (pd_idx v) True s = Some (?pt, s)"
    using ne by (intro get_next_table_present next_table_present; simp)+
  then show ?thesis using ne(1) by (simp add: paging_map_def Let_def)
qed

definition maps_bytes :: "mmu \<Rightarrow> u64 \<Rightarrow> nat \<Rightarrow> bool" where
  "maps_bytes X v n \<longleftrightarrow> (\<forall>m root. \<forall>i < n. X m root (v + of_nat i) \<noteq> None)"

lemma mmu_store_returns:
  "\<forall>i < length bs. x (va + of_nat i) \<noteq> None \<Longrightarrow> \<exists>m'. mmu_store x va bs m = Some m'"
proof (induction x va bs m rule: mmu_store.induct)
  case (2 x va b bs m)
  have "x (va + of_nat 0) \<noteq> None" using 2(2) by (metis length_Cons zero_less_Suc)
  then obtain pa where pa: "x va = Some pa" by auto
  have "x (va + 1 + of_nat i) \<noteq> None" if "i < length bs" for i
    using spec [OF 2(2), of "Suc i"] that by (simp add: add.assoc)
  then obtain m' where "mmu_store x (va + 1) bs (m(pa := b)) = Some m'" using 2(1) [OF pa] by blast
  then show ?case using pa by simp
qed simp

lemma mmu_load_returns:
  "\<forall>i < n. x (va + of_nat i) \<noteq> None \<Longrightarrow> \<exists>bs. mmu_load x va n m = Some bs"
proof (induction x va n m rule: mmu_load.induct)
  case (2 x va n m)
  have "x (va + of_nat 0) \<noteq> None" using 2(2) by blast
  then obtain pa where pa: "x va = Some pa" by auto
  have "x (va + 1 + of_nat i) \<noteq> None" if "i < n" for i
    using spec [OF 2(2), of "Suc i"] that by (simp add: add.assoc)
  then obtain bs where "mmu_load x (va + 1) n m = Some bs" using 2(1) [OF pa] by blast
  then show ?case using pa by simp
qed simp

lemma vmm_push_rep: "vmm_rep s rs \<Longrightarrow> \<exists>rs'. vmm_rep (vma_push a n s) rs'"
proof (cases "vma_count s < 128")
  case True
  assume "vmm_rep s rs"
  from vmm_rep_push [OF this True] show ?thesis by blast
next
  case False
  assume "vmm_rep s rs"
  then show ?thesis using False by (auto simp: vma_push_def)
qed

lemma run_vmm_test_returns:
  assumes "pmm_inv s" "pmm_avail s \<noteq> {}" "vmm_rep s rs" "has_page_table (ram s) (pml4 s) (next_vaddr s)"
    and "maps_bytes X (next_vaddr s) 8"
  shows "succeeds (run_vmm_test X s) (\<lambda>t. run_view t = run_view s \<and> pmm_test_status t = pmm_test_status s)"
proof -
  let ?v = "next_vaddr s" and ?p = "fst (pmm_alloc_frame s)" and ?s1 = "snd (pmm_alloc_frame s)"
  have "?p \<noteq> 0" using alloc_step(1) [OF assms(1,2)] .
  moreover have "pml4 ?s1 = pml4 s" "ram ?s1 = ram s"
    using more_views(6) [OF pmm_alloc_frame_more] by simp_all
  then obtain s2 where "paging_map ?v ?p ?s1 = Some s2" using paging_map_returns [of ?s1 ?v] assms(4) by auto
  moreover have "(4096 + 4095) div 4096 = (1 :: u64)" by simp
  ultimately obtain v u where a: "vmm_alloc 4096 s = Some (v, u)"
    by (simp add: vmm_alloc_def vmm_map_pages_one Let_def split_beta)
  obtain ok w where w: "takes_frames s w" "\<not> ok \<Longrightarrow> v = 0 \<and> u = w"
    "ok \<Longrightarrow> v = ?v \<and> u = vma_push v ((4096 + 4095) div 4096 * 4096) w\<lparr>next_vaddr := v + (4096 + 4095) div 4096 * 4096\<rparr>"
    by (rule vmm_alloc_cases [OF a]) (rule that)
  have u: "run_view u = run_view s" "pmm_test_status u = pmm_test_status s"
    using vmm_more_view [OF vmm_alloc_more [OF a]] by simp_all
  show ?thesis
  proof (cases "v = 0")
    case True
    then show ?thesis using u by (simp add: run_vmm_test_def a succeeds_def)
  next
    case False
    then have ok: ok using w(2) by blast
    have v: "v = ?v" using w(3) [OF ok] by blast
    have "vmm_rep w rs" using vmm_rep_more w(1) assms(3) by (auto simp: takes_frames_def)
    then obtain rs' where rep: "vmm_rep u rs'" using vmm_push_rep w(3) [OF ok] by (metis vmm_rep_next)
    have x: "X m r (v + of_nat i) \<noteq> None" if "i < 8" for m r i
      using assms(5) that unfolding maps_bytes_def v by blast
    obtain m where m: "mmu_store (X (ram u) (pml4 u)) v (le_bytes 8 (0xDEADBEEFCAFEBABE :: u64)) (ram u) = Some m"
      using mmu_store_returns x by (metis length_le_bytes)
    obtain bs where bs: "mmu_load (X m (pml4 u)) v 8 m = Some bs" using mmu_load_returns x by metis
    have "vmm_rep (u\<lparr>ram := m, vmm_test_status := 1\<rparr>) rs'" using rep by (simp add: vmm_rep_def)
    then obtain t where t: "vmm_free v (u\<lparr>ram := m, vmm_test_status := 1\<rparr>) = Some t"
      using vmm_free_rep [of _ rs' v] by metis
    have "run_view t = run_view s" "pmm_test_status t = pmm_test_status s"
      using vmm_more_view [OF vmm_free_more [OF t]] u by simp_all
    then show ?thesis using u False by (simp add: run_vmm_test_def a m bs t Let_def)
  qed
qed

definition table_bytes :: "ram \<Rightarrow> u64 \<Rightarrow> u64 \<Rightarrow> u64 set" where
  "table_bytes m root v =
     (let pdpt = next_table m root (pml4_idx v); pd = next_table m pdpt (pdpt_idx v)
      in \<Union>e \<in> {entry_addr root (pml4_idx v), entry_addr pdpt (pdpt_idx v), entry_addr pd (pd_idx v)}.
           {a. unat (a - e) < 8})"

lemma next_table_bytes:
  assumes "\<forall>a. unat (a - entry_addr t i) < 8 \<longrightarrow> m' a = m a"
  shows "next_table m' t i = next_table m t i"
proof -
  have "m' (entry_addr t i + of_nat k) = m (entry_addr t i + of_nat k)" if "k < 8" for k
    using assms that by (simp add: unat_of_nat_u64)
  then have "load_bytes 8 (entry_addr t i) m' = load_bytes 8 (entry_addr t i) m"
    unfolding load_bytes_def by (intro map_cong refl) (simp del: upt_rec_numeral)
  then have "load64 m' (entry_addr t i) = load64 m (entry_addr t i)" by (simp add: load64_def)
  then show ?thesis by (rule next_table_cong)
qed

lemma has_page_table_cong:
  assumes "has_page_table m root v" "\<forall>a \<in> table_bytes m root v. m' a = m a"
  shows "has_page_table m' root v"
proof -
  have e: "next_table m' root (pml4_idx v) = next_table m root (pml4_idx v)"
    "next_table m' (next_table m root (pml4_idx v)) (pdpt_idx v) = next_table m (next_table m root (pml4_idx v)) (pdpt_idx v)"
    "next_table m' (next_table m (next_table m root (pml4_idx v)) (pdpt_idx v)) (pd_idx v) =
       next_table m (next_table m (next_table m root (pml4_idx v)) (pdpt_idx v)) (pd_idx v)"
    using assms(2) by (intro next_table_bytes, simp add: table_bytes_def Let_def)+
  show ?thesis using assms(1) by (simp add: has_page_table_def Let_def e)
qed

subsection \<open>The stages of the boot\<close>

text \<open>What is established so far: the display and the processor's data, memory outside \<open>W\<close> as
  at the start, and, once the managers run, the free frames, the regions and the tables.\<close>

definition boot_stage :: "u64 set \<Rightarrow> kernel_state \<Rightarrow> display \<Rightarrow> boot_info option \<times> nat \<times> nat \<Rightarrow> kernel_state \<Rightarrow> bool" where
  "boot_stage W s d c u \<longleftrightarrow> display_view u = d \<and> cpu_view u = c \<and> (\<forall>a. a \<notin> W \<longrightarrow> ram u a = ram s a) \<and>
     next_vaddr u = next_vaddr s"

definition memory_stage :: "nat set \<Rightarrow> u64 \<Rightarrow> kernel_state \<Rightarrow> bool" where
  "memory_stage A root u \<longleftrightarrow> pmm_inv u \<and> pmm_avail u = A \<and> vmm_rep u [] \<and> pml4 u = root"

lemma stage_keeps:
  "boot_keeps W t u \<Longrightarrow> boot_stage W s d c t \<Longrightarrow> boot_stage W s d c u"
  "boot_keeps W t u \<Longrightarrow> memory_stage A root t \<Longrightarrow> memory_stage A root u"
  using boot_keeps_memory [of W t u] by (simp_all add: boot_stage_def memory_stage_def boot_keeps_def)

text \<open>\<open>kernel_boot\<close> on a good block, in four parts.\<close>

definition boot_display :: "platform \<Rightarrow> boot_info \<Rightarrow> kernel_state \<Rightarrow> kernel_state option" where
  "boot_display P info s = do {
     s \<leftarrow> klog P ([10] @ asc ''=== OS44 KERNEL ==='') (serial_init s);
     s \<leftarrow> klog P (asc ''[1] bootinfo OK'') s;
     s \<leftarrow> klog P (asc ''[2] fb_init OK'') (fb_init info s);
     klog P (asc ''[3] intr_init OK'') (intr_init (env P) (stub P) (stub_unhandled P) s)
   }"

definition boot_memory :: "platform \<Rightarrow> boot_info \<Rightarrow> kernel_state \<Rightarrow> kernel_state option" where
  "boot_memory P info s = do {
     s \<leftarrow> mem_init (boot_cr3 P) (Some info) s;
     s \<leftarrow> klog P (asc ''[4] mem_init OK'') s;
     s \<leftarrow> klog P (asc ''[5] double buffering OK'') (fb_enable_double_buffering s);
     klog P (asc ''[6] sysinfo_init OK'') (sysinfo_init (cpu P) (Some info) s)
   }"

definition boot_devices :: "platform \<Rightarrow> kernel_state \<Rightarrow> kernel_state option" where
  "boot_devices P s = do {
     s \<leftarrow> klog P (asc ''[7] keyboard_init OK'') (keyboard_init (env P) s);
     s \<leftarrow> timer_init (env P) 100 s;
     s \<leftarrow> klog P (asc ''[8] timer_init OK'') s;
     s \<leftarrow> klog P (asc ''[9] calling ide_init...'') s;
     s \<leftarrow> ide_init (env P) s;
     s \<leftarrow> klog P (asc ''[10] ide_init DONE'') s;
     s \<leftarrow> klog P (asc ''[11] calling pci_init...'') s;
     s \<leftarrow> pci_init (env P) s;
     s \<leftarrow> klog P (asc ''[12] pci_init DONE'') s;
     s \<leftarrow> klog P (asc ''[13] calling process_init...'') s;
     s \<leftarrow> klog P (asc ''[14] process_init DONE'') (process_init s);
     klog P (asc ''[14.5] about to sti'') s
   }"

definition boot_tests :: "platform \<Rightarrow> kernel_state \<Rightarrow> kernel_state option" where
  "boot_tests P s = do {
     s \<leftarrow> klog P (asc ''[15] interrupts enabled'') (s\<lparr>if_flag := True\<rparr>);
     s \<leftarrow> klog P (asc ''[16] pmm test done'') (run_pmm_test s);
     s \<leftarrow> run_vmm_test (walk P) s;
     s \<leftarrow> klog P (asc ''[17] vmm test done'') s;
     klog P (asc ''[18] debug_panel_init done'') (debug_panel_init (pmm_test_status s) (vmm_test_status s) s)
   }"

lemma kernel_boot_parts:
  assumes "magic info = BOOTINFO_MAGIC"
  shows "kernel_boot P (Some info) s =
    do { s \<leftarrow> boot_display P info s; s \<leftarrow> boot_memory P info s; s \<leftarrow> boot_devices P s; boot_tests P s }"
  unfolding kernel_boot_def boot_display_def boot_memory_def boot_devices_def boot_tests_def bad_info_def Let_def
    Option.bind_assoc
  using assms by simp

lemma keeps_succeeds:
  assumes "succeeds m (boot_keeps W t)" "boot_stage W s d c t"
  shows "succeeds m (\<lambda>u. boot_stage W s d c u \<and> (\<forall>A root. memory_stage A root t \<longrightarrow> memory_stage A root u))"
proof (rule succeeds_mono [OF assms(1)], intro conjI allI impI)
  show "boot_stage W s d c u" if "boot_keeps W t u" for u using stage_keeps(1) [OF that assms(2)] .
  show "memory_stage A root u" if "boot_keeps W t u" "memory_stage A root t" for u A root using stage_keeps(2) [OF that] .
qed

lemma klog_stage: "uart_responsive (env P) \<Longrightarrow> boot_stage W s d c t \<Longrightarrow>
    succeeds (klog P msg t) (\<lambda>u. boot_stage W s d c u \<and> (\<forall>A root. memory_stage A root t \<longrightarrow> memory_stage A root u))"
  by (rule keeps_succeeds [OF keeps_klog]) simp_all

lemma boot_display_stage:
  assumes "uart_responsive (env P)"
  shows "succeeds (boot_display P info s) (boot_stage {} s (framebuffer info, back_buffer s, info_fb_width info,
    info_fb_height info, info_fb_pitch info, use_double_buffer s, halted s) (cpu_view s))"
    (is "succeeds _ (boot_stage {} s ?d ?c)")
proof -
  let ?old = "display_view s"
  have i: "boot_stage {} s ?old ?c (serial_init s)"
    by (rule stage_keeps(1) [OF keeps_small(3) [OF boot_keeps_refl]]) (simp add: boot_stage_def)
  have fb: "boot_stage {} s ?d ?c (fb_init info t)" if "boot_stage {} s ?old ?c t" for t
  proof -
    have "back_buffer t = back_buffer s" "use_double_buffer t = use_double_buffer s" "halted t = halted s"
      using that by (simp_all add: boot_stage_def display_view_def)
    then show ?thesis using that by (simp add: boot_stage_def fb_init_views)
  qed
  have intr: "boot_stage {} s ?d ?c (intr_init (env P) (stub P) (stub_unhandled P) t)" if "boot_stage {} s ?d ?c t" for t
    by (rule stage_keeps(1) [OF keeps_intr_init [OF boot_keeps_refl] that])
  note k = klog_stage [OF assms, where s = s and W = "{}"]
  show ?thesis
    unfolding boot_display_def
    by (rule succeeds_bind [OF k [OF i]], elim conjE, rule succeeds_bind [OF k], assumption, elim conjE,
        rule succeeds_bind [OF k [OF fb]], assumption, elim conjE, rule succeeds_mono [OF k [OF intr]])
      simp_all
qed

lemma mem_more_views:
  assumes "mem_state.more t = mem_state.more s"
  shows "display_view t = display_view s" "cpu_view t = cpu_view s"
  using assms by (cases s, cases t, simp add: display_view_def cpu_view_def)+

definition boot_frames :: "kernel_state \<Rightarrow> boot_info \<Rightarrow> nat set" where
  "boot_frames s info = {g. RESERVED_FRAMES \<le> g \<and> g < 1048576 \<and> conventional_frame (ram s) info g}"

lemma mem_init_stage:
  assumes "mmap info \<noteq> 0" "EFI_MEMORY_DESCRIPTOR_SIZE \<le> mmap_desc_size info" "boot_stage {} s d c t"
  shows "succeeds (mem_init cr3 (Some info) t)
    (\<lambda>u. boot_stage W s d c u \<and> memory_stage (boot_frames s info) (cr3 AND NOT 0xFFF) u)"
proof -
  obtain u where u: "mem_init cr3 (Some info) t = Some u" "pmm_inv u" "pml4 u = cr3 AND NOT 0xFFF" "vmm_rep u []"
    "pmm_avail u = {g. RESERVED_FRAMES \<le> g \<and> g < 1048576 \<and> conventional_frame (ram t) info g}"
    "ram u = ram t" "next_vaddr u = next_vaddr t" "mem_state.more u = mem_state.more t"
    by (rule mem_init_state [OF assms(1,2)]) (rule that)
  have "ram t = ram s" using assms(3) by (auto simp: boot_stage_def fun_eq_iff)
  then show ?thesis using u(2-7) mem_more_views [OF u(8)] assms(3)
    by (simp add: u(1) boot_stage_def memory_stage_def boot_frames_def)
qed

text \<open>
  A machine that boots: a readable memory map with free memory for the back buffer in one run at
  the bottom and two more frames, a framebuffer and page tables outside that memory, tables that
  lead to a page table for the first virtual region, whose first bytes the processor maps.
\<close>

definition screen_bytes :: "boot_info \<Rightarrow> nat" where
  "screen_bytes info = unat (info_fb_height info) * unat (info_fb_pitch info)"

definition screen_run :: "kernel_state \<Rightarrow> boot_info \<Rightarrow> nat set" where
  "screen_run s info = {Min (boot_frames s info)..<Min (boot_frames s info) + screen_frames (screen_bytes info)}"

definition bootable :: "platform \<Rightarrow> boot_info \<Rightarrow> kernel_state \<Rightarrow> bool" where
  "bootable P info s \<longleftrightarrow>
     magic info = BOOTINFO_MAGIC \<and> mmap info \<noteq> 0 \<and> EFI_MEMORY_DESCRIPTOR_SIZE \<le> mmap_desc_size info \<and>
     4 * unat (info_fb_width info) \<le> unat (info_fb_pitch info) \<and>
     screen_run s info \<subseteq> boot_frames s info \<and>
     screen_frames (screen_bytes info) + 2 \<le> card (boot_frames s info) \<and>
     (\<forall>a. unat (a - framebuffer info) < screen_bytes info \<longrightarrow> a \<notin> frame_bytes (boot_frames s info)) \<and>
     has_page_table (ram s) (boot_cr3 P AND NOT 0xFFF) (next_vaddr s) \<and>
     table_bytes (ram s) (boot_cr3 P AND NOT 0xFFF) (next_vaddr s) \<inter> frame_bytes (boot_frames s info) = {} \<and>
     maps_bytes (walk P) (next_vaddr s) 8 \<and>
     length (cpu_vendor_str s) = 16 \<and> length (cpu_brand_str s) = 49 \<and> \<not> halted s"

definition back_addr :: "kernel_state \<Rightarrow> boot_info \<Rightarrow> u64" where
  "back_addr s info = of_nat (Min (boot_frames s info)) * PAGE_SIZE + 8"

definition booted_display :: "kernel_state \<Rightarrow> boot_info \<Rightarrow> display" where
  "booted_display s info = (framebuffer info, back_addr s info, info_fb_width info, info_fb_height info,
     info_fb_pitch info, True, False)"

lemma finite_boot_frames: "finite (boot_frames s info)"
  by (rule finite_subset [of _ "{..<1048576}"]) (auto simp: boot_frames_def)

lemma boot_run_fits:
  assumes "bootable P info s"
  shows "screen_frames (screen_bytes info) \<le> 1048576" "2 \<le> card (boot_frames s info - screen_run s info)"
    "\<forall>g \<in> boot_frames s info. Min (boot_frames s info) \<le> g"
proof -
  have b: "screen_run s info \<subseteq> boot_frames s info" "screen_frames (screen_bytes info) + 2 \<le> card (boot_frames s info)"
    using assms by (simp_all add: bootable_def)
  have "card (boot_frames s info) \<le> card {..<1048576 :: nat}"
    by (rule card_mono) (auto simp: boot_frames_def)
  then show "screen_frames (screen_bytes info) \<le> 1048576" using b(2) by simp
  have "card (screen_run s info) = screen_frames (screen_bytes info)" by (simp add: screen_run_def)
  then show "2 \<le> card (boot_frames s info - screen_run s info)"
    using b card_Diff_subset [of "screen_run s info" "boot_frames s info"] by (simp add: screen_run_def)
  show "\<forall>g \<in> boot_frames s info. Min (boot_frames s info) \<le> g" by (simp add: finite_boot_frames)
qed

lemma back_addr_bounds:
  assumes "bootable P info s"
  shows "unat (back_addr s info) = Min (boot_frames s info) * 4096 + 8" "back_addr s info \<noteq> 0"
    "unat (back_addr s info) + screen_bytes info \<le> (Min (boot_frames s info) + screen_frames (screen_bytes info)) * 4096"
    "Min (boot_frames s info) + screen_frames (screen_bytes info) \<le> 1048576"
proof -
  let ?f = "Min (boot_frames s info)" and ?n = "screen_frames (screen_bytes info)"
  have n: "0 < ?n" "screen_bytes info + 8 \<le> ?n * 4096" unfolding screen_frames_def by linarith+
  have "?f + ?n - 1 \<in> screen_run s info" "?f \<in> screen_run s info" using n(1) by (auto simp: screen_run_def)
  then have "?f + ?n - 1 \<in> boot_frames s info" "?f \<in> boot_frames s info" using assms by (auto simp: bootable_def)
  then have f: "?f + ?n \<le> 1048576" "?f < 1048576" by (auto simp: boot_frames_def)
  then show "?f + ?n \<le> 1048576" by blast
  have "unat (of_nat ?f * PAGE_SIZE :: u64) = ?f * 4096" using frame_address_div(2) [OF f(2)] .
  then show b: "unat (back_addr s info) = ?f * 4096 + 8"
    unfolding back_addr_def using f(2) by (simp add: unat_word_ariths(1))
  then show "back_addr s info \<noteq> 0" by auto
  show "unat (back_addr s info) + screen_bytes info \<le> (?f + ?n) * 4096" using n(2) b by simp
qed

lemma double_buffer_stage:
  assumes "bootable P info s" and t: "boot_stage W s (framebuffer info, bb, info_fb_width info, info_fb_height info,
      info_fb_pitch info, db, False) c t" "memory_stage (boot_frames s info) root t"
    and W: "W = frame_bytes (boot_frames s info)"
  defines "u \<equiv> fb_enable_double_buffering t"
  shows "boot_stage W s (booted_display s info) c u" "memory_stage (boot_frames s info - screen_run s info) root u"
proof -
  let ?A = "boot_frames s info" and ?f = "Min (boot_frames s info)" and ?n = "screen_frames (screen_bytes info)"
  have d: "screen_h t = info_fb_height info" "fb_pitch_val t = info_fb_pitch info" "fb t = framebuffer info"
    "screen_w t = info_fb_width info" "\<not> halted t"
    using t(1) by (simp_all add: boot_stage_def display_view_def)
  have m: "pmm_inv t" "pmm_avail t = ?A" "vmm_rep t []" "pml4 t = root" using t(2) by (simp_all add: memory_stage_def)
  have "?n = screen_frames (unat (screen_h t) * unat (fb_pitch_val t))" by (simp add: d screen_bytes_def)
  note e = enable_double_buffering [OF m(1) _ _ this boot_run_fits(1) [OF assms(1)], of ?f, unfolded m(2),
    folded u_def screen_run_def back_addr_def, OF _ boot_run_fits(3) [OF assms(1)]]
  have run: "screen_run s info \<subseteq> ?A" using assms(1) by (simp add: bootable_def)
  note e = e [OF run]
  show "boot_stage W s (booted_display s info) c u"
    using e(1,2,4,8) t(1) d by (simp add: boot_stage_def booted_display_def W)
  show "memory_stage (?A - screen_run s info) root u" using e(3,5-7) m by (simp add: memory_stage_def)
qed

lemma disj_range_pointwise:
  assumes "\<And>x. unat (x - a) < n \<Longrightarrow> \<not> unat (x - b) < n"
  shows "disj_range a n b n"
proof (cases "n = 0")
  case True
  then show ?thesis by (simp add: disj_range_def)
next
  case False
  then have "\<not> unat (b - a) < n" "\<not> unat (a - b) < n" using assms [of a] assms [of b] by auto
  then show ?thesis by (simp add: disj_range_def not_less)
qed

lemma back_area_frames:
  assumes "bootable P info s" and b: "unat b = Min (boot_frames s info) * 4096 + 8"
    and top: "unat b + screen_bytes info \<le> (Min (boot_frames s info) + screen_frames (screen_bytes info)) * 4096"
      "Min (boot_frames s info) + screen_frames (screen_bytes info) \<le> 1048576"
    and x: "unat (x - b) < screen_bytes info"
  shows "x \<in> frame_bytes (boot_frames s info)"
proof -
  have "unat (b + (x - b)) = unat b + unat (x - b)"
    using top x by (subst unat_add_lem [THEN iffD1]) simp_all
  then have ux: "unat x = unat b + unat (x - b)" by simp
  have "Min (boot_frames s info) \<le> unat x div 4096" using ux b by simp
  moreover have "unat x div 4096 < Min (boot_frames s info) + screen_frames (screen_bytes info)"
    using ux top(1) x by (simp add: less_mult_imp_div_less)
  moreover have "screen_run s info \<subseteq> boot_frames s info" using assms(1) by (simp add: bootable_def)
  ultimately show ?thesis by (auto simp: frame_bytes_def screen_run_def subset_eq)
qed

lemma booted_ready:
  assumes boot: "bootable P info s" and d: "display_view u = booted_display s info" "cpu_view u = (Some info, 16, 49)"
    and b: "unat (back_addr s info) = Min (boot_frames s info) * 4096 + 8" "back_addr s info \<noteq> 0"
      "unat (back_addr s info) + screen_bytes info \<le> (Min (boot_frames s info) + screen_frames (screen_bytes info)) * 4096"
      "Min (boot_frames s info) + screen_frames (screen_bytes info) \<le> 1048576"
  shows "kernel_ready u" "draws_into (frame_bytes (boot_frames s info)) u"
proof -
  have f: "fb u = framebuffer info" "back_buffer u = back_addr s info" "screen_w u = info_fb_width info"
    "screen_h u = info_fb_height info" "fb_pitch_val u = info_fb_pitch info" "use_double_buffer u"
    using d(1) by (simp_all add: display_view_def booted_display_def)
  have "4 * unat (info_fb_width info) \<le> unat (info_fb_pitch info)" using boot by (simp add: bootable_def)
  moreover have "unat (back_addr s info) + screen_bytes info \<le> 2 ^ 64" using b(3,4) by simp
  ultimately have ok: "fb_ok u" by (simp add: fb_ok_def f fb_target_def screen_bytes_def)
  have area: "x \<in> frame_bytes (boot_frames s info)" if "unat (x - back_addr s info) < screen_bytes info" for x
    by (rule back_area_frames [OF boot b(1,3,4) that])
  then show "draws_into (frame_bytes (boot_frames s info)) u"
    using ok by (auto simp: draws_into_def fb_area_def f fb_target_def screen_bytes_def)
  have "disj_range (framebuffer info) (screen_bytes info) (back_addr s info) (screen_bytes info)"
    using boot area by (intro disj_range_pointwise) (auto simp: bootable_def)
  then show "kernel_ready u"
    using ok d(2) b(2) by (simp add: kernel_ready_def f screen_bytes_def cpu_view_def)
qed

lemma boot_memory_stage:
  assumes "uart_responsive (env P)" "bootable P info s"
    and t: "boot_stage {} s (framebuffer info, bb, info_fb_width info, info_fb_height info, info_fb_pitch info, db, False)
      (cpu_view s) t"
  defines "W \<equiv> frame_bytes (boot_frames s info)" and "A \<equiv> boot_frames s info - screen_run s info"
  shows "succeeds (boot_memory P info t) (\<lambda>u. boot_stage W s (booted_display s info) (Some info, 16, 49) u \<and>
    memory_stage A (boot_cr3 P AND NOT 0xFFF) u)"
proof -
  let ?root = "boot_cr3 P AND NOT 0xFFF"
  have mm: "mmap info \<noteq> 0" "EFI_MEMORY_DESCRIPTOR_SIZE \<le> mmap_desc_size info" and c: "snd (cpu_view s) = (16, 49)"
    using assms(2) by (simp_all add: bootable_def cpu_view_def)
  have k: "succeeds (klog P msg v) (\<lambda>u. boot_stage W s d c u \<and> memory_stage B ?root u)"
    if "boot_stage W s d c v \<and> memory_stage B ?root v" for msg d c B v
    by (rule succeeds_mono [OF klog_stage [OF assms(1) conjunct1 [OF that]]]) (use that in blast)
  have info: "boot_stage W s (booted_display s info) (Some info, 16, 49) (sysinfo_init C (Some info) u) \<and>
      memory_stage A ?root (sysinfo_init C (Some info) u)"
    if "boot_stage W s (booted_display s info) (cpu_view s) u" "memory_stage A ?root u" for C u
  proof -
    have l: "length (cpu_vendor_str u) = 16" "length (cpu_brand_str u) = 49"
      using that(1) c by (simp_all add: boot_stage_def cpu_view_def)
    note v = sysinfo_init_views [of C "Some info" u]
    have m: "pmm_bitmap (sysinfo_init C (Some info) u) = pmm_bitmap u" "total_frames (sysinfo_init C (Some info) u) = total_frames u"
      "vma_list (sysinfo_init C (Some info) u) = vma_list u" "vma_nodes (sysinfo_init C (Some info) u) = vma_nodes u"
      "vma_count (sysinfo_init C (Some info) u) = vma_count u" "next_vaddr (sysinfo_init C (Some info) u) = next_vaddr u"
      "pml4 (sysinfo_init C (Some info) u) = pml4 u"
      using v(2) by (simp_all add: memory_view_def)
    show ?thesis using that v(1,3,4) l m
      by (simp add: boot_stage_def memory_stage_def pmm_inv_def pmm_avail_def frame_bit_def vmm_rep_def)
  qed
  have buf: "boot_stage W s (booted_display s info) (cpu_view s) (fb_enable_double_buffering u) \<and>
      memory_stage A ?root (fb_enable_double_buffering u)"
    if "boot_stage W s (framebuffer info, bb, info_fb_width info, info_fb_height info, info_fb_pitch info, db, False)
      (cpu_view s) u \<and> memory_stage (boot_frames s info) ?root u" for u
    using double_buffer_stage(1,2) [OF assms(2) conjunct1 [OF that] conjunct2 [OF that] meta_eq_to_obj_eq [OF W_def]] by (simp add: A_def)
  show ?thesis
    unfolding boot_memory_def
    by (rule succeeds_bind [OF mem_init_stage [OF mm t, where W = W]], rule succeeds_bind [OF k], assumption,
        rule succeeds_bind [OF k [OF buf]], assumption, rule k, rule info; blast)
qed

lemma boot_devices_keeps:
  assumes "uart_responsive (env P)" "draws_into W t"
  shows "succeeds (boot_devices P t) (boot_keeps W t)"
proof -
  note k = keeps_klog [OF assms(1), where s = t and W = W]
  note d = keeps_small [where s = t and W = W]
  show ?thesis
    unfolding boot_devices_def
    by (rule succeeds_bind [OF k [OF d(4) [OF boot_keeps_refl]]], rule succeeds_bind [OF d(5)], assumption,
        rule succeeds_bind [OF k], assumption, rule succeeds_bind [OF k], assumption,
        rule succeeds_bind [OF keeps_ide_init [OF assms]], assumption,
        rule succeeds_bind [OF k], assumption, rule succeeds_bind [OF k], assumption,
        rule succeeds_bind [OF keeps_pci_init [OF assms(1)]], assumption,
        rule succeeds_bind [OF k], assumption, rule succeeds_bind [OF k], assumption,
        rule succeeds_bind [OF k [OF d(1)]], assumption, rule k)
qed

lemma klog_result:
  assumes "uart_responsive (env P)"
  shows "succeeds (klog P msg t) (\<lambda>u. \<exists>h. u = t\<lparr>io_trace := h\<rparr>)"
  using klog_spec [OF assms, of msg t] by (auto simp: succeeds_def)

lemma klog_run_view:
  assumes "uart_responsive (env P)" "run_view t = v" "pmm_test_status t = k"
  shows "succeeds (klog P msg t) (\<lambda>u. run_view u = v \<and> pmm_test_status u = k)"
  by (rule succeeds_mono [OF klog_result [OF assms(1)]]) (use assms(2,3) in auto)

lemma boot_tests_pass:
  assumes "uart_responsive (env P)" "pmm_inv s" "2 \<le> card (pmm_avail s)" "vmm_rep s rs"
    and "has_page_table (ram s) (pml4 s) (next_vaddr s)" "maps_bytes (walk P) (next_vaddr s) 8"
  shows "succeeds (boot_tests P s)
    (\<lambda>t. run_view t = (display_view s, cpu_view s, True) \<and> pmm_test_status t = 1)"
proof -
  let ?v = "(display_view s, cpu_view s, True)"
  have after: "succeeds (do {
       s \<leftarrow> run_vmm_test (walk P) t;
       s \<leftarrow> klog P (asc ''[17] vmm test done'') s;
       klog P (asc ''[18] debug_panel_init done'') (debug_panel_init (pmm_test_status s) (vmm_test_status s) s)
     }) (\<lambda>t. run_view t = ?v \<and> pmm_test_status t = 1)"
    if "pmm_inv t" "pmm_avail t \<noteq> {}" "vmm_rep t rs" "ram t = ram s" "pml4 t = pml4 s" "next_vaddr t = next_vaddr s"
      "run_view t = ?v" "pmm_test_status t = 1" for t
  proof (rule succeeds_bind [OF run_vmm_test_returns [OF that(1-3)]])
    show "has_page_table (ram t) (pml4 t) (next_vaddr t)" "maps_bytes (walk P) (next_vaddr t) 8"
      using assms(5,6) that(4-6) by simp_all
    fix u
    assume u: "run_view u = run_view t \<and> pmm_test_status u = pmm_test_status t"
    have init: "run_view (debug_panel_init a b w) = run_view w" "pmm_test_status (debug_panel_init a b w) = pmm_test_status w"
      for a b and w :: kernel_state
      by (simp_all add: debug_panel_init_def run_view_def display_view_def cpu_view_def)
    show "succeeds (do {
         s \<leftarrow> klog P (asc ''[17] vmm test done'') u;
         klog P (asc ''[18] debug_panel_init done'') (debug_panel_init (pmm_test_status s) (vmm_test_status s) s)
       }) (\<lambda>t. run_view t = ?v \<and> pmm_test_status t = 1)"
      by (rule succeeds_bind [OF klog_run_view [OF assms(1), where v = ?v and k = 1]])
        (use u that(7,8) in \<open>auto simp: init intro: klog_run_view [OF assms(1)]\<close>)
  qed
  show ?thesis
    unfolding boot_tests_def
  proof (rule succeeds_bind [OF klog_result [OF assms(1)]], elim exE)
    fix w h
    assume w: "w = s\<lparr>if_flag := True, io_trace := h\<rparr>"
    have i: "pmm_inv w" "pmm_avail w = pmm_avail s" "vmm_rep w rs" "run_view w = ?v"
      "ram w = ram s" "pml4 w = pml4 s" "next_vaddr w = next_vaddr s" "total_frames w = total_frames s"
      using assms(2,4) by (simp_all add: w pmm_inv_def pmm_avail_def frame_bit_def vmm_rep_def run_view_def
          display_view_def cpu_view_def)
    have p: "pmm_test_status (run_pmm_test w) = 1" "pmm_avail (run_pmm_test w) = pmm_avail s"
      using pmm_test_passes [OF i(1)] assms(3) by (simp_all add: i(2))
    have k: "test_keeps w (run_pmm_test w)" by (rule run_pmm_test_keeps)
    have inv: "pmm_inv (run_pmm_test w)"
      using k i by (intro pmm_inv_avail [OF _ _ i(1)]) (simp_all add: p test_keeps_def)
    have ne: "pmm_avail s \<noteq> {}" using assms(3) by auto
    show "succeeds (do {
         s \<leftarrow> klog P (asc ''[16] pmm test done'') (run_pmm_test w);
         s \<leftarrow> run_vmm_test (walk P) s;
         s \<leftarrow> klog P (asc ''[17] vmm test done'') s;
         klog P (asc ''[18] debug_panel_init done'') (debug_panel_init (pmm_test_status s) (vmm_test_status s) s)
       }) (\<lambda>t. run_view t = ?v \<and> pmm_test_status t = 1)"
    proof (rule succeeds_bind [OF klog_result [OF assms(1)]], elim exE, rule after)
      fix x h
      assume x: "x = run_pmm_test w\<lparr>io_trace := h\<rparr>"
      show "pmm_inv x" "pmm_avail x \<noteq> {}" using inv ne p(2) by (simp_all add: x pmm_inv_def pmm_avail_def frame_bit_def)
      show "vmm_rep x rs" using k i(3) by (simp add: x test_keeps_def vmm_rep_def)
      show "ram x = ram s" "pml4 x = pml4 s" "next_vaddr x = next_vaddr s" "run_view x = ?v"
        using k i(4-7) by (simp_all add: x test_keeps_def)
      show "pmm_test_status x = 1" using p(1) by (simp add: x)
    qed
  qed
qed

lemma kernel_boot_returns:
  assumes "uart_responsive (env P)" "bootable P info s"
  shows "succeeds (kernel_boot P (Some info) s) (\<lambda>t. kernel_ready t \<and> pmm_test_status t = 1 \<and>
    run_view t = (booted_display s info, (Some info, 16, 49), True))"
proof -
  let ?W = "frame_bytes (boot_frames s info)" and ?A = "boot_frames s info - screen_run s info"
    and ?root = "boot_cr3 P AND NOT 0xFFF" and ?f = "Min (boot_frames s info)"
  have magic: "magic info = BOOTINFO_MAGIC" and nh: "halted s = False"
    and tab: "has_page_table (ram s) ?root (next_vaddr s)" "table_bytes (ram s) ?root (next_vaddr s) \<inter> ?W = {}"
    and mmu: "maps_bytes (walk P) (next_vaddr s) 8" and run: "screen_run s info \<subseteq> boot_frames s info"
    using assms(2) by (simp_all add: bootable_def)
  have addr: "unat (back_addr s info) = ?f * 4096 + 8" "back_addr s info \<noteq> 0"
    "unat (back_addr s info) + screen_bytes info \<le> (?f + screen_frames (screen_bytes info)) * 4096"
    "?f + screen_frames (screen_bytes info) \<le> 1048576"
    using back_addr_bounds [OF assms(2)] .
  show ?thesis
    unfolding kernel_boot_parts [OF magic]
  proof (rule succeeds_bind [OF boot_display_stage [OF assms(1)]],
      rule succeeds_bind [OF boot_memory_stage [OF assms]], simp only: nh, elim conjE)
    fix t u
    assume u: "boot_stage ?W s (booted_display s info) (Some info, 16, 49) u" "memory_stage ?A ?root u"
    have "draws_into ?W u" using booted_ready(2) [OF assms(2) _ _ addr] u(1) by (simp add: boot_stage_def)
    note dev = keeps_succeeds [OF boot_devices_keeps [OF assms(1) this] u(1)]
    show "succeeds (do { s \<leftarrow> boot_devices P u; boot_tests P s }) (\<lambda>t. kernel_ready t \<and> pmm_test_status t = 1 \<and>
        run_view t = (booted_display s info, (Some info, 16, 49), True))"
    proof (rule succeeds_bind [OF dev], elim conjE)
      fix v
      assume v: "boot_stage ?W s (booted_display s info) (Some info, 16, 49) v"
        "\<forall>A root. memory_stage A root u \<longrightarrow> memory_stage A root v"
      then have m: "pmm_inv v" "pmm_avail v = ?A" "vmm_rep v []" "pml4 v = ?root"
        using u(2) by (auto simp: memory_stage_def)
      have s: "display_view v = booted_display s info" "cpu_view v = (Some info, 16, 49)" "next_vaddr v = next_vaddr s"
        "\<forall>a. a \<notin> ?W \<longrightarrow> ram v a = ram s a"
        using v(1) by (simp_all add: boot_stage_def)
      have "has_page_table (ram v) ?root (next_vaddr s)"
        using s(4) tab(2) by (intro has_page_table_cong [OF tab(1)]) blast
      then have pt: "has_page_table (ram v) (pml4 v) (next_vaddr v)" "maps_bytes (walk P) (next_vaddr v) 8"
        using mmu by (simp_all add: m s)
      have c: "2 \<le> card (pmm_avail v)" using boot_run_fits(2) [OF assms(2)] by (simp add: m)
      show "succeeds (boot_tests P v) (\<lambda>t. kernel_ready t \<and> pmm_test_status t = 1 \<and>
          run_view t = (booted_display s info, (Some info, 16, 49), True))"
        by (rule succeeds_mono [OF boot_tests_pass [OF assms(1) m(1) c m(3) pt]])
          (use booted_ready(1) [OF assms(2) _ _ addr] in \<open>simp add: run_view_def s\<close>)
    qed
  qed
qed

subsection \<open>Properties\<close>


text \<open>A machine for the witness: one area of three free frames from 8 MiB, tables at 0x1000,
  0x2000, 0x3000 and 0x4000, a screen of one pixel.\<close>

definition boot_ram :: ram where
  "boot_ram = store64 0x1000 0x2001 (store64 0x2000 0x3001 (store64 0x3400 0x4001
     (store32 0x5000 7 (store64 0x5008 0x800000 (store64 0x5018 3 (\<lambda>_. 0))))))"

definition boot_sample_info :: boot_info where
  "boot_sample_info = \<lparr>magic = BOOTINFO_MAGIC, framebuffer = 0x80000000, info_fb_width = 1, info_fb_height = 1,
     info_fb_pitch = 4, info_fb_format = 0, mmap = 0x5000, mmap_size = 48, mmap_desc_size = 48,
     fw_vendor = [], fw_revision = 0\<rparr>"

definition boot_sample :: kernel_state where
  "boot_sample = sample_kernel\<lparr>ram := boot_ram, next_vaddr := 0x10000000\<rparr>"

lemma boot_ram_loads:
  "load64 boot_ram 0x1000 = 0x2001" "load64 boot_ram 0x2000 = 0x3001" "load64 boot_ram 0x3400 = 0x4001"
  "load32 boot_ram 0x5000 = 7" "load64 boot_ram 0x5008 = 0x800000" "load64 boot_ram 0x5018 = 3"
  unfolding boot_ram_def by (simp_all add: load_store_simps disj_range_def)

lemma boot_sample_frames: "boot_frames boot_sample boot_sample_info = {2048, 2049, 2050}"
proof -
  have "(\<exists>k < 3. P k) \<longleftrightarrow> P 0 \<or> P 1 \<or> P 2" for P :: "nat \<Rightarrow> bool"
    by (auto simp: numeral_3_eq_3 numeral_2_eq_2 less_Suc_eq)
  moreover have "unat (48 div 48 :: u64) = 1" by (simp add: unat_div)
  ultimately have "conventional_frame boot_ram boot_sample_info g \<longleftrightarrow> g = 2048 \<or> g = 2049 \<or> g = 2050" for g
    using boot_ram_loads(4-6)
    unfolding conventional_frame_def mmap_descriptor_def read_descriptor_def boot_sample_info_def by auto
  then show ?thesis by (auto simp: boot_frames_def boot_sample_def RESERVED_FRAMES_def)
qed

lemma boot_sample_idx:
  "pml4_idx 0x10000000 = 0" "pdpt_idx 0x10000000 = 0" "pd_idx 0x10000000 = 128"
  by (simp_all add: pml4_idx_def pdpt_idx_def pd_idx_def)

lemma boot_sample_tables:
  "next_table boot_ram 0x1000 0 = 0x2000" "next_table boot_ram 0x2000 0 = 0x3000" "next_table boot_ram 0x3000 128 = 0x4000"
  by (simp_all add: next_table_def entry_addr_def boot_ram_loads)

lemma boot_sample_bootable: "bootable sample_platform boot_sample_info boot_sample"
proof -
  let ?F = "frame_bytes {2048, 2049, 2050}"
  have split: "unat a = unat e + unat (a - e)" if "unat e + unat (a - e) < 2 ^ 64" for a e :: u64
  proof -
    have "unat (e + (a - e)) = unat e + unat (a - e)" using that by (subst unat_add_lem [THEN iffD1]) simp_all
    then show ?thesis by simp
  qed
  have far: "a \<notin> ?F" if "unat (a - e) < 8" "unat e \<le> 0x3400 \<or> e = 0x80000000" for a e :: u64
  proof -
    have "unat e + unat (a - e) < 2 ^ 64" using that by auto
    from split [OF this] have "unat a < 0x4000 \<or> 0x80000000 \<le> unat a" using that by auto
    then show ?thesis by (auto simp: frame_bytes_def)
  qed
  have ram: "ram boot_sample = boot_ram" "next_vaddr boot_sample = 0x10000000" by (simp_all add: boot_sample_def)
  have cpu: "length (cpu_vendor_str boot_sample) = 16" "length (cpu_brand_str boot_sample) = 49" "\<not> halted boot_sample"
    using sample_kernel_ready(1,3) by (simp_all add: boot_sample_def kernel_ready_def)
  have size: "screen_bytes boot_sample_info = 4" "screen_frames 4 = 1"
    by (simp_all add: screen_bytes_def boot_sample_info_def screen_frames_def)
  have root: "boot_cr3 sample_platform AND NOT 0xFFF = 0x1000" by (simp add: sample_platform_def)
  have run: "screen_run boot_sample boot_sample_info = {2048}"
    by (auto simp: screen_run_def boot_sample_frames size)
  have tab: "has_page_table boot_ram 0x1000 0x10000000"
    by (simp add: has_page_table_def boot_sample_idx boot_sample_tables)
  have "table_bytes boot_ram 0x1000 0x10000000 = (\<Union>e \<in> {0x1000, 0x2000, 0x3400}. {a. unat (a - e) < 8})"
    by (simp add: table_bytes_def Let_def boot_sample_idx boot_sample_tables entry_addr_def)
  then have apart: "table_bytes boot_ram 0x1000 0x10000000 \<inter> ?F = {}" using far by fastforce
  have mmu: "maps_bytes (walk sample_platform) 0x10000000 8" by (simp add: maps_bytes_def sample_platform_def)
  have fb: "a \<notin> ?F" if "unat (a - framebuffer boot_sample_info) < 4" for a
    using far [of a "0x80000000"] that by (simp add: boot_sample_info_def)
  have info: "magic boot_sample_info = BOOTINFO_MAGIC" "mmap boot_sample_info \<noteq> 0"
    "EFI_MEMORY_DESCRIPTOR_SIZE \<le> mmap_desc_size boot_sample_info"
    "4 * unat (info_fb_width boot_sample_info) \<le> unat (info_fb_pitch boot_sample_info)"
    by (simp_all add: boot_sample_info_def)
  show ?thesis
    unfolding bootable_def ram root size boot_sample_frames run using info fb tab apart mmu cpu by simp
qed


end
