(* ===== verification/Bootloader.thy ===== *)
theory Bootloader
  imports Keyboard Bootinfo Strings
begin

section \<open>\<^verbatim>\<open>bootloader.c\<close>: loading the kernel and leaving the firmware\<close>

text \<open>
  The services the bootloader calls are firmware, not code of the repository: the record
  \<open>firmware\<close> has one function per call, on a firmware state of any type. A function that has
  an out parameter takes the variable's value before the call and gives the one after it, so
  that a failing call may leave it alone; the values of uninitialised locals are the record
  \<open>boot_locals\<close>. A file read gives the bytes it delivers, which the model then stores.
  \<open>None\<close> is an access outside one of the arrays \<open>ehdr\<close> and \<open>phdrs[16]\<close> on the stack.

  \<open>BootInfo\<close> is written field by field into the block the firmware gave, at the offsets of
  the struct; \<open>read_boot_info\<close> is how the kernel, with the same struct in \<open>bootinfo.h\<close>, reads
  it.
\<close>

type_synonym efi_guid = "u32 \<times> u16 \<times> u16 \<times> u8 list"

abbreviation EFI_SUCCESS :: u64 where "EFI_SUCCESS \<equiv> 0"
abbreviation EFI_LOAD_ERROR :: u64 where "EFI_LOAD_ERROR \<equiv> 0x8000000000000001"
abbreviation EFI_FILE_MODE_READ :: u64 where "EFI_FILE_MODE_READ \<equiv> 1"
abbreviation PT_LOAD :: u32 where "PT_LOAD \<equiv> 1"

definition EFI_ERROR :: "u64 \<Rightarrow> bool" where
  "EFI_ERROR x = (x AND push_bit 63 1 \<noteq> 0)"

definition GOP_GUID :: efi_guid where
  "GOP_GUID = (0x9042a9de, 0x23dc, 0x4a38, [0x96, 0xfb, 0x7a, 0xde, 0xd0, 0x80, 0x51, 0x6a])"

definition LOADED_IMAGE_GUID :: efi_guid where
  "LOADED_IMAGE_GUID = (0x5b1b31a1, 0x9562, 0x11d2, [0x8e, 0x3f, 0x00, 0xa0, 0xc9, 0x69, 0x72, 0x3b])"

definition FILE_SYSTEM_GUID :: efi_guid where
  "FILE_SYSTEM_GUID = (0x964e5b22, 0x6459, 0x11d2, [0x8e, 0x39, 0x00, 0xa0, 0xc9, 0x69, 0x72, 0x3b])"

record gop_mode =
  FrameBufferBase :: u64
  HorizontalResolution :: u32
  VerticalResolution :: u32
  PixelFormat :: u32
  PixelsPerScanLine :: u32

record 'f firmware =
  OutputString :: "u16 list \<Rightarrow> 'f \<Rightarrow> 'f"
  LocateProtocol :: "efi_guid \<Rightarrow> u64 \<Rightarrow> 'f \<Rightarrow> u64 \<times> u64 \<times> 'f"
  HandleProtocol :: "u64 \<Rightarrow> efi_guid \<Rightarrow> u64 \<Rightarrow> 'f \<Rightarrow> u64 \<times> u64 \<times> 'f"
  DeviceHandle :: "u64 \<Rightarrow> 'f \<Rightarrow> u64"
  GopMode :: "u64 \<Rightarrow> 'f \<Rightarrow> gop_mode"
  OpenVolume :: "u64 \<Rightarrow> u64 \<Rightarrow> 'f \<Rightarrow> u64 \<times> u64 \<times> 'f"
  FileOpen :: "u64 \<Rightarrow> u64 \<Rightarrow> u16 list \<Rightarrow> u64 \<Rightarrow> 'f \<Rightarrow> u64 \<times> u64 \<times> 'f"
  FileRead :: "u64 \<Rightarrow> u64 \<Rightarrow> 'f \<Rightarrow> u64 \<times> u8 list \<times> 'f"
  SetPosition :: "u64 \<Rightarrow> u64 \<Rightarrow> 'f \<Rightarrow> u64 \<times> 'f"
  FileClose :: "u64 \<Rightarrow> 'f \<Rightarrow> u64 \<times> 'f"
  AllocatePages :: "u64 \<Rightarrow> u64 \<Rightarrow> 'f \<Rightarrow> u64 \<times> u64 \<times> 'f"
  AllocatePool :: "u64 \<Rightarrow> u64 \<Rightarrow> 'f \<Rightarrow> u64 \<times> u64 \<times> 'f"
  GetMemoryMap :: "u64 \<times> u64 \<times> u64 \<Rightarrow> u64 \<Rightarrow> 'f \<Rightarrow> u64 \<times> (u64 \<times> u64 \<times> u64) \<times> u8 list \<times> 'f"
  ExitBootServices :: "u64 \<Rightarrow> u64 \<Rightarrow> 'f \<Rightarrow> u64 \<times> 'f"

record boot_locals =
  ehdr0 :: "u8 list"
  phdrs0 :: "u8 list"
  kfile0 :: u64
  gop0 :: u64
  li0 :: u64
  fs0 :: u64
  root0 :: u64
  info0 :: u64
  map_key0 :: u64
  desc_size0 :: u64

definition wide :: "string \<Rightarrow> u16 list" where
  "wide cs = map of_char cs"

definition print_line :: "'f firmware \<Rightarrow> string \<Rightarrow> 'f \<Rightarrow> 'f" where
  "print_line F msg f = OutputString F (wide msg @ [13, 10]) f"

subsection \<open>ELF headers\<close>

record elf64_ehdr =
  e_ident :: "u8 list"
  e_type :: u16
  e_machine :: u16
  e_version :: u32
  e_entry :: u64
  e_phoff :: u64
  e_shoff :: u64
  e_flags :: u32
  e_ehsize :: u16
  e_phentsize :: u16
  e_phnum :: u16
  e_shentsize :: u16
  e_shnum :: u16
  e_shstrndx :: u16

record elf64_phdr =
  p_type :: u32
  p_flags :: u32
  p_offset :: u64
  p_vaddr :: u64
  p_paddr :: u64
  p_filesz :: u64
  p_memsz :: u64
  p_align :: u64

definition field_at :: "nat \<Rightarrow> nat \<Rightarrow> u8 list \<Rightarrow> 'w::len word" where
  "field_at off n bs = le_word (take n (drop off bs))"

definition ehdr_of :: "u8 list \<Rightarrow> elf64_ehdr" where
  "ehdr_of bs =
     \<lparr>e_ident = take 16 bs, e_type = field_at 16 2 bs, e_machine = field_at 18 2 bs,
      e_version = field_at 20 4 bs, e_entry = field_at 24 8 bs, e_phoff = field_at 32 8 bs,
      e_shoff = field_at 40 8 bs, e_flags = field_at 48 4 bs, e_ehsize = field_at 52 2 bs,
      e_phentsize = field_at 54 2 bs, e_phnum = field_at 56 2 bs, e_shentsize = field_at 58 2 bs,
      e_shnum = field_at 60 2 bs, e_shstrndx = field_at 62 2 bs\<rparr>"

definition phdr_of :: "u8 list \<Rightarrow> elf64_phdr" where
  "phdr_of bs =
     \<lparr>p_type = field_at 0 4 bs, p_flags = field_at 4 4 bs, p_offset = field_at 8 8 bs,
      p_vaddr = field_at 16 8 bs, p_paddr = field_at 24 8 bs, p_filesz = field_at 32 8 bs,
      p_memsz = field_at 40 8 bs, p_align = field_at 48 8 bs\<rparr>"

abbreviation EHDR_SIZE :: nat where "EHDR_SIZE \<equiv> 64"
abbreviation PHDR_SIZE :: nat where "PHDR_SIZE \<equiv> 56"
abbreviation MAX_PHDRS :: nat where "MAX_PHDRS \<equiv> 16"

text \<open>Bytes delivered into a local array of \<open>n\<close> bytes.\<close>

definition fill_local :: "nat \<Rightarrow> u8 list \<Rightarrow> u8 list \<Rightarrow> u8 list option" where
  "fill_local n old bs = (if length bs \<le> n then Some (bs @ drop (length bs) old) else None)"

definition phdr_at :: "u8 list \<Rightarrow> nat \<Rightarrow> elf64_phdr option" where
  "phdr_at phdrs i = (if i < MAX_PHDRS then Some (phdr_of (drop (i * PHDR_SIZE) phdrs)) else None)"

definition elf_magic :: "elf64_ehdr \<Rightarrow> bool" where
  "elf_magic h \<longleftrightarrow> e_ident h ! 0 = 0x7F \<and> e_ident h ! 1 = 69 \<and> e_ident h ! 2 = 76 \<and> e_ident h ! 3 = 70"

subsection \<open>The kernel loader\<close>

definition memset_local :: "u64 \<Rightarrow> u8 \<Rightarrow> u64 \<Rightarrow> ram \<Rightarrow> ram" where
  "memset_local dst val len m = fold (set_byte_at dst val) [0..<unat len] m"

definition scan_phdr :: "elf64_phdr \<Rightarrow> u64 \<times> u64 \<times> nat \<Rightarrow> u64 \<times> u64 \<times> nat" where
  "scan_phdr ph st =
     (let (lo, hi, n) = st
      in if p_type ph \<noteq> PT_LOAD then (lo, hi, n)
         else let lo = (if p_vaddr ph < lo then p_vaddr ph else lo);
                  end_addr = p_vaddr ph + p_memsz ph;
                  hi = (if hi < end_addr then end_addr else hi)
              in (lo, hi, n + 1))"

fun scan_phdrs :: "u8 list \<Rightarrow> nat list \<Rightarrow> u64 \<times> u64 \<times> nat \<Rightarrow> (u64 \<times> u64 \<times> nat) option" where
  "scan_phdrs phdrs [] st = Some st"
| "scan_phdrs phdrs (i # is) st = do { ph \<leftarrow> phdr_at phdrs i; scan_phdrs phdrs is (scan_phdr ph st) }"

definition load_segment ::
  "'f firmware \<Rightarrow> u64 \<Rightarrow> u64 \<Rightarrow> u64 \<Rightarrow> elf64_phdr \<Rightarrow> 'f \<times> ram \<Rightarrow> 'f \<times> ram" where
  "load_segment F kfile base min_vaddr ph s =
     (let (f, m) = s
      in if p_type ph \<noteq> PT_LOAD then (f, m)
         else let dest = base + (p_vaddr ph - min_vaddr);
                  m = memset_local dest 0 (p_memsz ph) m;
                  (st, f) = SetPosition F kfile (p_offset ph) f;
                  (st, bs, f) = FileRead F kfile (p_filesz ph) f
              in (f, store_bytes dest bs m))"

fun load_segments ::
  "'f firmware \<Rightarrow> u64 \<Rightarrow> u64 \<Rightarrow> u64 \<Rightarrow> u8 list \<Rightarrow> nat list \<Rightarrow> 'f \<times> ram \<Rightarrow> ('f \<times> ram) option" where
  "load_segments F kfile base min_vaddr phdrs [] s = Some s"
| "load_segments F kfile base min_vaddr phdrs (i # is) s = do {
     ph \<leftarrow> phdr_at phdrs i;
     load_segments F kfile base min_vaddr phdrs is (load_segment F kfile base min_vaddr ph s)
   }"

definition kernel_name :: "u16 list" where
  "kernel_name = wide ''kernel.elf''"

definition total_pages :: "u64 \<Rightarrow> u64 \<Rightarrow> u64" where
  "total_pages min_vaddr max_vaddr = (max_vaddr - min_vaddr + 0xFFF) div 0x1000"

text \<open>What follows once the program headers are read.\<close>

definition load_from ::
  "'f firmware \<Rightarrow> u64 \<Rightarrow> u8 list \<Rightarrow> elf64_ehdr \<Rightarrow> u64 \<Rightarrow> 'f \<times> ram \<Rightarrow> (u64 \<times> u64 \<times> 'f \<times> ram) option" where
  "load_from F kfile phdrs h entry_out s = do {
     let (f, m) = s;
     let f = print_line F ''LK: Phdrs read'' f;
     (min_vaddr, max_vaddr, load_count) \<leftarrow> scan_phdrs phdrs [0..<unat (e_phnum h)] (- 1, 0, 0);
     (if load_count = 0 then Some (EFI_LOAD_ERROR, entry_out, f, m)
      else do {
        let (st, base, f) = AllocatePages F (total_pages min_vaddr max_vaddr) 0 f;
        (if EFI_ERROR st then Some (st, entry_out, print_line F ''LK: AllocPages ERR'' f, m)
         else do {
           let f = print_line F ''LK: AllocPages OK'' f;
           (f, m) \<leftarrow> load_segments F kfile base min_vaddr phdrs [0..<unat (e_phnum h)] (f, m);
           let f = print_line F ''LK: Segments loaded'' f;
           let (st, f) = FileClose F kfile f;
           Some (EFI_SUCCESS, base + (e_entry h - min_vaddr), f, m)
         })
      })
   }"

definition load_kernel ::
  "'f firmware \<Rightarrow> boot_locals \<Rightarrow> u64 \<Rightarrow> u64 \<Rightarrow> 'f \<times> ram \<Rightarrow> (u64 \<times> u64 \<times> 'f \<times> ram) option" where
  "load_kernel F L root entry_out s = do {
     let (f, m) = s;
     let f = print_line F ''LK: Start'' f;
     let (st, kfile, f) = FileOpen F root (kfile0 L) kernel_name EFI_FILE_MODE_READ f;
     (if EFI_ERROR st then Some (st, entry_out, print_line F ''LK: Open ERR'' f, m)
      else do {
        let (st, bs, f) = FileRead F kfile (of_nat EHDR_SIZE) f;
        ehdr \<leftarrow> fill_local EHDR_SIZE (ehdr0 L) bs;
        let h = ehdr_of ehdr;
        let f = print_line F ''LK: ELF hdr read'' f;
        (if \<not> elf_magic h then Some (EFI_LOAD_ERROR, entry_out, f, m)
         else do {
           let phsz = (ucast (e_phnum h) :: u64) * of_nat PHDR_SIZE;
           let (st, f) = SetPosition F kfile (e_phoff h) f;
           let (st, bs, f) = FileRead F kfile phsz f;
           phdrs \<leftarrow> fill_local (MAX_PHDRS * PHDR_SIZE) (phdrs0 L) bs;
           load_from F kfile phdrs h entry_out (f, m)
         })
      })
   }"

subsection \<open>Entry point\<close>

record efi_system_table =
  FirmwareVendor :: u64
  FirmwareRevision :: u32
  BootServices_null :: bool

datatype boot_outcome = Spin | Call_Kernel u64 u64

abbreviation BOOT_INFO_SIZE :: u64 where "BOOT_INFO_SIZE \<equiv> 208"

definition copy_fw_vendor :: "u64 \<Rightarrow> u64 \<Rightarrow> ram \<Rightarrow> ram" where
  "copy_fw_vendor dest src m =
     fold (\<lambda>i m. store_bytes (dest + of_nat (2 * i)) (load_bytes 2 (src + of_nat (2 * i)) m) m) [0..<64] m"

definition fill_boot_info ::
  "u64 \<Rightarrow> gop_mode \<Rightarrow> u64 \<Rightarrow> u64 \<Rightarrow> u64 \<Rightarrow> efi_system_table \<Rightarrow> ram \<Rightarrow> ram" where
  "fill_boot_info p mode mp msize desc_size st m =
     (let m = store32 p 0xB007B007 m;
          m = store64 (p + 8) (FrameBufferBase mode) m;
          m = store64 (p + 16) (ucast (HorizontalResolution mode)) m;
          m = store64 (p + 24) (ucast (VerticalResolution mode)) m;
          m = store64 (p + 32) (ucast (PixelsPerScanLine mode * 4)) m;
          m = store32 (p + 40) (PixelFormat mode) m;
          m = store64 (p + 48) mp m;
          m = store64 (p + 56) msize m;
          m = store64 (p + 64) desc_size m;
          m = copy_fw_vendor (p + 72) (FirmwareVendor st) m
      in store32 (p + 200) (FirmwareRevision st) m)"

definition read_boot_info :: "ram \<Rightarrow> u64 \<Rightarrow> boot_info" where
  "read_boot_info m p =
     \<lparr>magic = load32 m p, framebuffer = load64 m (p + 8), info_fb_width = load64 m (p + 16),
      info_fb_height = load64 m (p + 24), info_fb_pitch = load64 m (p + 32),
      info_fb_format = load32 m (p + 40), mmap = load64 m (p + 48), mmap_size = load64 m (p + 56),
      mmap_desc_size = load64 m (p + 64),
      fw_vendor = map (\<lambda>i. le_word (load_bytes 2 (p + 72 + of_nat (2 * i)) m)) [0..<64],
      fw_revision = load32 m (p + 200)\<rparr>"

text \<open>The call that fetches the memory map into the buffer.\<close>

definition get_map ::
  "'f firmware \<Rightarrow> u64 \<Rightarrow> u64 \<times> u64 \<times> u64 \<Rightarrow> 'f \<times> ram \<Rightarrow> (u64 \<times> u64 \<times> u64) \<times> 'f \<times> ram" where
  "get_map F buf v s =
     (let (f, m) = s; (st, v, bs, f) = GetMemoryMap F v buf f in (v, f, store_bytes buf bs m))"

text \<open>After the kernel is in memory: the memory map, the hand-over block, leaving the firmware.\<close>

definition enter_kernel ::
  "'f firmware \<Rightarrow> boot_locals \<Rightarrow> u64 \<Rightarrow> efi_system_table \<Rightarrow> u64 \<Rightarrow> u64 \<Rightarrow> 'f \<times> ram \<Rightarrow> (boot_outcome \<times> 'f \<times> ram) option" where
  "enter_kernel F L handle tab gop kernel_entry s = do {
     let (f, m) = s;
     let f = print_line F ''Kernel loaded!'' f;
     let ((msize, key, dsz), f, m) = get_map F 0 (0, map_key0 L, desc_size0 L) (f, m);
     let msize = msize + 4096;
     let (st, mp, f) = AllocatePool F msize 0 f;
     let ((msize, key, dsz), f, m) = get_map F mp (msize, key, dsz) (f, m);
     let (st, info, f) = AllocatePool F BOOT_INFO_SIZE (info0 L) f;
     let m = fill_boot_info info (GopMode F gop f) mp msize dsz tab m;
     let (es, f) = ExitBootServices F handle key f;
     (if EFI_ERROR es then do {
        let ((msize, key, dsz), f, m) = get_map F mp (msize, key, dsz) (f, m);
        let (es, f) = ExitBootServices F handle key f;
        (if EFI_ERROR es then Some (Spin, print_line F ''ERROR: Failed to exit boot services.'' f, m)
         else Some (Call_Kernel kernel_entry info, f, m))
      }
      else Some (Call_Kernel kernel_entry info, f, m))
   }"

definition efi_main ::
  "'f firmware \<Rightarrow> boot_locals \<Rightarrow> u64 \<Rightarrow> efi_system_table option \<Rightarrow> 'f \<times> ram \<Rightarrow> (boot_outcome \<times> 'f \<times> ram) option" where
  "efi_main F L handle table s = (case table of
     None \<Rightarrow> Some (Spin, s)
   | Some tab \<Rightarrow> (let (f, m) = s in
       if BootServices_null tab then Some (Spin, print_line F ''ERROR: BS is NULL'' f, m)
       else do {
         let f = print_line F ''=== OS44 Bootloader ==='' f;
         let f = print_line F ''DEBUG: Before LocateProtocol'' f;
         let (st, gop, f) = LocateProtocol F GOP_GUID (gop0 L) f;
         (if EFI_ERROR st then Some (Spin, print_line F ''ERROR: No GOP'' f, m)
          else do {
            let f = print_line F ''DEBUG: After LocateProtocol'' f;
            let f = print_line F ''EM: GOP OK'' f;
            let (st, li, f) = HandleProtocol F handle LOADED_IMAGE_GUID (li0 L) f;
            let f = print_line F ''EM: LI OK'' f;
            let (st, fs, f) = HandleProtocol F (DeviceHandle F li f) FILE_SYSTEM_GUID (fs0 L) f;
            let f = print_line F ''EM: FS OK'' f;
            let (st, root, f) = OpenVolume F fs (root0 L) f;
            let f = print_line F ''EM: Root volume OK'' f;
            (st, kernel_entry, f, m) \<leftarrow> load_kernel F L root 0 (f, m);
            (if EFI_ERROR st then Some (Spin, print_line F ''ERROR: kernel load failed'' f, m)
             else do {
               enter_kernel F L handle tab gop kernel_entry (f, m)
             })
          })
       }))"

subsection \<open>The handed-over structure\<close>

lemma upt_2: "[0..<2] = [0, 1 :: nat]"
  by (simp add: numeral_2_eq_2)

lemma store_two: "store_bytes d [x, y] m a = (if unat (a - d) < 2 then [x, y] ! unat (a - d) else m a)"
proof -
  have l: "length [x, y] = 2" by simp
  have "length [x, y] \<le> 2 ^ 64" by simp
  from store_bytes_apply [OF this, of d m a] show ?thesis unfolding l .
qed

lemma copy_fw_vendor_apply:
  assumes "disj_range dest 128 src 128"
  shows "copy_fw_vendor dest src m a = (if unat (a - dest) < 128 then m (src + (a - dest)) else m a)"
proof -
  let ?step = "\<lambda>i m. store_bytes (dest + of_nat (2 * i)) (load_bytes 2 (src + of_nat (2 * i)) m) m"
  define G where "G k = fold ?step [0..<k] m" for k
  have Suc: "G (Suc k) = ?step k (G k)" for k by (simp add: G_def)
  have "G k a = (if unat (a - dest) < 2 * k then m (src + (a - dest)) else m a)" if "k \<le> 64" for k a
    using that
  proof (induction k arbitrary: a)
    case 0
    then show ?case by (simp add: G_def)
  next
    case (Suc k)
    have k: "k \<le> 63" and IH: "G k x = (if unat (x - dest) < 2 * k then m (src + (x - dest)) else m x)" for x
      using Suc by simp_all
    have src: "G k (src + of_nat j) = m (src + of_nat j)" if "j < 128" for j
      using disj_range_offset [OF assms that] k by (simp add: IH)
    have b: "load_bytes 2 (src + of_nat (2 * k)) (G k) = [m (src + of_nat (2 * k)), m (src + of_nat (2 * k + 1))]"
    proof -
      have "src + of_nat (2 * k) + of_nat 1 = src + of_nat (2 * k + 1)"
        "src + of_nat (2 * k) + of_nat 0 = src + of_nat (2 * k)" by simp_all
      then show ?thesis using src [of "2 * k"] src [of "2 * k + 1"] k
        by (simp only: load_bytes_def upt_2 list.map)
    qed
    have l: "unat (a - (dest + of_nat (2 * k))) < 2 \<longleftrightarrow> 2 * k \<le> unat (a - dest) \<and> unat (a - dest) < 2 * k + 2"
      "2 * k \<le> unat (a - dest) \<Longrightarrow> unat (a - (dest + of_nat (2 * k))) = unat (a - dest) - 2 * k"
      using unat_sub_shift [of "2 * k" 2 a dest] k by simp_all
    have e: "src + of_nat j = src + (a - dest)" if "unat (a - dest) = j" for j
      unfolding that [symmetric] by simp
    have "G (Suc k) a = store_bytes (dest + of_nat (2 * k)) [m (src + of_nat (2 * k)), m (src + of_nat (2 * k + 1))] (G k) a"
      by (simp only: \<open>\<And>k. G (Suc k) = ?step k (G k)\<close> b)
    also have "\<dots> = (if unat (a - (dest + of_nat (2 * k))) < 2
        then [m (src + of_nat (2 * k)), m (src + of_nat (2 * k + 1))] ! unat (a - (dest + of_nat (2 * k))) else G k a)"
      by (rule store_two)
    also have "\<dots> = (if unat (a - dest) < 2 * Suc k then m (src + (a - dest)) else m a)"
    proof -
      consider "unat (a - dest) < 2 * k" | "unat (a - dest) = 2 * k" | "unat (a - dest) = 2 * k + 1"
        | "2 * k + 2 \<le> unat (a - dest)" by linarith
      then show ?thesis
      proof cases
        case 2
        then show ?thesis using l e [OF 2] by simp
      next
        case 3
        then show ?thesis using l e [OF 3] by simp
      qed (use l IH in simp_all)
    qed
    finally show ?case .
  qed
  from this [of 64] show ?thesis by (simp add: copy_fw_vendor_def G_def)
qed

lemma disj_range_sub:
  assumes "disj_range a n b k" "i + l \<le> n" "0 < l"
  shows "disj_range (a + of_nat i) l b k"
proof -
  have n: "n < 2 ^ 64" using assms(1) unat_u64_bound [of "b - a"] by (simp add: disj_range_def)
  have "k \<le> unat (a + of_nat i - b)"
    using disj_range_offset [of b k a n i] assms by (simp add: disj_range_sym)
  moreover have "unat (b - (a + of_nat i)) = unat (b - a) - i"
    using assms n by (intro unat_sub_shift(2) [where n = 0]) (simp_all add: disj_range_def)
  moreover have "n \<le> unat (b - a)" using assms(1) by (simp add: disj_range_def)
  then have "l \<le> unat (b - a) - i" using assms(2) by linarith
  ultimately show ?thesis by (simp add: disj_range_def)
qed

lemma disj_range_sub2:
  assumes "disj_range a n b k" "i + l \<le> n" "0 < l" "j + r \<le> k" "0 < r"
  shows "disj_range (a + of_nat i) l (b + of_nat j) r"
  by (rule disj_range_sym [THEN iffD1],
      rule disj_range_sub [OF disj_range_sym [THEN iffD1, OF disj_range_sub [OF assms(1-3)]] assms(4,5)])

lemma load_bytes_copy:
  assumes "disj_range dest 128 src 128" "disj_range dest 128 b n"
  shows "load_bytes n b (copy_fw_vendor dest src m) = load_bytes n b m"
  using assms
  by (intro nth_equalityI)
    (simp_all add: nth_load_bytes copy_fw_vendor_apply disj_range_offset [THEN leD])

lemma load_copied:
  assumes "disj_range dest 128 src 128" "i + n \<le> 128"
  shows "load_bytes n (dest + of_nat i) (copy_fw_vendor dest src m) = load_bytes n (src + of_nat i) m"
proof (rule nth_equalityI)
  fix j
  assume "j < length (load_bytes n (dest + of_nat i) (copy_fw_vendor dest src m))"
  then have j: "j < n" by simp
  have e: "dest + of_nat i + of_nat j - dest = of_nat (i + j)"
    "src + of_nat (i + j) = src + of_nat i + of_nat j" by simp_all
  have "unat (of_nat (i + j) :: u64) = i + j" using j assms(2) by (intro unat_of_nat_u64) simp
  then show "load_bytes n (dest + of_nat i) (copy_fw_vendor dest src m) ! j = load_bytes n (src + of_nat i) m ! j"
    using j assms by (simp only: nth_load_bytes copy_fw_vendor_apply [OF assms(1)] e) simp
qed simp

lemmas field_disj = load64_store64_disj load64_store32_disj load32_store64_disj load32_store32_disj

lemma fill_boot_info_fields:
  fixes p :: u64
  assumes "disj_range p 208 (FirmwareVendor st) 128"
  shows "read_boot_info (fill_boot_info p mode mp msize dsz st m) p =
    \<lparr>magic = 0xB007B007, framebuffer = FrameBufferBase mode,
     info_fb_width = ucast (HorizontalResolution mode), info_fb_height = ucast (VerticalResolution mode),
     info_fb_pitch = ucast (PixelsPerScanLine mode * 4), info_fb_format = PixelFormat mode,
     mmap = mp, mmap_size = msize, mmap_desc_size = dsz,
     fw_vendor = map (\<lambda>i. le_word (load_bytes 2 (FirmwareVendor st + of_nat (2 * i)) m)) [0..<64],
     fw_revision = FirmwareRevision st\<rparr>"
proof -
  let ?V = "FirmwareVendor st"
  define m9 where "m9 = store64 (p + 64) dsz (store64 (p + 56) msize (store64 (p + 48) mp
    (store32 (p + 40) (PixelFormat mode) (store64 (p + 32) (ucast (PixelsPerScanLine mode * 4))
    (store64 (p + 24) (ucast (VerticalResolution mode)) (store64 (p + 16) (ucast (HorizontalResolution mode))
    (store64 (p + 8) (FrameBufferBase mode) (store32 p 0xB007B007 m))))))))"
  have fill: "fill_boot_info p mode mp msize dsz st m =
      store32 (p + 200) (FirmwareRevision st) (copy_fw_vendor (p + 72) ?V m9)"
    by (simp add: fill_boot_info_def m9_def Let_def)
  have d: "disj_range (p + of_nat i) l (?V + of_nat j) r" if "i + l \<le> 208" "0 < l" "j + r \<le> 128" "0 < r" for i l j r
    using disj_range_sub2 [OF assms that] .
  have cd: "disj_range (p + 72) 128 ?V 128" using d [of 72 128 0 128] by simp
  have vendor: "load_bytes 2 (p + 72 + of_nat (2 * i)) (fill_boot_info p mode mp msize dsz st m) =
      load_bytes 2 (?V + of_nat (2 * i)) m" if i: "i < 64" for i
  proof -
    have "disj_range (p + 200) 4 (p + 72 + of_nat (2 * i)) 2"
    proof -
      have "p + 72 + of_nat (2 * i) = p + of_nat (72 + 2 * i)" by simp
      moreover have "disj_range p 200 (p + 200) 4" by (simp add: disj_range_def)
      from disj_range_sub [OF this, of "72 + 2 * i" 2] have "disj_range (p + of_nat (72 + 2 * i)) 2 (p + 200) 4"
        using i by simp
      ultimately show ?thesis using disj_range_sym by metis
    qed
    then have "load_bytes 2 (p + 72 + of_nat (2 * i)) (fill_boot_info p mode mp msize dsz st m) =
        load_bytes 2 (?V + of_nat (2 * i)) m9"
      using i load_copied [OF cd, of "2 * i" 2 m9] by (simp add: fill store32_def load_store_disj)
    also have "\<dots> = load_bytes 2 (?V + of_nat (2 * i)) m"
      using d [of _ _ "2 * i" 2] i
      by (simp add: m9_def store32_def store64_def load_store_disj d [of 0 4 "2 * i" 2, simplified]
          d [of 8 8 "2 * i" 2, simplified] d [of 16 8 "2 * i" 2, simplified] d [of 24 8 "2 * i" 2, simplified]
          d [of 32 8 "2 * i" 2, simplified] d [of 40 4 "2 * i" 2, simplified] d [of 48 8 "2 * i" 2, simplified]
          d [of 56 8 "2 * i" 2, simplified] d [of 64 8 "2 * i" 2, simplified])
    finally show ?thesis .
  qed
  have c64: "load64 (copy_fw_vendor (p + 72) ?V m9) b = load64 m9 b" if "disj_range (p + 72) 128 b 8" for b
    by (simp add: load64_def load_bytes_copy [OF cd that])
  have c32: "load32 (copy_fw_vendor (p + 72) ?V m9) b = load32 m9 b" if "disj_range (p + 72) 128 b 4" for b
    by (simp add: load32_def load_bytes_copy [OF cd that])
  have "fw_vendor (read_boot_info (fill_boot_info p mode mp msize dsz st m) p) =
      map (\<lambda>i. le_word (load_bytes 2 (?V + of_nat (2 * i)) m)) [0..<64]"
    by (simp add: read_boot_info_def vendor del: of_nat_mult upt_rec_numeral cong: map_cong)
  moreover have "load32 m9 p = 0xB007B007" "load64 m9 (p + 8) = FrameBufferBase mode"
    "load64 m9 (p + 16) = ucast (HorizontalResolution mode)" "load64 m9 (p + 24) = ucast (VerticalResolution mode)"
    "load64 m9 (p + 32) = ucast (PixelsPerScanLine mode * 4)" "load32 m9 (p + 40) = PixelFormat mode"
    "load64 m9 (p + 48) = mp" "load64 m9 (p + 56) = msize" "load64 m9 (p + 64) = dsz"
    by (simp_all add: m9_def field_disj disj_range_def)
  ultimately show ?thesis
    by (simp add: read_boot_info_def fill field_disj c64 c32 disj_range_def del: of_nat_mult upt_rec_numeral)
qed

subsection \<open>What a kernel file holds\<close>

definition elf_header :: "u8 list \<Rightarrow> elf64_ehdr" where
  "elf_header content = ehdr_of (take EHDR_SIZE content)"

definition elf_phdr :: "u8 list \<Rightarrow> nat \<Rightarrow> elf64_phdr" where
  "elf_phdr content i =
     phdr_of (take PHDR_SIZE (drop (unat (e_phoff (elf_header content)) + i * PHDR_SIZE) content))"

definition elf_segments :: "u8 list \<Rightarrow> elf64_phdr list" where
  "elf_segments content =
     filter (\<lambda>ph. p_type ph = PT_LOAD) (map (elf_phdr content) [0..<unat (e_phnum (elf_header content))])"

definition elf_base :: "u8 list \<Rightarrow> u64" where
  "elf_base content = Min (p_vaddr ` set (elf_segments content))"

definition elf_end :: "u8 list \<Rightarrow> u64" where
  "elf_end content = Max ((\<lambda>s. p_vaddr s + p_memsz s) ` set (elf_segments content))"

definition segment_valid :: "u8 list \<Rightarrow> elf64_phdr \<Rightarrow> bool" where
  "segment_valid content s \<longleftrightarrow> p_filesz s \<le> p_memsz s \<and>
     unat (p_vaddr s) + unat (p_memsz s) < 2 ^ 64 \<and> unat (p_offset s) + unat (p_filesz s) \<le> length content"

definition segments_apart :: "elf64_phdr \<Rightarrow> elf64_phdr \<Rightarrow> bool" where
  "segments_apart s t \<longleftrightarrow> unat (p_vaddr s) + unat (p_memsz s) \<le> unat (p_vaddr t) \<or>
     unat (p_vaddr t) + unat (p_memsz t) \<le> unat (p_vaddr s)"

definition elf_headers_ok :: "u8 list \<Rightarrow> bool" where
  "elf_headers_ok content \<longleftrightarrow> EHDR_SIZE \<le> length content \<and> elf_magic (elf_header content) \<and>
     unat (e_phoff (elf_header content)) + unat (e_phnum (elf_header content)) * PHDR_SIZE \<le> length content"

definition elf_valid :: "u8 list \<Rightarrow> bool" where
  "elf_valid content \<longleftrightarrow> elf_headers_ok content \<and> unat (e_phnum (elf_header content)) \<le> MAX_PHDRS \<and>
     elf_segments content \<noteq> [] \<and> list_all (segment_valid content) (elf_segments content) \<and>
     sorted_wrt segments_apart (elf_segments content)"

text \<open>
  What the UEFI specification says of the calls the loader makes on a file with the given
  contents: reads deliver the bytes at the file position and advance it, \<open>SetPosition\<close> sets
  it, and the other calls leave it alone.
\<close>

definition boot_file :: "'f firmware \<Rightarrow> u64 \<Rightarrow> u64 \<Rightarrow> u8 list \<Rightarrow> ('f \<Rightarrow> nat) \<Rightarrow> bool" where
  "boot_file F root kfile content pos \<longleftrightarrow>
     (\<forall>msg f. pos (OutputString F msg f) = pos f) \<and>
     (\<forall>old f. \<exists>f'. FileOpen F root old kernel_name EFI_FILE_MODE_READ f = (EFI_SUCCESS, kfile, f') \<and> pos f' = 0) \<and>
     (\<forall>n f. \<exists>f'. FileRead F kfile n f = (EFI_SUCCESS, take (unat n) (drop (pos f) content), f') \<and>
        pos f' = pos f + length (take (unat n) (drop (pos f) content))) \<and>
     (\<forall>p f. \<exists>f'. SetPosition F kfile p f = (EFI_SUCCESS, f') \<and> pos f' = unat p)"

subsection \<open>Headers are read as they are in the file\<close>

lemma field_at_take: "off + n \<le> k \<Longrightarrow> field_at off n (take k bs) = field_at off n bs"
  by (simp add: field_at_def drop_take min_def)

lemma ehdr_of_take: "ehdr_of (take 64 bs) = ehdr_of bs"
  by (simp add: ehdr_of_def field_at_take)

lemma phdr_of_take: "phdr_of (take 56 bs) = phdr_of bs"
  by (simp add: phdr_of_def field_at_take)

lemma ehdr_filled: "64 \<le> length content \<Longrightarrow> ehdr_of (take 64 content @ rest) = elf_header content"
  using ehdr_of_take [of "take 64 content @ rest"] by (simp add: elf_header_def)

lemma take_drop_prefix:
  assumes "k + m \<le> n" "n \<le> length xs"
  shows "take m (drop k (take n xs @ ys)) = take m (drop k xs)"
proof -
  have "drop k (take n xs @ ys) = take (n - k) (drop k xs) @ ys" using assms by (simp add: drop_take)
  moreover have "m \<le> length (take (n - k) (drop k xs))" using assms by simp
  ultimately show ?thesis using assms by (simp add: min_def)
qed

lemma phdr_filled:
  assumes "i < n" "n \<le> 16" "unat (e_phoff (elf_header content)) + n * 56 \<le> length content"
  shows "phdr_at (take (n * 56) (drop (unat (e_phoff (elf_header content))) content) @ rest) i =
    Some (elf_phdr content i)"
proof -
  let ?o = "unat (e_phoff (elf_header content))"
  have i: "i * 56 + 56 \<le> n * 56" using assms(1) by simp
  have "take 56 (drop (i * 56) (take (n * 56) (drop ?o content) @ rest)) = take 56 (drop (?o + i * 56) content)"
    using take_drop_prefix [OF i, of "drop ?o content" rest] assms(3) by (simp add: add.commute)
  then have "phdr_of (drop (i * 56) (take (n * 56) (drop ?o content) @ rest)) = elf_phdr content i"
    using phdr_of_take [of "drop (i * 56) (take (n * 56) (drop ?o content) @ rest)"]
    by (simp add: elf_phdr_def)
  then show ?thesis using assms by (simp add: phdr_at_def)
qed

lemma scan_phdrs_fold:
  "(\<And>i. i \<in> set is \<Longrightarrow> phdr_at phdrs i = Some (ph i)) \<Longrightarrow>
   scan_phdrs phdrs is st = Some (fold scan_phdr (map ph is) st)"
  by (induction "is" arbitrary: st) auto

lemma load_segments_fold:
  "(\<And>i. i \<in> set is \<Longrightarrow> phdr_at phdrs i = Some (ph i)) \<Longrightarrow>
   load_segments F kfile base lo phdrs is s = Some (fold (load_segment F kfile base lo) (map ph is) s)"
  by (induction "is" arbitrary: s) auto

lemma scan_fold:
  "fold scan_phdr phs (lo, hi, n) =
     (let ss = filter (\<lambda>ph. p_type ph = PT_LOAD) phs
      in (fold min (map p_vaddr ss) lo, fold max (map (\<lambda>s. p_vaddr s + p_memsz s) ss) hi, n + length ss))"
  by (induction phs arbitrary: lo hi n) (auto simp: scan_phdr_def Let_def min_def max_def not_less not_le)

lemma fold_min_top:
  fixes x :: u64
  shows "fold min (x # xs) (- 1) = Min (set (x # xs))"
proof -
  have "min x (- 1) = x" by (simp add: min_def)
  then show ?thesis by (simp only: fold.simps comp_apply Min.set_eq_fold)
qed

lemma fold_max_bot:
  fixes x :: u64
  shows "fold max (x # xs) 0 = Max (set (x # xs))"
proof -
  have "max x 0 = x" by (simp add: max_def)
  then show ?thesis by (simp only: fold.simps comp_apply Max.set_eq_fold)
qed

subsection \<open>The image in memory\<close>

text \<open>Writes to regions that do not meet: each region holds what was written to it.\<close>

lemma fold_regions_outside:
  assumes "\<And>s m. s \<in> set ss \<Longrightarrow> step s m a = (if a \<in> cov s then val s a else m a)"
    and "\<And>s. s \<in> set ss \<Longrightarrow> a \<notin> cov s"
  shows "fold step ss m a = m a"
  using assms by (induction ss arbitrary: m) simp_all

lemma fold_regions_inside:
  assumes "\<And>s m. s \<in> set ss \<Longrightarrow> step s m a = (if a \<in> cov s then val s a else m a)"
    and "sorted_wrt (\<lambda>s t. a \<in> cov s \<longrightarrow> a \<notin> cov t) ss" "s \<in> set ss" "a \<in> cov s"
  shows "fold step ss m a = val s a"
  using assms(1-3)
proof (induction ss arbitrary: m)
  case (Cons t ts)
  show ?case
  proof (cases "s \<in> set ts")
    case True
    then show ?thesis using Cons by simp
  next
    case False
    then have t: "s = t" using Cons.prems(3) by simp
    have "fold step ts (step s m) a = step s m a"
      by (rule fold_regions_outside [where step = step and a = a and cov = cov and val = val])
        (use Cons.prems(1,2) assms(4) t in auto)
    then show ?thesis using Cons.prems(1) assms(4) t by simp
  qed
qed simp

definition seg_image :: "u8 list \<Rightarrow> u64 \<Rightarrow> u64 \<Rightarrow> elf64_phdr \<Rightarrow> ram \<Rightarrow> ram" where
  "seg_image content base lo s m =
     store_bytes (base + (p_vaddr s - lo)) (take (unat (p_filesz s)) (drop (unat (p_offset s)) content))
       (memset_local (base + (p_vaddr s - lo)) 0 (p_memsz s) m)"

definition seg_cov :: "u64 \<Rightarrow> u64 \<Rightarrow> elf64_phdr \<Rightarrow> u64 set" where
  "seg_cov base lo s = {a. unat (a - (base + (p_vaddr s - lo))) < unat (p_memsz s)}"

definition seg_byte :: "u8 list \<Rightarrow> u64 \<Rightarrow> u64 \<Rightarrow> elf64_phdr \<Rightarrow> u64 \<Rightarrow> u8" where
  "seg_byte content base lo s a =
     (let k = unat (a - (base + (p_vaddr s - lo)))
      in if k < unat (p_filesz s) then content ! (unat (p_offset s) + k) else 0)"

lemma memset_local_apply:
  "memset_local d v len m a = (if unat (a - d) < unat len then v else m a)"
  using set_bytes_apply [of "unat len" d v m a] unat_u64_bound [of len]
  by (simp add: memset_local_def set_bytes_def)

lemma seg_image_apply:
  assumes "segment_valid content s"
  shows "seg_image content base lo s m a = (if a \<in> seg_cov base lo s then seg_byte content base lo s a else m a)"
proof -
  let ?bs = "take (unat (p_filesz s)) (drop (unat (p_offset s)) content)"
  have "length ?bs = unat (p_filesz s)" "unat (p_filesz s) \<le> unat (p_memsz s)"
    using assms by (auto simp: segment_valid_def word_le_nat_alt min_def)
  then show ?thesis using unat_u64_bound [of "p_filesz s"] assms
    by (simp add: seg_image_def store_bytes_apply memset_local_apply seg_cov_def seg_byte_def Let_def segment_valid_def)
qed

lemma seg_cov_iff:
  assumes "segment_valid content s"
  shows "a \<in> seg_cov base lo s \<longleftrightarrow> unat (p_vaddr s) \<le> unat (a - base + lo) \<and>
    unat (a - base + lo) < unat (p_vaddr s) + unat (p_memsz s)"
proof -
  have v: "unat (p_vaddr s) + unat (p_memsz s) \<le> 2 ^ 64" using assms by (simp add: segment_valid_def)
  have "a - (base + (p_vaddr s - lo)) = (a - base + lo) - (0 + of_nat (unat (p_vaddr s)))" by simp
  then show ?thesis
    using unat_sub_shift(1) [OF v unat_u64_bound, of "a - base + lo" 0]
    by (simp only: seg_cov_def mem_Collect_eq) simp
qed

lemma seg_cov_disjoint:
  assumes "segment_valid content s" "segment_valid content t" "segments_apart s t" "a \<in> seg_cov base lo s"
  shows "a \<notin> seg_cov base lo t"
  using assms(3,4) by (auto simp: seg_cov_iff [OF assms(1)] seg_cov_iff [OF assms(2)] segments_apart_def)

lemma seg_cov_span:
  assumes "segment_valid content s" "lo \<le> p_vaddr s" "p_vaddr s + p_memsz s \<le> hi" "a \<in> seg_cov base lo s"
  shows "unat (a - base) < unat (hi - lo)"
proof -
  let ?x = "a - base + lo"
  have e: "unat (p_vaddr s + p_memsz s) = unat (p_vaddr s) + unat (p_memsz s)"
    using assms(1) by (subst unat_add_lem [THEN iffD1]) (simp_all add: segment_valid_def)
  have "lo \<le> ?x" "?x < hi"
    using assms(2-4) e by (simp_all add: seg_cov_iff [OF assms(1)] word_le_nat_alt word_less_nat_alt)
  moreover from this have "lo \<le> hi" by simp
  ultimately have "unat (?x - lo) = unat ?x - unat lo" "unat (hi - lo) = unat hi - unat lo" "unat ?x < unat hi" "unat lo \<le> unat ?x"
    using unat_sub [of lo ?x] unat_sub [of lo hi] by (auto simp: word_less_nat_alt simp flip: word_le_nat_alt)
  then have "unat (?x - lo) < unat (hi - lo)" by linarith
  then show ?thesis by simp
qed

subsection \<open>Loading a file\<close>

lemma boot_fileD:
  assumes "boot_file F root kfile content pos"
  shows "pos (print_line F msg f) = pos f"
    "\<exists>f'. FileOpen F root old kernel_name EFI_FILE_MODE_READ f = (EFI_SUCCESS, kfile, f') \<and> pos f' = 0"
    "\<exists>f'. FileRead F kfile n f = (EFI_SUCCESS, take (unat n) (drop (pos f) content), f') \<and>
        pos f' = pos f + length (take (unat n) (drop (pos f) content))"
    "\<exists>f'. SetPosition F kfile p f = (EFI_SUCCESS, f') \<and> pos f' = unat p"
  using assms by (simp_all only: boot_file_def print_line_def)

lemma EFI_ERROR_code [simp]: "\<not> EFI_ERROR EFI_SUCCESS"
  by (simp add: EFI_ERROR_def)

lemma load_segment_file:
  assumes "boot_file F root kfile content pos"
  shows "\<exists>f'. load_segment F kfile base lo s (f, m) =
    (f', if p_type s = PT_LOAD then seg_image content base lo s m else m)"
proof -
  obtain f1 where 1: "SetPosition F kfile (p_offset s) f = (EFI_SUCCESS, f1)" "pos f1 = unat (p_offset s)"
    using boot_fileD(4) [OF assms] by blast
  obtain f2 where 2: "FileRead F kfile (p_filesz s) f1 =
      (EFI_SUCCESS, take (unat (p_filesz s)) (drop (unat (p_offset s)) content), f2)"
    using boot_fileD(3) [OF assms, of "p_filesz s" f1] 1(2) by auto
  show ?thesis by (simp add: load_segment_def seg_image_def Let_def 1 2)
qed

lemma load_segments_file:
  assumes "boot_file F root kfile content pos"
  shows "\<exists>f'. fold (load_segment F kfile base lo) phs (f, m) =
    (f', fold (seg_image content base lo) (filter (\<lambda>ph. p_type ph = PT_LOAD) phs) m)"
proof (induction phs arbitrary: f m)
  case (Cons s phs)
  obtain f1 where "load_segment F kfile base lo s (f, m) =
      (f1, if p_type s = PT_LOAD then seg_image content base lo s m else m)"
    using load_segment_file [OF assms] by blast
  then show ?case using Cons.IH by simp
qed simp

lemma load_kernel_headers:
  assumes "boot_file F root kfile content pos" "64 \<le> length content"
  shows "\<exists>f1 f2. load_kernel F L root e (f, m) =
    (if \<not> elf_magic (elf_header content) then Some (EFI_LOAD_ERROR, e, f1, m)
     else do {
       phdrs \<leftarrow> fill_local (MAX_PHDRS * PHDR_SIZE) (phdrs0 L)
         (take (unat ((ucast (e_phnum (elf_header content)) :: u64) * of_nat PHDR_SIZE))
            (drop (unat (e_phoff (elf_header content))) content));
       load_from F kfile phdrs (elf_header content) e (f2, m)
     })"
proof -
  let ?h = "elf_header content"
  obtain f1 where 1: "FileOpen F root (kfile0 L) kernel_name EFI_FILE_MODE_READ (print_line F ''LK: Start'' f) =
      (EFI_SUCCESS, kfile, f1)" "pos f1 = 0"
    using boot_fileD(2) [OF assms(1)] by blast
  obtain f2 where 2: "FileRead F kfile 64 f1 = (EFI_SUCCESS, take 64 content, f2)"
    using boot_fileD(3) [OF assms(1), of 64 f1] 1(2) by auto
  have fill: "fill_local 64 (ehdr0 L) (take 64 content) = Some (take 64 content @ drop 64 (ehdr0 L))"
    using assms(2) by (simp add: fill_local_def min_def)
  let ?f3 = "print_line F ''LK: ELF hdr read'' f2"
  obtain f4 where 4: "SetPosition F kfile (e_phoff ?h) ?f3 = (EFI_SUCCESS, f4)" "pos f4 = unat (e_phoff ?h)"
    using boot_fileD(4) [OF assms(1)] by blast
  let ?n = "(ucast (e_phnum ?h) :: u64) * of_nat PHDR_SIZE"
  obtain f5 where 5: "FileRead F kfile ?n f4 =
      (EFI_SUCCESS, take (unat ?n) (drop (unat (e_phoff ?h)) content), f5)"
    using boot_fileD(3) [OF assms(1), of ?n f4] 4(2) by auto
  show ?thesis
    by (rule exI [of _ ?f3], rule exI [of _ f5])
      (simp add: load_kernel_def 1 2 fill ehdr_filled [OF assms(2)] 4 5 [simplified] Let_def)
qed

lemma unat_phsz: "unat ((ucast (n :: u16) :: u64) * of_nat PHDR_SIZE) = unat n * 56"
proof -
  have "unat n < 2 ^ 16" using unsigned_less [of n] by simp
  then show ?thesis by (subst unat_mult_lem [THEN iffD1]) (simp_all add: unsigned_ucast_eq take_bit_nat_eq_self)
qed

lemma load_from_valid:
  assumes "boot_file F root kfile content pos" "elf_valid content"
    and "\<And>f. \<exists>f'. AllocatePages F (total_pages (elf_base content) (elf_end content)) 0 f = (EFI_SUCCESS, base, f')"
  shows "\<exists>f'. load_from F kfile (take (unat (e_phnum (elf_header content)) * 56)
      (drop (unat (e_phoff (elf_header content))) content) @ rest) (elf_header content) e (f, m) =
    Some (EFI_SUCCESS, base + (e_entry (elf_header content) - elf_base content), f',
      fold (seg_image content base (elf_base content)) (elf_segments content) m)"
proof -
  let ?h = "elf_header content" and ?ss = "elf_segments content" and ?lo = "elf_base content" and ?hi = "elf_end content"
  let ?n = "unat (e_phnum ?h)"
  define phdrs where "phdrs = take (?n * 56) (drop (unat (e_phoff ?h)) content) @ rest"
  have at: "phdr_at phdrs i = Some (elf_phdr content i)" if "i \<in> set [0..<?n]" for i
    unfolding phdrs_def using that assms(2) by (intro phdr_filled) (auto simp: elf_valid_def elf_headers_ok_def)
  have ss: "filter (\<lambda>ph. p_type ph = PT_LOAD) (map (elf_phdr content) [0..<?n]) = ?ss"
    by (simp add: elf_segments_def)
  obtain s ss' where ne: "?ss = s # ss'" using assms(2) by (cases ?ss) (auto simp: elf_valid_def)
  have "fold min (map p_vaddr ?ss) (- 1) = ?lo" "fold max (map (\<lambda>s. p_vaddr s + p_memsz s) ?ss) 0 = ?hi"
    using fold_min_top [of "p_vaddr s" "map p_vaddr ss'"]
      fold_max_bot [of "p_vaddr s + p_memsz s" "map (\<lambda>s. p_vaddr s + p_memsz s) ss'"]
    by (simp_all add: ne elf_base_def elf_end_def del: fold.simps)
  then have scan: "scan_phdrs phdrs [0..<?n] (- 1, 0, 0) = Some (?lo, ?hi, length ?ss)"
    by (simp only: scan_phdrs_fold [of "[0..<?n]" phdrs "elf_phdr content", OF at] scan_fold ss Let_def add_0)
  obtain f1 where 1: "AllocatePages F (total_pages ?lo ?hi) 0 (print_line F ''LK: Phdrs read'' f) = (EFI_SUCCESS, base, f1)"
    using assms(3) by blast
  let ?s = "(print_line F ''LK: AllocPages OK'' f1, m)"
  obtain f2 where "fold (load_segment F kfile base ?lo) (map (elf_phdr content) [0..<?n]) ?s =
      (f2, fold (seg_image content base ?lo) ?ss m)"
    using load_segments_file [OF assms(1), of base ?lo "map (elf_phdr content) [0..<?n]" "print_line F ''LK: AllocPages OK'' f1" m]
    unfolding ss by blast
  then have 2: "load_segments F kfile base ?lo phdrs [0..<?n] ?s = Some (f2, fold (seg_image content base ?lo) ?ss m)"
    using load_segments_fold [of "[0..<?n]" phdrs "elf_phdr content" F kfile base ?lo ?s, OF at] by simp
  have "length ?ss \<noteq> 0" using ne by simp
  then have "load_from F kfile phdrs ?h e (f, m) =
      (let (st, f') = FileClose F kfile (print_line F ''LK: Segments loaded'' f2)
       in Some (EFI_SUCCESS, base + (e_entry ?h - ?lo), f', fold (seg_image content base ?lo) ?ss m))"
    by (simp add: load_from_def scan 1 2 Let_def)
  then show ?thesis unfolding phdrs_def by (auto simp: split_beta)
qed

lemma load_kernel_valid:
  assumes "boot_file F root kfile content pos" "elf_valid content"
    and "\<forall>f. \<exists>f'. AllocatePages F (total_pages (elf_base content) (elf_end content)) 0 f = (EFI_SUCCESS, base, f')"
  shows "\<exists>f'. load_kernel F L root e (f, m) =
    Some (EFI_SUCCESS, base + (e_entry (elf_header content) - elf_base content), f',
      fold (seg_image content base (elf_base content)) (elf_segments content) m)"
proof -
  let ?h = "elf_header content"
  have hdr: "64 \<le> length content" "elf_magic ?h" "unat (e_phnum ?h) * 56 \<le> 896"
    using assms(2) by (simp_all add: elf_valid_def elf_headers_ok_def)
  let ?bs = "take (unat (e_phnum ?h) * 56) (drop (unat (e_phoff ?h)) content)"
  have "fill_local (MAX_PHDRS * PHDR_SIZE) (phdrs0 L) ?bs = Some (?bs @ drop (length ?bs) (phdrs0 L))"
      using hdr(3) by (simp add: fill_local_def)
    moreover obtain f2 where "load_kernel F L root e (f, m) =
        Option.bind (fill_local (MAX_PHDRS * PHDR_SIZE) (phdrs0 L) ?bs) (\<lambda>phdrs. load_from F kfile phdrs ?h e (f2, m))"
      using load_kernel_headers [OF assms(1) hdr(1), of L e f m] hdr(2) unfolding unat_phsz by auto
    ultimately show ?thesis
      using load_from_valid [OF assms(1,2) assms(3) [rule_format], of "drop (length ?bs) (phdrs0 L)" e f2 m] by auto
qed

text \<open>C4: a well-formed kernel file is loaded: the loader returns success and the entry point
  moved by the load address; every byte of every loadable segment is at its place, taken from
  the file as far as the file has it and zero beyond; no byte outside the span of the
  segments is written.\<close>

theorem load_kernel_image:
  assumes "boot_file F root kfile content pos" "elf_valid content"
    and "\<forall>f. \<exists>f'. AllocatePages F (total_pages (elf_base content) (elf_end content)) 0 f = (EFI_SUCCESS, base, f')"
  shows "\<exists>f' m'. load_kernel F L root e (f, m) =
      Some (EFI_SUCCESS, base + (e_entry (elf_header content) - elf_base content), f', m') \<and>
    (\<forall>s \<in> set (elf_segments content). \<forall>k < unat (p_memsz s).
      m' (base + (p_vaddr s - elf_base content) + of_nat k) =
        (if k < unat (p_filesz s) then content ! (unat (p_offset s) + k) else 0)) \<and>
    (\<forall>a. unat (elf_end content - elf_base content) \<le> unat (a - base) \<longrightarrow> m' a = m a)"
proof -
  let ?h = "elf_header content" and ?ss = "elf_segments content" and ?lo = "elf_base content" and ?hi = "elf_end content"
  let ?m' = "fold (seg_image content base ?lo) ?ss m"
  obtain f1 where run: "load_kernel F L root e (f, m) = Some (EFI_SUCCESS, base + (e_entry ?h - ?lo), f1, ?m')"
    using load_kernel_valid [OF assms] by blast
  have valid: "segment_valid content s" if "s \<in> set ?ss" for s
    using assms(2) that by (simp add: elf_valid_def list_all_iff)
  have step: "seg_image content base ?lo s m a = (if a \<in> seg_cov base ?lo s then seg_byte content base ?lo s a else m a)"
    if "s \<in> set ?ss" for s m a using seg_image_apply [OF valid [OF that]] .
  have "sorted_wrt (\<lambda>s t. a \<in> seg_cov base ?lo s \<longrightarrow> a \<notin> seg_cov base ?lo t) ?ss" for a
  proof (rule sorted_wrt_mono_rel)
    show "sorted_wrt segments_apart ?ss" using assms(2) by (simp add: elf_valid_def)
  qed (use valid seg_cov_disjoint in blast)
  then have inside: "?m' a = seg_byte content base ?lo s a" if "s \<in> set ?ss" "a \<in> seg_cov base ?lo s" for s a
    using fold_regions_inside [where step = "seg_image content base ?lo" and cov = "seg_cov base ?lo" and
        val = "seg_byte content base ?lo", OF step _ that] by blast
  have outside: "?m' a = m a" if "unat (?hi - ?lo) \<le> unat (a - base)" for a
  proof (rule fold_regions_outside [where step = "seg_image content base ?lo" and ss = ?ss and a = a and
        cov = "seg_cov base ?lo" and val = "seg_byte content base ?lo", OF step])
    fix s
    assume s: "s \<in> set ?ss"
    then have "?lo \<le> p_vaddr s" "p_vaddr s + p_memsz s \<le> ?hi" by (simp_all add: elf_base_def elf_end_def)
    then show "a \<notin> seg_cov base ?lo s" using seg_cov_span [OF valid [OF s]] that by (meson not_le)
  qed
  have "?m' (base + (p_vaddr s - ?lo) + of_nat k) = (if k < unat (p_filesz s) then content ! (unat (p_offset s) + k) else 0)"
    if s: "s \<in> set ?ss" and k: "k < unat (p_memsz s)" for s k
  proof -
    let ?a = "base + (p_vaddr s - ?lo) + of_nat k"
    have "k < 2 ^ 64" using k unat_u64_bound [of "p_memsz s"] by simp
    then have u: "unat (?a - (base + (p_vaddr s - ?lo))) = k" by (rule unat_sub_self_add)
    then have "?a \<in> seg_cov base ?lo s" using k by (simp only: seg_cov_def mem_Collect_eq)
    then show ?thesis by (simp only: inside [OF s] seg_byte_def u Let_def)
  qed
  then show ?thesis using run outside by blast
qed


subsection \<open>A small kernel file and firmware, for the witnesses\<close>

definition sample_phdr :: "u64 \<Rightarrow> u64 \<Rightarrow> u64 \<Rightarrow> u64 \<Rightarrow> u8 list" where
  "sample_phdr off va fsz msz = le_bytes 4 (1 :: u32) @ le_bytes 4 (7 :: u32) @ le_bytes 8 off @ le_bytes 8 va @
     le_bytes 8 va @ le_bytes 8 fsz @ le_bytes 8 msz @ le_bytes 8 (0x1000 :: u64)"

definition sample_elf :: "u16 \<Rightarrow> u8 list \<Rightarrow> u8 list" where
  "sample_elf n phdrs = [0x7F, 69, 76, 70] @ replicate 12 0 @ replicate 8 0 @ le_bytes 8 (0x200010 :: u64) @
     le_bytes 8 (64 :: u64) @ replicate 16 0 @ le_bytes 2 n @ replicate 6 0 @ phdrs @ [0xEB, 0xFE, 0x90]"

definition sample_kernel_file :: "u8 list" where
  "sample_kernel_file = sample_elf 2 (sample_phdr 176 0x200000 2 4 @ sample_phdr 178 0x201000 1 16)"

text \<open>The firmware state is the file position; reads obey the specification.\<close>

definition sample_firmware :: "u8 list \<Rightarrow> nat firmware" where
  "sample_firmware content =
     \<lparr>OutputString = \<lambda>msg f. f, LocateProtocol = \<lambda>g p f. (0, 0x100, f), HandleProtocol = \<lambda>h g p f. (0, 0x200, f),
      DeviceHandle = \<lambda>p f. 0x300,
      GopMode = \<lambda>p f. \<lparr>FrameBufferBase = 0x80000000, HorizontalResolution = 1024, VerticalResolution = 768,
        PixelFormat = 1, PixelsPerScanLine = 1024\<rparr>,
      OpenVolume = \<lambda>p q f. (0, 0x400, f), FileOpen = \<lambda>r k n md f. (0, 0x500, 0),
      FileRead = \<lambda>k n f. (0, take (unat n) (drop f content), f + length (take (unat n) (drop f content))),
      SetPosition = \<lambda>k p f. (0, unat p), FileClose = \<lambda>k f. (0, f),
      AllocatePages = \<lambda>n b f. (0, 0x400000, f), AllocatePool = \<lambda>n b f. (0, 0x600000, f),
      GetMemoryMap = \<lambda>v b f. (0, (48, 1, 48), [], f), ExitBootServices = \<lambda>h k f. (0, f)\<rparr>"

definition sample_locals :: boot_locals where
  "sample_locals = \<lparr>ehdr0 = [], phdrs0 = [], kfile0 = 0, gop0 = 0, li0 = 0, fs0 = 0, root0 = 0, info0 = 0,
     map_key0 = 0, desc_size0 = 0\<rparr>"

lemma sample_boot_file: "boot_file (sample_firmware content) root 0x500 content id"
  by (simp add: boot_file_def sample_firmware_def)

lemma sample_file_facts:
  "elf_header sample_kernel_file = \<lparr>e_ident = [0x7F, 69, 76, 70] @ replicate 12 0, e_type = 0, e_machine = 0,
     e_version = 0, e_entry = 0x200010, e_phoff = 64, e_shoff = 0, e_flags = 0, e_ehsize = 0, e_phentsize = 0,
     e_phnum = 2, e_shentsize = 0, e_shnum = 0, e_shstrndx = 0\<rparr>"
  by code_simp

lemma sample_segments:
  "elf_segments sample_kernel_file =
    [\<lparr>p_type = 1, p_flags = 7, p_offset = 176, p_vaddr = 0x200000, p_paddr = 0x200000, p_filesz = 2, p_memsz = 4, p_align = 0x1000\<rparr>,
     \<lparr>p_type = 1, p_flags = 7, p_offset = 178, p_vaddr = 0x201000, p_paddr = 0x201000, p_filesz = 1, p_memsz = 16, p_align = 0x1000\<rparr>]"
  by code_simp

lemma sample_length: "length sample_kernel_file = 179"
  by code_simp

lemma sample_valid: "elf_valid sample_kernel_file"
  by (simp add: elf_valid_def elf_headers_ok_def sample_file_facts sample_segments sample_length elf_magic_def
      segment_valid_def segments_apart_def word_le_nat_alt)

lemma sample_bounds: "elf_base sample_kernel_file = 0x200000" "elf_end sample_kernel_file = 0x201010"
  by (simp_all add: elf_base_def elf_end_def sample_segments min_def max_def)

lemma sample_bytes: "sample_kernel_file ! 178 = 0x90" "sample_kernel_file ! 177 = 0xFE"
  by code_simp+

theorem load_kernel_image_witness:
  "\<exists>f m. load_kernel (sample_firmware sample_kernel_file) sample_locals 0x400 0 (0, \<lambda>_. 0xAA) =
      Some (0, 0x400010, f, m) \<and>
    m 0x400001 = 0xFE \<and> m 0x400003 = 0 \<and> m 0x401000 = 0x90 \<and> m 0x40100F = 0 \<and> m 0x402000 = 0xAA"
proof -
  have "\<forall>f. \<exists>f'. AllocatePages (sample_firmware sample_kernel_file)
      (total_pages (elf_base sample_kernel_file) (elf_end sample_kernel_file)) 0 f = (EFI_SUCCESS, 0x400000, f')"
    by (simp add: sample_firmware_def)
  from load_kernel_image [where L = sample_locals and root = "0x400" and e = 0 and f = 0 and m = "\<lambda>_. 0xAA", OF sample_boot_file sample_valid this]
  obtain f m where r: "load_kernel (sample_firmware sample_kernel_file) sample_locals 0x400 0 (0, \<lambda>_. 0xAA) =
      Some (0, 0x400000 + (0x200010 - 0x200000), f, m)"
    and s: "\<forall>s \<in> set (elf_segments sample_kernel_file). \<forall>k < unat (p_memsz s).
      m (0x400000 + (p_vaddr s - 0x200000) + of_nat k) =
        (if k < unat (p_filesz s) then sample_kernel_file ! (unat (p_offset s) + k) else 0)"
    and o: "\<forall>a. unat (0x201010 - 0x200000 :: u64) \<le> unat (a - 0x400000) \<longrightarrow> m a = 0xAA"
    by (auto simp: sample_bounds sample_file_facts)
  have t: "m (0x400000 + of_nat k) = (if k < 2 then sample_kernel_file ! (176 + k) else 0)" if "k < 4" for k
    using s that by (simp add: sample_segments)
  have d: "m (0x401000 + of_nat k) = (if k < 1 then sample_kernel_file ! (178 + k) else 0)" if "k < 16" for k
    using s that by (simp add: sample_segments)
  show ?thesis using r t [of 1] t [of 3] d [of 0] d [of 15] o [rule_format, of "0x402000"] by (simp add: sample_bytes)
qed

definition bad_file :: "u8 list" where "bad_file = replicate 64 0"

lemma bad_file_facts: "\<not> elf_magic (elf_header bad_file)" "length bad_file = 64"
  by code_simp+

definition long_file :: "u8 list" where
  "long_file = sample_elf 17 (replicate 952 0)"

lemma long_file_facts: "elf_headers_ok long_file" "64 \<le> length long_file" "16 < unat (e_phnum (elf_header long_file))"
  by code_simp+


subsection \<open>The hand-over\<close>

definition exits_at_once :: "'f firmware \<Rightarrow> u64 \<Rightarrow> bool" where
  "exits_at_once F handle \<longleftrightarrow> (\<forall>key f. \<not> EFI_ERROR (fst (ExitBootServices F handle key f)))"

lemma enter_kernel_call:
  assumes "enter_kernel F L handle tab gop entry s = Some (Call_Kernel entry' info, f1, m1)" "exits_at_once F handle"
  shows "entry' = entry \<and> (\<exists>f mp msize dsz m. m1 = fill_boot_info info (GopMode F gop f) mp msize dsz tab m)"
proof -
  obtain f m where s: "s = (f, m)" by (cases s)
  obtain msize key dsz f2 m2 where 2: "get_map F 0 (0, map_key0 L, desc_size0 L) (print_line F ''Kernel loaded!'' f, m) =
      ((msize, key, dsz), f2, m2)" by (metis prod.collapse)
  obtain st mp f3 where 3: "AllocatePool F (msize + 4096) 0 f2 = (st, mp, f3)" by (metis prod.collapse)
  obtain msize' key' dsz' f4 m4 where 4: "get_map F mp (msize + 4096, key, dsz) (f3, m2) = ((msize', key', dsz'), f4, m4)"
    by (metis prod.collapse)
  obtain st' info' f5 where 5: "AllocatePool F BOOT_INFO_SIZE (info0 L) f4 = (st', info', f5)" by (metis prod.collapse)
  obtain es f6 where 6: "ExitBootServices F handle key' f5 = (es, f6)" by (metis prod.collapse)
  have "\<not> EFI_ERROR es" using assms(2) 6 by (metis exits_at_once_def fst_conv)
  then have "enter_kernel F L handle tab gop entry s =
      Some (Call_Kernel entry info', f6, fill_boot_info info' (GopMode F gop f5) mp msize' dsz' tab m4)"
    by (simp add: enter_kernel_def s 2 3 4 5 6)
  then have "entry' = entry" "m1 = fill_boot_info info (GopMode F gop f5) mp msize' dsz' tab m4"
    using assms(1) by simp_all
  then show ?thesis by blast
qed

lemma efi_main_call:
  assumes "efi_main F L handle (Some tab) (f0, m0) = Some (Call_Kernel entry info, f1, m1)"
  shows "\<exists>gop root f2 st e s. enter_kernel F L handle tab gop e s = Some (Call_Kernel entry info, f1, m1) \<and>
    load_kernel F L root 0 (f2, m0) = Some (st, e, s) \<and> \<not> EFI_ERROR st"
proof -
  have b: "\<not> BootServices_null tab" using assms by (auto simp: efi_main_def)
  let ?f = "print_line F ''DEBUG: Before LocateProtocol'' (print_line F ''=== OS44 Bootloader ==='' f0)"
  obtain st gop f2 where 2: "LocateProtocol F GOP_GUID (gop0 L) ?f = (st, gop, f2)" by (metis prod.collapse)
  have st: "\<not> EFI_ERROR st" using assms by (auto simp: efi_main_def b 2)
  obtain st3 li f3 where 3: "HandleProtocol F handle LOADED_IMAGE_GUID (li0 L)
      (print_line F ''EM: GOP OK'' (print_line F ''DEBUG: After LocateProtocol'' f2)) = (st3, li, f3)" by (metis prod.collapse)
  let ?f3 = "print_line F ''EM: LI OK'' f3"
  obtain st4 fs f4 where 4: "HandleProtocol F (DeviceHandle F li ?f3) FILE_SYSTEM_GUID (fs0 L) ?f3 = (st4, fs, f4)"
    by (metis prod.collapse)
  obtain st5 root f5 where 5: "OpenVolume F fs (root0 L) (print_line F ''EM: FS OK'' f4) = (st5, root, f5)"
    by (metis prod.collapse)
  let ?f5 = "print_line F ''EM: Root volume OK'' f5"
  have eq: "efi_main F L handle (Some tab) (f0, m0) = do {
      (st, kernel_entry, f, m) \<leftarrow> load_kernel F L root 0 (?f5, m0);
      (if EFI_ERROR st then Some (Spin, print_line F ''ERROR: kernel load failed'' f, m)
       else enter_kernel F L handle tab gop kernel_entry (f, m)) }"
    using st by (simp add: efi_main_def b 2 3 4 5)
  obtain st6 e f6 m6 where 6: "load_kernel F L root 0 (?f5, m0) = Some (st6, e, f6, m6)"
    using assms unfolding eq by (auto simp: bind_eq_Some_conv)
  then have "\<not> EFI_ERROR st6" "enter_kernel F L handle tab gop e (f6, m6) = Some (Call_Kernel entry info, f1, m1)"
    using assms unfolding eq by (auto split: if_splits)
  then show ?thesis using 6 by blast
qed

lemma handoff_fields:
  assumes "efi_main F L handle (Some tab) (f0, m0) = Some (Call_Kernel entry info, f1, m1)"
    and "exits_at_once F handle" "\<forall>g f. GopMode F g f = mode" "disj_range info 208 (FirmwareVendor tab) 128"
  shows "magic (read_boot_info m1 info) = BOOTINFO_MAGIC \<and> framebuffer (read_boot_info m1 info) = FrameBufferBase mode \<and>
    info_fb_width (read_boot_info m1 info) = ucast (HorizontalResolution mode) \<and>
    info_fb_height (read_boot_info m1 info) = ucast (VerticalResolution mode) \<and>
    info_fb_pitch (read_boot_info m1 info) = ucast (PixelsPerScanLine mode * 4) \<and>
    info_fb_format (read_boot_info m1 info) = PixelFormat mode \<and>
    fw_revision (read_boot_info m1 info) = FirmwareRevision tab"
proof -
  obtain gop e s where "enter_kernel F L handle tab gop e s = Some (Call_Kernel entry info, f1, m1)"
    using efi_main_call [OF assms(1)] by blast
  from enter_kernel_call [OF this assms(2)] obtain f mp msize dsz m where
    "m1 = fill_boot_info info (GopMode F gop f) mp msize dsz tab m" by blast
  then have "m1 = fill_boot_info info mode mp msize dsz tab m" using assms(3) by simp
  then show ?thesis by (simp add: fill_boot_info_fields [OF assms(4)])
qed

text \<open>whenever the bootloader calls the kernel with the firmware left at the first try, the
  block it passes reads, through the kernel's own declaration of the structure, as the magic
  number, the display mode (the pitch modulo \<open>2 ^ 32\<close>) and the firmware revision.\<close>

theorem efi_main_handoff:
  assumes "efi_main F L handle (Some tab) (f0, m0) = Some (Call_Kernel entry info, f1, m1)"
    and "exits_at_once F handle" "\<forall>g f. GopMode F g f = mode" "disj_range info 208 (FirmwareVendor tab) 128"
  shows "magic (read_boot_info m1 info) = BOOTINFO_MAGIC \<and> framebuffer (read_boot_info m1 info) = FrameBufferBase mode \<and>
    info_fb_width (read_boot_info m1 info) = ucast (HorizontalResolution mode) \<and>
    info_fb_height (read_boot_info m1 info) = ucast (VerticalResolution mode) \<and>
    info_fb_pitch (read_boot_info m1 info) = ucast (PixelsPerScanLine mode * 4) \<and>
    info_fb_format (read_boot_info m1 info) = PixelFormat mode \<and>
    fw_revision (read_boot_info m1 info) = FirmwareRevision tab"
  by (rule handoff_fields [OF assms])

definition sample_system_table :: efi_system_table where
  "sample_system_table = \<lparr>FirmwareVendor = 0x700000, FirmwareRevision = 0x20000, BootServices_null = False\<rparr>"

lemma sample_firmware_calls:
  "print_line (sample_firmware c) msg f = f" "LocateProtocol (sample_firmware c) g p f = (0, 0x100, f)"
  "HandleProtocol (sample_firmware c) h g p f = (0, 0x200, f)" "OpenVolume (sample_firmware c) p q f = (0, 0x400, f)"
  "AllocatePages (sample_firmware c) n b f = (0, 0x400000, f)" "AllocatePool (sample_firmware c) n b f = (0, 0x600000, f)"
  "get_map (sample_firmware c) b v (f, m) = ((48, 1, 48), f, m)" "ExitBootServices (sample_firmware c) h k f = (0, f)"
  "GopMode (sample_firmware c) p f = \<lparr>FrameBufferBase = 0x80000000, HorizontalResolution = 1024,
     VerticalResolution = 768, PixelFormat = 1, PixelsPerScanLine = 1024\<rparr>"
  by (simp_all add: sample_firmware_def print_line_def get_map_def)

lemma sample_efi_main:
  "\<exists>f m. efi_main (sample_firmware sample_kernel_file) sample_locals 1 (Some sample_system_table) (0, \<lambda>_. 0) =
    Some (Call_Kernel 0x400010 0x600000, f, m)"
proof -
  have "\<forall>f. \<exists>f'. AllocatePages (sample_firmware sample_kernel_file)
      (total_pages (elf_base sample_kernel_file) (elf_end sample_kernel_file)) 0 f = (EFI_SUCCESS, 0x400000, f')"
    by (simp add: sample_firmware_calls)
  from load_kernel_valid [where root = "0x400" and L = sample_locals and e = 0 and f = 0 and m = "\<lambda>_. 0",
      OF sample_boot_file sample_valid this]
  obtain f m where "load_kernel (sample_firmware sample_kernel_file) sample_locals 0x400 0 (0, \<lambda>_. 0) =
      Some (0, 0x400010, f, m)" by (auto simp: sample_bounds sample_file_facts)
  then show ?thesis by (simp add: efi_main_def enter_kernel_def sample_firmware_calls sample_system_table_def)
qed

theorem efi_main_handoff_witness:
  "\<exists>f m. efi_main (sample_firmware sample_kernel_file) sample_locals 1 (Some sample_system_table) (0, \<lambda>_. 0) =
      Some (Call_Kernel 0x400010 0x600000, f, m) \<and> info_fb_width (read_boot_info m 0x600000) = 1024 \<and>
    info_fb_pitch (read_boot_info m 0x600000) = 4096"
proof -
  obtain f m where r: "efi_main (sample_firmware sample_kernel_file) sample_locals 1 (Some sample_system_table) (0, \<lambda>_. 0) =
      Some (Call_Kernel 0x400010 0x600000, f, m)" using sample_efi_main by blast
  have "exits_at_once (sample_firmware sample_kernel_file) 1" "disj_range 0x600000 208 (FirmwareVendor sample_system_table) 128"
    by (simp_all add: exits_at_once_def sample_firmware_calls sample_system_table_def disj_range_def)
  then show ?thesis using efi_main_handoff [OF r] r by (simp add: sample_firmware_calls)
qed

end
