(* ===== verification/Startup_Panel.thy ===== *)
theory Startup_Panel
  imports Debug_Panel
begin

section \<open>\<^verbatim>\<open>startup_panel.c\<close>: the start-up screen\<close>

text \<open>
  The screen of the earlier kernel, still part of the build. It draws text and an animated bar
  and keeps one static, the frame count modulo 1000. \<open>cpu_str\<close>, into which \<open>sysinfo\<close> writes
  the processor's name, is on the stack, in memory, at the address \<open>cpu_str\<close>; the other
  buffers are \<open>line\<close>s. Every loop counter is a \<open>uint64_t\<close>, so widths below the margins wrap.
\<close>

record startup_state = sys_state +
  frame_count :: u64

definition append_uint :: "u64 \<Rightarrow> u64 \<Rightarrow> line \<Rightarrow> line" where
  "append_uint cap value l =
     (let tmp = (if value = 0 then [48] else dec_tmp 24 value) in append_str cap (rev tmp) l)"

text \<open>\<open>char buf[n] = "..."\<close> with \<open>pos\<close> after the text.\<close>

definition init_line :: "nat \<Rightarrow> u8 list \<Rightarrow> line" where
  "init_line n xs = (xs @ replicate (n - length xs) 0, of_nat (length xs))"

definition startup_title :: "'a startup_state_scheme \<Rightarrow> 'a startup_state_scheme" where
  "startup_title s =
     (let s = s\<lparr>frame_count := (frame_count s + 1) mod 1000\<rparr>;
          s = fb_clear FB_COLOR_BLACK s;
          s = fb_draw_color_bar 0 48 s;
          s = fb_draw_string (asc ''OS44'') 32 64 FB_COLOR_WHITE FB_COLOR_BLACK s;
          l = append_uint 32 (frame_count s) (init_line 32 (asc ''Frame: ''))
      in fb_draw_string (text_of l) (fb_width s - 150) 64 FB_COLOR_WHITE FB_COLOR_BLACK s)"

definition startup_memory :: "'a startup_state_scheme \<Rightarrow> 'a startup_state_scheme" where
  "startup_memory s =
     (let s = fb_draw_string (asc ''Total RAM: '') 32 88 FB_COLOR_WHITE FB_COLOR_BLACK s;
          l = append_uint 32 (mem_total_bytes s div 1024 div 1024) (new_line 32);
          l = put_char 66 (put_char 77 (put_char 32 l));
          s = fb_draw_string (text_of l) (32 + 11 * 8) 88 FB_COLOR_WHITE FB_COLOR_BLACK s;
          s = fb_draw_string (asc ''Free Pages: '') 32 104 FB_COLOR_WHITE FB_COLOR_BLACK s;
          l = append_uint 32 (pmm_get_free_frames s) (new_line 32)
      in fb_draw_string (text_of l) (32 + 12 * 8) 104 FB_COLOR_WHITE FB_COLOR_BLACK s)"

definition test_color :: "u32 \<Rightarrow> u32" where
  "test_color st = (if st = 1 then FB_COLOR_GREEN else if st = 2 then FB_COLOR_RED else FB_COLOR_WHITE)"

definition startup_tests :: "u32 \<Rightarrow> u32 \<Rightarrow> 'a startup_state_scheme \<Rightarrow> 'a startup_state_scheme" where
  "startup_tests pmm vmm s =
     (let s = fb_draw_string (asc ''PMM Test: '') 32 120 FB_COLOR_WHITE FB_COLOR_BLACK s;
          s = fb_draw_string (test_text pmm) (32 + 10 * 8) 120 (test_color pmm) FB_COLOR_BLACK s;
          s = fb_draw_string (asc ''VMM Test: '') 32 136 FB_COLOR_WHITE FB_COLOR_BLACK s
      in fb_draw_string (test_text vmm) (32 + 10 * 8) 136 (test_color vmm) FB_COLOR_BLACK s)"

definition startup_cpu :: "u64 \<Rightarrow> 'a startup_state_scheme \<Rightarrow> 'a startup_state_scheme" where
  "startup_cpu cpu_str s =
     (let s = s\<lparr>ram := store_bytes cpu_str (asc ''CPU: '' @ replicate 59 0) (ram s)\<rparr>;
          s = sysinfo_get_cpu_brand (cpu_str + 5) s
      in fb_draw_string (string_at cpu_str 64 s) 32 160 FB_COLOR_WHITE FB_COLOR_BLACK s)"

definition startup_system :: "'a startup_state_scheme \<Rightarrow> 'a startup_state_scheme" where
  "startup_system s =
     (let (w, h) = sysinfo_get_screen_res s;
          l = append_uint 64 w (init_line 64 (asc ''Res: ''));
          l = append_uint 64 h (put_char 120 l);
          s = fb_draw_string (text_of l) 32 176 FB_COLOR_WHITE FB_COLOR_BLACK s;
          l = append_uint 64 (timer_get_uptime_seconds s) (init_line 64 (asc ''Uptime: ''));
          l = put_char 0 (put_char 115 (put_char 32 l))
      in fb_draw_string (text_of l) 32 192 FB_COLOR_WHITE FB_COLOR_BLACK s)"

definition progress_width :: "'a startup_state_scheme \<Rightarrow> u64" where
  "progress_width s = frame_count s * ((fb_width s - 64) - 4) div 1000"

definition startup_bar :: "'a startup_state_scheme \<Rightarrow> 'a startup_state_scheme" where
  "startup_bar s =
     (let bar_width = fb_width s - 64;
          bar_height = 20;
          bar_x = 32;
          bar_y = fb_height s - 40;
          s = for_range 0 bar_width (\<lambda>i s.
                let s = fb_put_pixel (bar_x + i) bar_y FB_COLOR_WHITE s
                in fb_put_pixel (bar_x + i) (bar_y + bar_height - 1) FB_COLOR_WHITE s) s;
          s = for_range 0 bar_height (\<lambda>j s.
                let s = fb_put_pixel bar_x (bar_y + j) FB_COLOR_WHITE s
                in fb_put_pixel (bar_x + bar_width - 1) (bar_y + j) FB_COLOR_WHITE s) s;
          start_y = bar_y + 1;
          end_y = bar_y + bar_height - 2
      in for_range 0 (progress_width s) (\<lambda>i. for_range start_y end_y (\<lambda>j.
           fb_put_pixel (bar_x + 2 + i) j FB_COLOR_GREEN)) s)"

definition startup_panel_render :: "u64 \<Rightarrow> u32 \<Rightarrow> u32 \<Rightarrow> 'a startup_state_scheme \<Rightarrow> 'a startup_state_scheme" where
  "startup_panel_render cpu_str pmm_test_status vmm_test_status s =
     (let s = startup_title s;
          s = startup_memory s;
          s = startup_tests pmm_test_status vmm_test_status s;
          s = startup_cpu cpu_str s;
          s = startup_system s
      in startup_bar s)"

subsection \<open>What rendering may change\<close>

lemma fb_draws_fields:
  assumes "fb_draws s u"
  shows "fb_ok u = fb_ok s" "fb_target u = fb_target s" "screen_h u = screen_h s" "fb_pitch_val u = fb_pitch_val s"
    "fb_area u = fb_area s"
proof -
  have u: "u = s\<lparr>ram := ram u\<rparr>" using assms by (simp add: fb_draws_def)
  show "fb_ok u = fb_ok s" "fb_target u = fb_target s" "screen_h u = screen_h s" "fb_pitch_val u = fb_pitch_val s"
    "fb_area u = fb_area s"
    by (subst u, simp add: fb_ok_def fb_target_def fb_area_def)+
qed

lemma ram_update_trans:
  assumes "x = y\<lparr>ram := ram x\<rparr>" "y = z\<lparr>ram := ram y\<rparr>"
  shows "x = z\<lparr>ram := ram x\<rparr>"
proof -
  have "y\<lparr>ram := ram x\<rparr> = z\<lparr>ram := ram x\<rparr>" using arg_cong [OF assms(2), of "\<lambda>v. v\<lparr>ram := ram x\<rparr>"] by simp
  then show ?thesis by (rule trans [OF assms(1)])
qed

lemma fb_draws_trans:
  assumes "fb_draws s t" "fb_draws t u"
  shows "fb_draws s u"
proof -
  have "u = s\<lparr>ram := ram u\<rparr>"
    by (rule ram_update_trans [where y = t]) (use assms in \<open>simp_all add: fb_draws_def\<close>)
  then show ?thesis using assms fb_draws_fields [OF assms(1)] by (simp add: fb_draws_def)
qed

lemma startup_title_draws:
  assumes "fb_ok s" "use_double_buffer s \<longrightarrow> back_buffer s \<noteq> 0"
  shows "fb_draws (s\<lparr>frame_count := (frame_count s + 1) mod 1000\<rparr>) (startup_title s)"
proof -
  let ?s = "s\<lparr>frame_count := (frame_count s + 1) mod 1000\<rparr>"
  have ok: "fb_ok ?s" "use_double_buffer ?s \<longrightarrow> back_buffer ?s \<noteq> 0"
    using assms by (cases "use_double_buffer s"; simp add: fb_ok_def fb_target_def)+
  have c: "fb_draws ?s (fb_clear FB_COLOR_BLACK ?s)" by (rule fb_draws_clear [OF ok])
  have "fb_ok (fb_clear FB_COLOR_BLACK ?s)" using fb_draws_fields(1) [OF c] ok(1) by simp
  then have "fb_draws ?s (fb_draw_color_bar 0 48 (fb_clear FB_COLOR_BLACK ?s))"
    by (intro fb_draws_trans [OF c] fb_draws_color_bar fb_draws_refl)
  then show ?thesis unfolding startup_title_def Let_def by (intro fb_draws_string ok(1))
qed

lemma startup_memory_draws: "fb_ok s \<Longrightarrow> fb_draws s u \<Longrightarrow> fb_draws s (startup_memory u)"
  unfolding startup_memory_def Let_def by (intro fb_draws_string)

lemma startup_tests_draws: "fb_ok s \<Longrightarrow> fb_draws s u \<Longrightarrow> fb_draws s (startup_tests p v u)"
  unfolding startup_tests_def Let_def by (intro fb_draws_string)

lemma startup_system_draws: "fb_ok s \<Longrightarrow> fb_draws s u \<Longrightarrow> fb_draws s (startup_system u)"
  unfolding startup_system_def Let_def split_beta by (intro fb_draws_string)

lemma startup_bar_draws: "fb_ok s \<Longrightarrow> fb_draws s u \<Longrightarrow> fb_draws s (startup_bar u)"
  unfolding startup_bar_def Let_def by (intro fb_draws_range fb_draws_put)

text \<open>The processor's name: a store into the local buffer, then text.\<close>

definition cpu_name_stored :: "u64 \<Rightarrow> 'a startup_state_scheme \<Rightarrow> 'a startup_state_scheme" where
  "cpu_name_stored cpu_str s =
     sysinfo_get_cpu_brand (cpu_str + 5) (s\<lparr>ram := store_bytes cpu_str (asc ''CPU: '' @ replicate 59 0) (ram s)\<rparr>)"

lemma cpu_name_outside:
  assumes "64 \<le> unat (a - cpu_str)"
  shows "ram (cpu_name_stored cpu_str s) a = ram s a"
proof -
  have "unat (a - (cpu_str + of_nat 5)) = unat (a - cpu_str) - 5"
    using assms by (intro unat_sub_shift(2) [where n = 0]) simp_all
  moreover have "length (take 49 (cpu_brand_str s)) \<le> 49" by simp
  ultimately have "length (take 49 (cpu_brand_str s)) \<le> unat (a - (cpu_str + of_nat 5))" using assms by linarith
  then have "ram (cpu_name_stored cpu_str s) a = store_bytes cpu_str (asc ''CPU: '' @ replicate 59 0) (ram s) a"
    by (simp add: cpu_name_stored_def sysinfo_get_cpu_brand_def store_bytes_outside)
  also have "\<dots> = ram s a" using assms by (intro store_bytes_outside) (simp_all add: asc_def)
  finally show ?thesis .
qed

lemma startup_cpu_draws:
  assumes "fb_ok s"
  shows "fb_draws (cpu_name_stored cpu_str s) (startup_cpu cpu_str s)"
proof -
  have "fb_ok (cpu_name_stored cpu_str s)"
    using assms by (cases "use_double_buffer s"; simp add: cpu_name_stored_def sysinfo_get_cpu_brand_def fb_ok_def fb_target_def)
  then show ?thesis
    unfolding startup_cpu_def Let_def cpu_name_stored_def [symmetric] by (intro fb_draws_string fb_draws_refl)
qed

text \<open>C30: rendering the start-up screen counts the frame modulo 1000 and changes no memory
  outside the current framebuffer and its own 64-byte buffer, and nothing else of the state.\<close>

theorem startup_panel_contained:
  assumes "fb_ok s" "use_double_buffer s \<longrightarrow> back_buffer s \<noteq> 0"
    and "t = startup_panel_render cpu_str p v s"
  shows "t = s\<lparr>ram := ram t, frame_count := (frame_count s + 1) mod 1000\<rparr> \<and>
    (\<forall>a. a \<notin> fb_area s \<and> 64 \<le> unat (a - cpu_str) \<longrightarrow> ram t a = ram s a)"
proof -
  let ?s = "s\<lparr>frame_count := (frame_count s + 1) mod 1000\<rparr>"
  define u where "u = startup_tests p v (startup_memory (startup_title s))"
  define w where "w = cpu_name_stored cpu_str u"
  have ok: "fb_ok ?s" and area: "fb_area ?s = fb_area s"
    using assms(1) by (cases "use_double_buffer s"; simp add: fb_ok_def fb_area_def fb_target_def)+
  have u: "fb_draws ?s u"
    unfolding u_def using assms by (intro startup_tests_draws startup_memory_draws startup_title_draws ok)
  have u_ok: "fb_ok u" using fb_draws_fields(1) [OF u] ok by simp
  have w: "w = u\<lparr>ram := ram w\<rparr>" by (simp add: w_def cpu_name_stored_def sysinfo_get_cpu_brand_def)
  have w_ok: "fb_ok w" "fb_area w = fb_area u"
    using u_ok by (subst w, cases "use_double_buffer u"; simp add: fb_ok_def fb_area_def fb_target_def)+
  have t: "fb_draws w t"
    unfolding assms(3) startup_panel_render_def Let_def w_def u_def
    by (intro startup_bar_draws startup_system_draws startup_cpu_draws w_ok(1) [unfolded w_def u_def] u_ok [unfolded u_def])
  have "t = ?s\<lparr>ram := ram t\<rparr>"
    by (rule ram_update_trans [OF _ ram_update_trans [OF w]]) (use t u in \<open>simp_all only: fb_draws_def\<close>)
  then have "t = s\<lparr>ram := ram t, frame_count := (frame_count s + 1) mod 1000\<rparr>" by (rule trans) simp
  moreover have "ram t a = ram s a" if "a \<notin> fb_area s" "64 \<le> unat (a - cpu_str)" for a
  proof -
    have "a \<notin> fb_area w" "a \<notin> fb_area ?s" using that(1) w_ok(2) fb_draws_fields(5) [OF u] area by simp_all
    then have "ram t a = ram w a" "ram u a = ram ?s a" using t u by (simp_all add: fb_draws_def fb_area_def not_less)
    then show ?thesis using cpu_name_outside [OF that(2), of u] by (simp add: w_def)
  qed
  ultimately show ?thesis by blast
qed

definition sample_startup :: startup_state where
  "sample_startup = sys_state.extend (sys_state.truncate (sample_sys 0)) \<lparr>frame_count = 999\<rparr>"

theorem startup_panel_contained_witness:
  "frame_count (startup_panel_render 0x9000 1 2 sample_startup) = 0 \<and>
   ram (startup_panel_render 0x9000 1 2 sample_startup) 0x5000 = 0"
proof -
  have ok: "fb_ok sample_startup" "\<not> use_double_buffer sample_startup" "frame_count sample_startup = 999"
    "ram sample_startup 0x5000 = 0" "fb_area sample_startup = {a. unat (a - 0x100000) < 1024}"
    by (simp_all add: sample_startup_def sys_state.defs sample_sys_def ide_state.defs sample_ide_def pci_state.defs
        sample_pci_def intr_state.defs sample_intr_def fb_state.defs sample_fb_def fb_ok_def fb_target_def fb_area_def)
  let ?t = "startup_panel_render 0x9000 1 2 sample_startup"
  note c = startup_panel_contained [OF ok(1) _ refl, of "0x9000" 1 2]
  have "?t = sample_startup\<lparr>ram := ram ?t, frame_count := (frame_count sample_startup + 1) mod 1000\<rparr>"
    using c ok by blast
  then have "frame_count ?t = (999 + 1) mod 1000" by (rule ssubst) (simp add: ok)
  moreover have "ram ?t 0x5000 = 0" using c ok by simp
  ultimately show ?thesis by simp
qed

end
