(* ===== verification/Shell.thy ===== *)
theory Shell
  imports Debug_Panel
begin

section \<open>\<^verbatim>\<open>shell.c\<close>: the command line\<close>

text \<open>
  The shell is in the repository but not in the build. Its statics are one more record; its
  local arrays are byte lists. Much of what it does depends on bytes it never wrote: arrays
  are uninitialised, \<open>memcpy\<close> copies past the end of its source. \<open>junk k\<close> gives those bytes at
  the place \<open>k\<close> of the code; \<open>after_history\<close> is what follows the history array in memory. A copy
  past the end of its destination is \<open>None\<close>, as is a fault or an endless loop of what it calls.

  The record \<open>shell_env\<close> holds these and what else is not code of the repository:
  the devices, the processor's address translation, the addresses of \<open>test_entry\<close> and of the
  local buffers whose addresses matter, and \<open>sysinfo_get_sysinfo_string\<close>, which the shell calls
  and no file defines.
\<close>

abbreviation MAX_CMD_LEN :: nat where "MAX_CMD_LEN \<equiv> 64"
abbreviation MAX_LINES :: nat where "MAX_LINES \<equiv> 20"
abbreviation LINE_LEN :: nat where "LINE_LEN \<equiv> 80"

record shell_state = sys_state +
  cmd_buf :: "u8 list"
  cmd_pos :: u64
  terminal_history :: "u8 list list"
  history_lines :: u64
  prompt_y :: u64

record shell_env =
  sh_io :: io_env
  sh_mmu :: mmu
  junk :: "nat \<Rightarrow> nat \<Rightarrow> u8"
  after_history :: "u8 list"
  test_entry :: u64
  msg_addr :: u64
  sector_buf :: u64
  identify_buf :: u64
  sysinfo_string :: "shell_state \<Rightarrow> u8 list"

subsection \<open>Arrays and strings\<close>

text \<open>An uninitialised array; \<open>n\<close> bytes copied from an object, and from behind it when it is
  shorter; bytes copied into an array.\<close>

definition junk_array :: "(nat \<Rightarrow> u8) \<Rightarrow> nat \<Rightarrow> u8 list" where
  "junk_array f n = map f [0..<n]"

definition read_n :: "(nat \<Rightarrow> u8) \<Rightarrow> nat \<Rightarrow> u8 list \<Rightarrow> u8 list" where
  "read_n f n xs = map (\<lambda>i. if i < length xs then xs ! i else f i) [0..<n]"

definition blit :: "nat \<Rightarrow> u8 list \<Rightarrow> u8 list \<Rightarrow> u8 list option" where
  "blit k bs arr = (if k + length bs \<le> length arr
     then Some (take k arr @ bs @ drop (k + length bs) arr) else None)"

text \<open>A string literal is its characters and a NUL.\<close>

definition lit :: "string \<Rightarrow> u8 list" where
  "lit str = asc str @ [0]"

definition itoa :: "u64 \<Rightarrow> u8 list \<Rightarrow> u8 list option" where
  "itoa val buf =
     (if val = 0 then blit 0 [48, 0] buf else blit 0 (rev (dec_tmp 20 val) @ [0]) buf)"

fun atoi_from :: "u64 \<Rightarrow> u8 list \<Rightarrow> u64" where
  "atoi_from res [] = res"
| "atoi_from res (c # xs) =
     (if 48 \<le> c \<and> c \<le> 57 then atoi_from (res * 10 + (ucast c - 48)) xs else res)"

definition atoi :: "u8 list \<Rightarrow> u64" where
  "atoi str = atoi_from 0 str"

definition sh_append_str :: "u64 \<Rightarrow> u8 list \<Rightarrow> line \<Rightarrow> line" where
  "sh_append_str cap xs l = append_str cap xs l"

definition sh_append_hex :: "u64 \<Rightarrow> u64 \<Rightarrow> line \<Rightarrow> line" where
  "sh_append_hex cap v l = append_hex cap v l"

definition sh_append_dec :: "u64 \<Rightarrow> u64 \<Rightarrow> line \<Rightarrow> line" where
  "sh_append_dec cap v l = append_dec cap v l"

text \<open>\<open>strcmp\<close> on the characters before the terminators.\<close>

fun strcmp :: "u8 list \<Rightarrow> u8 list \<Rightarrow> int" where
  "strcmp [] [] = 0"
| "strcmp [] (d # ys) = - uint d"
| "strcmp (c # xs) [] = uint c"
| "strcmp (c # xs) (d # ys) = (if c = d then strcmp xs ys else uint c - uint d)"

subsection \<open>History and screen\<close>

definition add_to_history :: "(nat \<Rightarrow> u8) \<Rightarrow> u8 list \<Rightarrow> 'a shell_state_scheme \<Rightarrow> 'a shell_state_scheme" where
  "add_to_history f str s =
     (let row = read_n f LINE_LEN str in
      if history_lines s < of_nat MAX_LINES
      then s\<lparr>terminal_history := (terminal_history s)[unat (history_lines s) := row],
             history_lines := history_lines s + 1\<rparr>
      else let h = fold (\<lambda>i h. h[i := h ! (i + 1)]) [0..<MAX_LINES - 1] (terminal_history s)
           in s\<lparr>terminal_history := h[MAX_LINES - 1 := row]\<rparr>)"

definition prompt_array :: "'a shell_state_scheme \<Rightarrow> u8 list option" where
  "prompt_array s = do {
     let arr = asc ''OS44 Shell> '' @ replicate (MAX_CMD_LEN + 15 - 12) 0;
     arr \<leftarrow> blit 12 (take (unat (cmd_pos s)) (cmd_buf s)) arr;
     blit (12 + unat (cmd_pos s)) [0] arr
   }"

definition history_row :: "shell_env \<Rightarrow> nat \<Rightarrow> 'a shell_state_scheme \<Rightarrow> u8 list" where
  "history_row P i s = c_string (concat (drop i (terminal_history s)) @ after_history P)"

definition shell_render :: "shell_env \<Rightarrow> shell_state \<Rightarrow> shell_state option" where
  "shell_render P s = do {
     let s = fb_clear FB_COLOR_BLACK s;
     let (y, s) = fold (\<lambda>i (y, s). (y + 16, fb_draw_string (history_row P i s) 32 y FB_COLOR_WHITE FB_COLOR_BLACK s))
                    [0..<unat (history_lines s)] (16, s);
     let s = s\<lparr>prompt_y := y\<rparr>;
     prompt \<leftarrow> prompt_array s;
     Some (fb_draw_string (c_string prompt) 32 y FB_COLOR_GREEN FB_COLOR_BLACK s)
   }"

subsection \<open>Commands\<close>

text \<open>Each gives the \<open>response\<close> array and the state. The array starts out as junk.\<close>

definition response0 :: "shell_env \<Rightarrow> u8 list" where
  "response0 P = junk_array (junk P 0) LINE_LEN"

text \<open>\<open>memcpy(response, "...", n)\<close>\<close>

definition respond :: "shell_env \<Rightarrow> string \<Rightarrow> nat \<Rightarrow> shell_state \<Rightarrow> (u8 list \<times> shell_state) option" where
  "respond P str n s = do { r \<leftarrow> blit 0 (read_n (junk P 1) n (lit str)) (response0 P); Some (r, s) }"

definition cmd_help :: "shell_env \<Rightarrow> shell_state \<Rightarrow> (u8 list \<times> shell_state) option" where
  "cmd_help P s = respond P ''Cmds: help, testmem, spawn, get [pid], pkill [pid], info, ideinfo, ideread [lba] [count], ideident'' 100 s"

function info_loop :: "shell_env \<Rightarrow> u8 list \<Rightarrow> nat \<Rightarrow> nat \<Rightarrow> shell_state \<Rightarrow> (u8 list \<times> nat \<times> shell_state) option" where
  "info_loop P buf start ptr s =
     (if ptr < length buf then
        if buf ! ptr = 0 then Some (buf, start, s)
        else if buf ! ptr = 124 then
          let buf = buf[ptr := 0]; s = add_to_history (junk P 2) (drop start buf) s
          in info_loop P buf (ptr + 1) (ptr + 1) s
        else info_loop P buf start (ptr + 1) s
      else None)"
  by pat_completeness auto
termination
  by (relation "measure (\<lambda>(P, buf, start, ptr, s). length buf - ptr)") auto

declare info_loop.simps [simp del]

definition cmd_info :: "shell_env \<Rightarrow> shell_state \<Rightarrow> (u8 list \<times> shell_state) option" where
  "cmd_info P s = do {
     let buf = sysinfo_string P s;
     let s = add_to_history (junk P 3) (lit ''System Information:'') s;
     (buf, start, s) \<leftarrow> info_loop P buf 0 0 s;
     let s = add_to_history (junk P 2) (drop start buf) s;
     respond P ''Info retrieved'' 14 s
   }"

definition cmd_testmem :: "shell_env \<Rightarrow> shell_state \<Rightarrow> (u8 list \<times> shell_state) option" where
  "cmd_testmem P s = do {
     let free_frames = pmm_get_free_frames s;
     frames_str \<leftarrow> itoa free_frames (junk_array (junk P 4) 20);
     msg \<leftarrow> blit 0 (asc ''Free frames: '') (junk_array (junk P 5) LINE_LEN);
     msg \<leftarrow> blit 13 (take 20 frames_str) msg;
     let s = add_to_history (junk P 6) msg s;
     (ptr, s) \<leftarrow> vmm_alloc 8192 s;
     s \<leftarrow> (if ptr \<noteq> 0 then vmm_free ptr (add_to_history (junk P 7) (lit ''VMM test: Success'') s)
           else Some (add_to_history (junk P 7) (lit ''VMM test: Failed'') s));
     respond P ''Testmem complete'' 16 s
   }"

definition cmd_spawn :: "shell_env \<Rightarrow> shell_state \<Rightarrow> (u8 list \<times> shell_state) option" where
  "cmd_spawn P s = do {
     (p, s) \<leftarrow> process_create (sh_mmu P) (test_entry P) 4096 s;
     pid_str \<leftarrow> itoa p (junk_array (junk P 8) 20);
     r \<leftarrow> blit 0 (asc ''Spawned PID: '') (response0 P);
     r \<leftarrow> blit 13 pid_str r;
     Some (r, s)
   }"

definition cmd_get :: "shell_env \<Rightarrow> shell_state \<Rightarrow> (u8 list \<times> shell_state) option" where
  "cmd_get P s = do {
     let p = atoi (drop 4 (cmd_buf s));
     (case get_proc_by_pid p s of
        None \<Rightarrow> respond P ''Invalid PID'' 11 s
      | Some i \<Rightarrow> do {
          let e = proc_table s ! i;
          mem_str \<leftarrow> itoa (mem_size e) (junk_array (junk P 9) 20);
          time_str \<leftarrow> itoa (run_time e) (junk_array (junk P 10) 20);
          let status_str = read_n (junk P 11) 7 (if status e = PROC_RUNNING then lit ''RUNNING'' else lit ''READY'') @ [0];
          msg \<leftarrow> blit 0 (asc ''PID status: '') (junk_array (junk P 12) LINE_LEN);
          msg \<leftarrow> blit 12 status_str msg;
          let s = add_to_history (junk P 13) msg s;
          msg \<leftarrow> blit 0 (asc ''Mem: '') msg;
          msg \<leftarrow> blit 5 mem_str msg;
          let s = add_to_history (junk P 13) msg s;
          r \<leftarrow> blit 0 (asc ''Time: '') (response0 P);
          r \<leftarrow> blit 6 time_str r;
          Some (r, s)
        })
   }"

definition cmd_pkill :: "shell_env \<Rightarrow> shell_state \<Rightarrow> (u8 list \<times> shell_state) option" where
  "cmd_pkill P s = do {
     let p = atoi (drop 6 (cmd_buf s));
     (case get_proc_by_pid p s of
        None \<Rightarrow> respond P ''Invalid PID'' 11 s
      | Some i \<Rightarrow> do {
          s \<leftarrow> process_check_and_free (kill_proc p s);
          respond P ''Killed PID'' 10 s
        })
   }"

text \<open>
  \<open>ideinfo\<close> and \<open>ideident\<close> pass \<open>(uint64_t *)&p\<close> as the position of their append calls, and
  \<open>p\<close> is the address of \<open>msg\<close>: the position is that address.
\<close>

definition ide_line :: "shell_env \<Rightarrow> (line \<Rightarrow> line) \<Rightarrow> u8 list \<times> shell_state \<Rightarrow> u8 list \<times> shell_state" where
  "ide_line P write ms =
     (let (msg, s) = ms; msg = fst (write (msg, msg_addr P)) in (msg, add_to_history (junk P 14) msg s))"

definition drive_text :: "string \<Rightarrow> u8 \<Rightarrow> u32 \<Rightarrow> line \<Rightarrow> line" where
  "drive_text name present sectors l =
     (if present \<noteq> 0
      then sh_append_dec 256 (ucast sectors) (sh_append_str 256 (asc (name @ '': Present, Sectors: '')) l)
      else sh_append_str 256 (asc (name @ '': Not present'')) l)"

definition cmd_ideinfo :: "shell_env \<Rightarrow> shell_state \<Rightarrow> (u8 list \<times> shell_state) option" where
  "cmd_ideinfo P s = do {
     let ms = (junk_array (junk P 15) 256, s);
     let ms = ide_line P (sh_append_str 256 (asc ''IDE Drive Info:'' @ [10])) ms;
     let ms = ide_line P (drive_text ''  Primary Master'' (ide_primary_master (snd ms)) (ide_primary_master_sectors (snd ms))) ms;
     let ms = ide_line P (drive_text ''  Primary Slave'' (ide_primary_slave (snd ms)) (ide_primary_slave_sectors (snd ms))) ms;
     let ms = ide_line P (drive_text ''  Secondary Master'' (ide_secondary_master (snd ms)) (ide_secondary_master_sectors (snd ms))) ms;
     let ms = ide_line P (drive_text ''  Secondary Slave'' (ide_secondary_slave (snd ms)) (ide_secondary_slave_sectors (snd ms))) ms;
     respond P ''IDE info printed'' 16 (snd ms)
   }"

definition space_arg :: "u8 list \<Rightarrow> u16" where
  "space_arg str =
     (case dropWhile (\<lambda>c. c \<noteq> 0 \<and> c \<noteq> 32) str of
        [] \<Rightarrow> 1
      | c # rest \<Rightarrow> if c = 32 then ucast (atoi rest) else 1)"

definition sector_line :: "shell_env \<Rightarrow> u32 \<Rightarrow> u16 \<Rightarrow> nat \<Rightarrow> u8 list \<times> shell_state \<Rightarrow> u8 list \<times> shell_state" where
  "sector_line P lba count i ls =
     (let (arr, s) = ls;
          l = sh_append_str 128 (asc ''LBA+'') (arr, 0);
          l = sh_append_hex 128 (ucast (lba + of_nat (i div 512))) l;
          l = sh_append_str 128 (asc '' +'') l;
          l = sh_append_dec 128 (of_nat (i div 512)) l;
          l = sh_append_str 128 (asc '': '') l;
          l = fold (\<lambda>j l. sh_append_str 128 (asc '' '')
                (sh_append_hex 128 (ucast (ram s (sector_buf P + of_nat (i + j)))) l))
              [0..<min 16 (unat count * 512 - i)] l;
          arr = (fst l)[unat (if snd l < 128 then snd l else 127) := 0]
      in (arr, add_to_history (junk P 16) arr s))"

definition cmd_ideread :: "shell_env \<Rightarrow> shell_state \<Rightarrow> (u8 list \<times> shell_state) option" where
  "cmd_ideread P s = do {
     let lba = (ucast (atoi (drop 8 (cmd_buf s))) :: u32);
     let count = space_arg (drop 8 (cmd_buf s));
     let count = (if 16 < count then 16 else count);
     let (ret, s) = ide_read_sectors (sh_io P) 0 lba count (sector_buf P) s;
     (if ret = 0 then do {
        let (arr, s) = fold (\<lambda>k. sector_line P lba count (k * 16)) [0..<unat count * 32] (junk_array (junk P 17) 128, s);
        respond P ''Read complete'' 13 s
      }
      else respond P ''Read failed'' 11 s)
   }"

definition ident_field :: "shell_env \<Rightarrow> nat \<Rightarrow> nat \<Rightarrow> 'a machine_scheme \<Rightarrow> u8 list" where
  "ident_field P off n s = load_bytes n (identify_buf P + of_nat off) (ram s)"

definition ident_string :: "shell_env \<Rightarrow> string \<Rightarrow> nat \<Rightarrow> nat \<Rightarrow> u8 list \<times> shell_state \<Rightarrow> u8 list \<times> shell_state" where
  "ident_string P name off n ms =
     ide_line P (\<lambda>l. sh_append_str 256 [10] (sh_append_str 256 (c_string (ident_field P off n (snd ms) @ [0]))
       (sh_append_str 256 (asc name) l))) ms"

definition ident_number :: "shell_env \<Rightarrow> string \<Rightarrow> u64 \<Rightarrow> u8 list \<times> shell_state \<Rightarrow> u8 list \<times> shell_state" where
  "ident_number P name v ms =
     ide_line P (\<lambda>l. sh_append_str 256 [10] (sh_append_dec 256 v (sh_append_str 256 (asc name) l))) ms"

definition cmd_ideident :: "shell_env \<Rightarrow> shell_state \<Rightarrow> (u8 list \<times> shell_state) option" where
  "cmd_ideident P s = do {
     let s = ide_identify (sh_io P) 0 (identify_buf P) s;
     let u16_at = (\<lambda>off. ucast (le_word (ident_field P off 2 s) :: u16) :: u64);
     let lba28 = (le_word (ident_field P 115 4 s) :: u32);
     let ms = (junk_array (junk P 18) 256, s);
     let ms = ide_line P (sh_append_str 256 (asc ''IDENTIFY for drive 0:'' @ [10])) ms;
     let ms = (if u16_at 0 = 0
       then (fst ms, add_to_history (junk P 19) (lit ''  Drive not present or IDENTIFY failed'') (snd ms))
       else
         let ms = ident_string P ''  Model: '' 50 40 ms;
             ms = ident_string P ''  Serial: '' 16 20 ms;
             ms = ident_string P ''  Firmware: '' 42 8 ms;
             ms = ident_number P ''  Cylinders: '' (u16_at 2) ms;
             ms = ident_number P ''  Heads: '' (u16_at 6) ms;
             ms = ident_number P ''  Sectors/Track: '' (u16_at 8) ms;
             ms = ident_number P ''  Total LBA28 sectors: '' (ucast lba28) ms
         in ident_number P ''  Capacity (MB): '' (ucast (lba28 * 512 div (1024 * 1024))) ms);
     respond P ''IDENTIFY sent'' 13 (snd ms)
   }"

text \<open>The chain of comparisons. \<open>get\<close>, \<open>pkill\<close> and \<open>ideread\<close> are recognised by their first
  letters only.\<close>

definition dispatch :: "shell_env \<Rightarrow> shell_state \<Rightarrow> (u8 list \<times> shell_state) option" where
  "dispatch P s =
     (let buf = cmd_buf s; cmd = c_string buf in
      if strcmp cmd (asc ''help'') = 0 then cmd_help P s
      else if strcmp cmd (asc ''info'') = 0 then cmd_info P s
      else if strcmp cmd (asc ''testmem'') = 0 then cmd_testmem P s
      else if strcmp cmd (asc ''spawn'') = 0 then cmd_spawn P s
      else if take 3 buf = asc ''get'' then cmd_get P s
      else if take 5 buf = asc ''pkill'' then cmd_pkill P s
      else if strcmp cmd (asc ''ideinfo'') = 0 then cmd_ideinfo P s
      else if take 7 buf = asc ''ideread'' then cmd_ideread P s
      else if strcmp cmd (asc ''ideident'') = 0 then cmd_ideident P s
      else respond P ''Unknown command'' 15 s)"

definition execute_command :: "shell_env \<Rightarrow> shell_state \<Rightarrow> shell_state option" where
  "execute_command P s =
     (if cmd_pos s = 0 then Some s
      else do {
        let s = s\<lparr>cmd_buf := (cmd_buf s)[unat (cmd_pos s) := 0]\<rparr>;
        full_prompt \<leftarrow> prompt_array s;
        let s = add_to_history (junk P 20) full_prompt s;
        (response, s) \<leftarrow> dispatch P s;
        let s = add_to_history (junk P 21) response s;
        shell_render P (s\<lparr>cmd_pos := 0\<rparr>)
      })"

definition shell_init :: "'a shell_state_scheme \<Rightarrow> 'a shell_state_scheme" where
  "shell_init s = s\<lparr>cmd_pos := 0, history_lines := 0, prompt_y := 16\<rparr>"

definition shell_putc :: "shell_env \<Rightarrow> u8 \<Rightarrow> shell_state \<Rightarrow> shell_state option" where
  "shell_putc P c s =
     (if c = 8 then
        Some (if 0 < cmd_pos s then
           let s = s\<lparr>cmd_pos := cmd_pos s - 1\<rparr>
           in fb_draw_string [32] (32 + 12 * 8 + cmd_pos s * 8) (prompt_y s) FB_COLOR_WHITE FB_COLOR_BLACK s
         else s)
      else if c = 10 \<or> c = 13 then execute_command P s
      else if cmd_pos s < of_nat (MAX_CMD_LEN - 1) then
        let s = s\<lparr>cmd_buf := (cmd_buf s)[unat (cmd_pos s) := c], cmd_pos := cmd_pos s + 1\<rparr>
        in Some (fb_draw_string (c_string [c, 0]) (32 + 12 * 8 + (cmd_pos s - 1) * 8) (prompt_y s)
             FB_COLOR_GREEN FB_COLOR_BLACK s)
      else Some s)"

subsection \<open>The arrays\<close>

text \<open>
  The typed line and the visible part of the history are lists. The cursors stay inside their
  arrays, every row has its 80 bytes, and the last byte of the command buffer is never typed into.
\<close>

definition shell_ok :: "'a shell_state_scheme \<Rightarrow> bool" where
  "shell_ok s \<longleftrightarrow> length (cmd_buf s) = MAX_CMD_LEN \<and> cmd_pos s < of_nat MAX_CMD_LEN \<and>
     cmd_buf s ! (MAX_CMD_LEN - 1) = 0 \<and>
     length (terminal_history s) = MAX_LINES \<and> (\<forall>row \<in> set (terminal_history s). length row = LINE_LEN) \<and>
     history_lines s \<le> of_nat MAX_LINES"

definition shell_line :: "'a shell_state_scheme \<Rightarrow> u8 list" where
  "shell_line s = take (unat (cmd_pos s)) (cmd_buf s)"

definition shown :: "'a shell_state_scheme \<Rightarrow> u8 list list" where
  "shown s = take (unat (history_lines s)) (terminal_history s)"

definition last_rows :: "u8 list list \<Rightarrow> u8 list list" where
  "last_rows rows = drop (length rows - MAX_LINES) rows"

lemma last_rows_append: "last_rows (last_rows rows @ xs) = last_rows (rows @ xs)"
proof (cases "length rows \<le> 20")
  case False
  then have "length rows - 20 + (length rows - (length rows - 20) + length xs - 20) = length rows + length xs - 20" by linarith
  moreover have "last_rows rows @ xs = drop (length rows - 20) (rows @ xs)" using False by (simp add: last_rows_def)
  ultimately show ?thesis using False by (simp add: last_rows_def add.commute)
qed (simp add: last_rows_def)

text \<open>The fields of the shell as one value.\<close>

definition shell_part :: "'a shell_state_scheme \<Rightarrow> u8 list \<times> u64 \<times> u8 list list \<times> u64" where
  "shell_part s = (cmd_buf s, cmd_pos s, terminal_history s, history_lines s)"

lemma shell_part_cong:
  assumes "shell_part s = shell_part t"
  shows "shell_ok s = shell_ok t" "shell_line s = shell_line t" "shown s = shown t"
  using assms by (simp_all add: shell_part_def shell_ok_def shell_line_def shown_def)

lemma shell_part_sys: "sys_state.more s = sys_state.more t \<Longrightarrow> shell_part s = shell_part t"
  by (cases s, cases t) (simp add: shell_part_def)

lemma shell_part_ide: "ide_state.more s = ide_state.more t \<Longrightarrow> shell_part s = shell_part t"
  by (rule shell_part_sys) (cases s, cases t, simp)

lemma shell_part_vmm: "vmm_state.more s = vmm_state.more t \<Longrightarrow> shell_part s = shell_part t"
  by (rule shell_part_sys) (cases s, cases t, simp)

lemma shell_part_ram [simp]: "shell_part (s\<lparr>ram := m\<rparr>) = shell_part s"
  by (simp add: shell_part_def)

lemma shell_part_draw_string [simp]: "shell_part (fb_draw_string str x y fg bg s) = shell_part s"
  using draw_string_ram [of str x y fg bg s] by auto

lemma shell_ok_bounds:
  assumes "shell_ok s"
  shows "unat (cmd_pos s) < 64" "unat (history_lines s) \<le> 20" "length (cmd_buf s) = 64"
    "length (terminal_history s) = 20"
  using assms by (simp_all add: shell_ok_def word_less_nat_alt word_le_nat_alt)

subsection \<open>History\<close>

lemma length_read_n [simp]: "length (read_n f n xs) = n"
  by (simp add: read_n_def)

lemma read_n_nth: "i < n \<Longrightarrow> i < length xs \<Longrightarrow> read_n f n xs ! i = xs ! i"
  by (simp add: read_n_def)

lemma read_n_all: "length xs = n \<Longrightarrow> read_n f n xs = xs"
  by (simp add: read_n_def list_eq_iff_nth_eq)

lemma take_read_n: "k \<le> n \<Longrightarrow> k \<le> length xs \<Longrightarrow> take k (read_n f n xs) = take k xs"
  by (simp add: list_eq_iff_nth_eq read_n_def)

text \<open>The loop of copies moves every row but the last one place up.\<close>

lemma shift_rows:
  "k < length h \<Longrightarrow> fold (\<lambda>i h. h[i := h ! (i + 1)]) [0..<k] h = take k (tl h) @ drop k h"
proof (induction k)
  case (Suc k)
  let ?h = "take k (tl h) @ drop k h"
  have "?h ! (k + 1) = h ! Suc k" using Suc(2) by (simp add: nth_append)
  moreover have "?h[k := h ! Suc k] = take (Suc k) (tl h) @ drop (Suc k) h"
    using Suc(2) by (simp add: list_update_append take_Suc_conv_app_nth nth_tl Cons_nth_drop_Suc [symmetric])
  ultimately show ?case using Suc by simp
qed simp

lemma add_row_free:
  assumes "shell_ok s" "history_lines s < 20" "length row = LINE_LEN"
    and "t = s\<lparr>terminal_history := (terminal_history s)[unat (history_lines s) := row],
                history_lines := history_lines s + 1\<rparr>"
  shows "shell_ok t" "shown t = shown s @ [row]"
proof -
  let ?h = "terminal_history s" and ?n = "unat (history_lines s)"
  note b = shell_ok_bounds [OF assms(1)]
  have n: "?n < 20" using assms(2) by (simp add: word_less_nat_alt)
  have n1: "unat (history_lines s + 1) = Suc ?n" 
    using assms(2) unat_add_lem [THEN iffD1, of "history_lines s" 1] n by simp
  then have le: "history_lines s + 1 \<le> 20" using n by (simp add: word_le_nat_alt)
  have rows: "\<forall>r \<in> set ?h. length r = 80" using assms(1) by (simp add: shell_ok_def)
  have "\<forall>r \<in> set (?h[?n := row]). length r = 80"
    using subsetD [OF set_update_subset_insert [of ?h ?n row]] rows assms(3) by blast
  then show "shell_ok t" using assms(1) le unfolding shell_ok_def assms(4) by simp
  have "take (Suc ?n) (?h[?n := row]) = take ?n ?h @ [row]"
    using n b(4) by (simp add: take_Suc_conv_app_nth)
  then show "shown t = shown s @ [row]" by (simp add: shown_def assms(4) n1)
qed

lemma add_row_full:
  assumes "shell_ok s" "\<not> history_lines s < 20" "length row = LINE_LEN"
    and "t = s\<lparr>terminal_history := take 19 (tl (terminal_history s)) @ [row]\<rparr>"
  shows "shell_ok t" "shown t = last_rows (shown s @ [row])"
proof -
  let ?h = "terminal_history s"
  note b = shell_ok_bounds [OF assms(1)]
  have n: "history_lines s = 20" using assms(1,2) by (simp add: shell_ok_def)
  have rows: "\<forall>r \<in> set ?h. length r = 80" using assms(1) by (simp add: shell_ok_def)
  have "set (take 19 (tl ?h)) \<subseteq> set ?h" by (metis drop_0 drop_Suc set_drop_subset set_take_subset subset_trans)
  then have "\<forall>r \<in> set (take 19 (tl ?h) @ [row]). length r = 80" using rows assms(3) by auto
  then show "shell_ok t" using assms(1) b(4) unfolding shell_ok_def assms(4) by simp
  show "shown t = last_rows (shown s @ [row])"
    using b(4) by (simp add: shown_def last_rows_def assms(4) n drop_Suc)
qed

lemma add_to_history_shown:
  assumes "shell_ok s"
  shows "shell_ok (add_to_history f str s)"
    "shown (add_to_history f str s) = last_rows (shown s @ [read_n f LINE_LEN str])"
proof -
  let ?row = "read_n f LINE_LEN str" and ?t = "add_to_history f str s"
  note b = shell_ok_bounds [OF assms]
  have "shell_ok ?t \<and> shown ?t = last_rows (shown s @ [?row])"
  proof (cases "history_lines s < 20")
    case True
    then have "?t = s\<lparr>terminal_history := (terminal_history s)[unat (history_lines s) := ?row],
        history_lines := history_lines s + 1\<rparr>"
      by (simp add: add_to_history_def)
    moreover have "last_rows (shown s @ [?row]) = shown s @ [?row]"
      using True by (simp add: last_rows_def shown_def word_less_nat_alt)
    ultimately show ?thesis using add_row_free [OF assms True length_read_n] by simp
  next
    case False
    have "length (drop 19 (terminal_history s)) = Suc 0" using b(4) by simp
    then have "(drop 19 (terminal_history s))[0 := ?row] = [?row]" by (metis length_0_conv length_Suc_conv list_update_code(2))
    then have "?t = s\<lparr>terminal_history := take 19 (tl (terminal_history s)) @ [?row]\<rparr>"
      using False b(4) shift_rows [of 19 "terminal_history s"] by (simp add: add_to_history_def list_update_append)
    then show ?thesis using add_row_full [OF assms False length_read_n] by simp
  qed
  then show "shell_ok ?t" "shown ?t = last_rows (shown s @ [?row])" by simp_all
qed

subsection \<open>What the commands keep\<close>

definition shell_keeps :: "'a shell_state_scheme \<Rightarrow> 'a shell_state_scheme \<Rightarrow> bool" where
  "shell_keeps s t \<longleftrightarrow> (shell_ok s \<longrightarrow> shell_ok t \<and> cmd_buf t = cmd_buf s \<and> cmd_pos t = cmd_pos s)"

lemma shell_keeps_refl [simp]: "shell_keeps s s"
  by (simp add: shell_keeps_def)

lemma shell_keeps_trans: "shell_keeps s t \<Longrightarrow> shell_keeps t u \<Longrightarrow> shell_keeps s u"
  by (simp add: shell_keeps_def)

lemma shell_keeps_part: "shell_part t = shell_part s \<Longrightarrow> shell_keeps s t"
  using shell_part_cong(1) [of t s] by (simp add: shell_keeps_def shell_part_def)

lemma shell_keeps_history: "shell_keeps s t \<Longrightarrow> shell_keeps s (add_to_history f str t)"
  using add_to_history_shown(1) [of t f str] by (simp add: shell_keeps_def add_to_history_def Let_def)

lemma shell_keeps_vmm_alloc: "vmm_alloc n t = Some (v, u) \<Longrightarrow> shell_keeps s t \<Longrightarrow> shell_keeps s u"
  by (metis shell_keeps_trans shell_keeps_part shell_part_vmm vmm_alloc_more)

lemma shell_keeps_vmm_free: "vmm_free p t = Some u \<Longrightarrow> shell_keeps s t \<Longrightarrow> shell_keeps s u"
  by (metis shell_keeps_trans shell_keeps_part shell_part_vmm vmm_free_more)

lemma shell_part_slot [simp]: "shell_part (update_slot i g s) = shell_part s"
  by (simp add: shell_part_def update_slot_def)

lemma shell_part_reap: "process_reap i s = Some t \<Longrightarrow> shell_part t = shell_part s"
  by (auto simp: process_reap_def Let_def bind_eq_Some_conv split: if_splits
      dest!: vmm_free_more shell_part_vmm)

lemma shell_part_reap_from: "process_reap_from i k s = Some t \<Longrightarrow> shell_part t = shell_part s"
  by (induction k arbitrary: i s) (auto simp: bind_eq_Some_conv dest: shell_part_reap)

lemma shell_part_create: "process_create X entry n s = Some (p, t) \<Longrightarrow> shell_part t = shell_part s"
  by (auto simp: process_create_def Let_def bind_eq_Some_conv split: option.splits
      dest!: vmm_alloc_more shell_part_vmm)

lemma shell_part_kill [simp]: "shell_part (kill_proc p s) = shell_part s"
  by (simp add: kill_proc_def split: option.split)

text \<open>The drive's operations change memory, the record of port accesses and the driver's status.\<close>

definition ide_only :: "'a ide_state_scheme \<Rightarrow> 'a ide_state_scheme \<Rightarrow> bool" where
  "ide_only s t \<longleftrightarrow> ide_state.more t = ide_state.more s"

lemma ide_only_trans: "ide_only s t \<Longrightarrow> ide_only t u \<Longrightarrow> ide_only s u"
  by (simp add: ide_only_def)

lemma ide_only_io [simp]:
  "ide_only s (snd (inb E p t)) = ide_only s t" "ide_only s (outb p v t) = ide_only s t"
  "ide_only s (t\<lparr>ram := m\<rparr>) = ide_only s t"
  by (simp_all add: ide_only_def inb_def outb_def Let_def)

lemma ide_only_wait: "ide_only s t \<Longrightarrow> ide_only s (snd (ide_wait_ready_impl E base n t))"
proof -
  assume st: "ide_only s t"
  let ?u = "snd (ide_wait_ready_impl E base n t)"
  have "?u = t\<lparr>io_trace := io_trace ?u, ide_last_status := ide_last_status ?u, ide_last_error := ide_last_error ?u\<rparr>"
    using wait_ready_polled [of n t E base] unfolding polled_def by (rule conjunct1)
  from arg_cong [OF this, of ide_state.more] have "ide_state.more ?u = ide_state.more t" by simp
  then show ?thesis using st by (simp add: ide_only_def)
qed

lemma ide_only_400ns: "ide_only s t \<Longrightarrow> ide_only s (ide_wait_400ns E base t)"
  unfolding ide_wait_400ns_def by (rule fold_keeps) simp_all

lemma ide_only_load: "ide_only s t \<Longrightarrow> ide_only s (load_word E base buf i t)"
  by (simp add: load_word_def ide_only_def inw_def Let_def)

lemma ide_only_send: "ide_only s t \<Longrightarrow> ide_only s (send_word base buf i t)"
  by (simp add: send_word_def ide_only_def outw_def)

lemma ide_only_transfer: "ide_only s t \<Longrightarrow> ide_only s (ide_transfer E base write buf i t)"
  by (auto simp: ide_transfer_def intro!: ide_only_400ns intro: fold_keeps [of "ide_only s"] ide_only_load ide_only_send)

lemma ide_only_loop: "ide_only s t \<Longrightarrow> ide_only s (snd (ide_sectors_loop E base write buf i n t))"
proof (induction n arbitrary: i t)
  case (Suc n)
  obtain r u where w: "ide_wait_ready_impl E base 1000000 t = (r, u)" by (metis prod.collapse)
  then have "ide_only s u" using ide_only_wait [OF Suc(2), of E base 1000000] by simp
  then show ?case using Suc(1) [OF ide_only_transfer] by (simp add: w)
qed simp

lemma ide_only_read: "ide_only s (snd (ide_read_sectors E drive lba n buf s))"
proof -
  obtain base sel where d: "drive_base drive = (base, sel)" by (metis prod.collapse)
  let ?c = "ide_wait_400ns E base (ide_command base sel lba n False s)"
  have "ide_only s (ide_command base sel lba n False s)"
    by (simp add: ide_command_def ide_select_drive_def Let_def) (simp add: ide_only_def)
  then have "ide_only s (snd (ide_sectors_loop E base False buf 0 (unat n) ?c))"
    by (intro ide_only_loop ide_only_400ns)
  then show ?thesis
    by (simp add: ide_read_sectors_def ide_read_write_sectors_def d Let_def split_beta) (simp add: ide_only_def)
qed

lemma ide_only_identify: "ide_only s (ide_identify E drive buf s)"
proof -
  obtain base sel where d: "drive_base drive = (base, sel)" by (metis prod.collapse)
  have p: "ide_only s (snd (ide_probe E base sel s))"
    by (simp add: ide_probe_def ide_select_drive_def Let_def) (simp add: ide_only_def)
  then have "ide_only s (fold (load_word E base buf) [0..<256] (snd (ide_wait_ready_impl E base 100000 (snd (ide_probe E base sel s)))))"
    by (intro fold_keeps [of "ide_only s"] ide_only_wait ide_only_load)
  then show ?thesis using p by (simp add: ide_identify_def d Let_def split_beta)
qed

lemma shell_keeps_ide: "ide_only t u \<Longrightarrow> shell_keeps s t \<Longrightarrow> shell_keeps s u"
  by (metis shell_keeps_trans shell_keeps_part shell_part_ide ide_only_def)

text \<open>Every command leaves the arrays in order, the command line alone and a full response.\<close>

definition answers :: "shell_state \<Rightarrow> (u8 list \<times> shell_state) option \<Rightarrow> bool" where
  "answers s x \<longleftrightarrow> (\<forall>r t. x = Some (r, t) \<longrightarrow> length r = LINE_LEN \<and> shell_keeps s t)"

lemma length_blit: "blit k bs arr = Some r \<Longrightarrow> length r = length arr"
  by (auto simp: blit_def split: if_splits)

lemma length_response0 [simp]: "length (response0 P) = LINE_LEN"
  by (simp add: response0_def junk_array_def)

lemma answers_respond: "shell_keeps s t \<Longrightarrow> answers s (respond P str n t)"
  by (auto simp: answers_def respond_def bind_eq_Some_conv dest: length_blit)

lemma answers_bind: "(\<And>a. x = Some a \<Longrightarrow> answers s (f a)) \<Longrightarrow> answers s (Option.bind x f)"
  by (cases x) (auto simp: answers_def)

lemma answers_blit: "blit k bs arr = Some r \<Longrightarrow> length arr = LINE_LEN \<Longrightarrow> shell_keeps s t \<Longrightarrow> answers s (Some (r, t))"
  by (auto simp: answers_def dest: length_blit)

lemma shell_keeps_ide_line: "shell_keeps s (snd ms) \<Longrightarrow> shell_keeps s (snd (ide_line P w ms))"
  by (simp add: ide_line_def Let_def split_beta shell_keeps_history)

lemma shell_keeps_sector_line: "shell_keeps s (snd ls) \<Longrightarrow> shell_keeps s (snd (sector_line P lba n i ls))"
  by (simp add: sector_line_def Let_def split_beta shell_keeps_history)

lemma shell_keeps_info:
  "info_loop P buf start ptr t = Some (b, i, u) \<Longrightarrow> shell_keeps s t \<Longrightarrow> shell_keeps s u"
proof (induction P buf start ptr t rule: info_loop.induct)
  case (1 P buf start ptr t)
  then show ?case
    by (subst (asm) (3) info_loop.simps) (auto simp: Let_def shell_keeps_history split: if_splits)
qed

lemma help_answers: "answers s (cmd_help P s)"
  unfolding cmd_help_def by (intro answers_respond shell_keeps_refl)

lemma info_answers: "answers s (cmd_info P s)"
  unfolding cmd_info_def Let_def split_beta
  by (intro answers_bind answers_respond shell_keeps_history)
    (metis prod.collapse shell_keeps_history shell_keeps_info shell_keeps_refl)

lemma testmem_answers: "answers s (cmd_testmem P s)"
  unfolding cmd_testmem_def Let_def split_beta
  by (intro answers_bind answers_respond)
    (auto split: if_splits intro!: shell_keeps_history elim!: shell_keeps_vmm_free
      intro: shell_keeps_vmm_alloc [OF _ shell_keeps_history])

lemma spawn_answers: "answers s (cmd_spawn P s)"
  unfolding cmd_spawn_def Let_def split_beta
  by (intro answers_bind) (auto intro!: answers_blit shell_keeps_part dest: length_blit shell_part_create)

lemma get_answers: "answers s (cmd_get P s)"
  unfolding cmd_get_def Let_def
  by (auto intro!: answers_bind answers_respond answers_blit shell_keeps_history dest: length_blit split: option.split)

lemma pkill_answers: "answers s (cmd_pkill P s)"
  unfolding cmd_pkill_def Let_def process_check_and_free_def
  by (auto intro!: answers_bind answers_respond shell_keeps_part dest: shell_part_reap_from split: option.split)

lemma ideinfo_answers: "answers s (cmd_ideinfo P s)"
  unfolding cmd_ideinfo_def Let_def
  by (intro answers_respond shell_keeps_ide_line) simp

lemma ideread_answers: "answers s (cmd_ideread P s)"
proof -
  have "shell_keeps s (snd (ide_read_sectors E drive lba n buf s))" for E drive lba n buf
    by (rule shell_keeps_ide [OF ide_only_read shell_keeps_refl])
  then have "shell_keeps s (snd (fold (\<lambda>k. sector_line P a b (k * 16)) ks
      (line, snd (ide_read_sectors E drive lba n buf s))))" for a b ks line E drive lba n buf
    by (intro fold_keeps [of "\<lambda>ls. shell_keeps s (snd ls)"] shell_keeps_sector_line) simp_all
  then show ?thesis
    unfolding cmd_ideread_def Let_def split_beta
    by (auto intro!: answers_respond shell_keeps_ide [OF ide_only_read])
qed

lemma ideident_answers: "answers s (cmd_ideident P s)"
  unfolding cmd_ideident_def Let_def
  by (intro answers_respond)
    (auto intro!: shell_keeps_history shell_keeps_ide_line shell_keeps_ide [OF ide_only_identify]
      simp: ident_string_def ident_number_def)

lemma dispatch_answers: "answers s (dispatch P s)"
  by (simp add: dispatch_def Let_def help_answers info_answers testmem_answers spawn_answers get_answers pkill_answers
      ideinfo_answers ideread_answers ideident_answers answers_respond)

subsection \<open>Rendering and the Enter key\<close>

definition prompt_text :: "u8 list \<Rightarrow> u8 list" where
  "prompt_text line = asc ''OS44 Shell> '' @ line"

lemma blit_exact:
  "length pre = k \<Longrightarrow> length bs = length old \<Longrightarrow> blit k bs (pre @ old @ post) = Some (pre @ bs @ post)"
  by (simp add: blit_def)

lemma prompt_array_text:
  assumes "shell_ok s"
  shows "prompt_array s = Some (prompt_text (shell_line s) @ replicate (67 - length (shell_line s)) 0)"
proof -
  let ?n = "unat (cmd_pos s)"
  note b = shell_ok_bounds [OF assms]
  let ?os = "asc ''OS44 Shell> ''" and ?l = "take ?n (cmd_buf s)"
  have len: "length ?os = 12" "length ?l = ?n" using b by (simp_all add: asc_def)
  have z: "replicate (67 - ?n) (0 :: u8) = [0] @ replicate (66 - ?n) 0"
    using b(1) by (cases "67 - ?n") auto
  have "replicate 67 (0 :: u8) = replicate ?n 0 @ replicate (67 - ?n) 0"
    using b(1) by (simp add: replicate_add [symmetric])
  then have "blit 12 ?l (?os @ replicate 67 0) = Some (?os @ ?l @ replicate (67 - ?n) 0)"
    by (simp only:) (rule blit_exact; simp only: len length_replicate)
  moreover have "blit (12 + ?n) [0] (?os @ ?l @ replicate (67 - ?n) 0) = Some (?os @ ?l @ replicate (67 - ?n) 0)"
    unfolding z using blit_exact [of "?os @ ?l" "12 + ?n" "[0]" "[0]"] len by simp
  moreover have "prompt_array s = Option.bind (blit 12 ?l (?os @ replicate 67 0)) (blit (12 + ?n) [0])"
    by (simp add: prompt_array_def)
  ultimately show ?thesis using len by (simp add: prompt_text_def shell_line_def)
qed

lemma shell_part_prompt_y [simp]: "shell_part (s\<lparr>prompt_y := y\<rparr>) = shell_part s"
  by (simp add: shell_part_def)

lemma fb_clear_ram: "\<exists>m. fb_clear c s = s\<lparr>ram := m\<rparr>"
proof -
  have "\<exists>m. for_range 0 h (\<lambda>y. for_range 0 w (\<lambda>x. fb_put_pixel x y c)) s = s\<lparr>ram := m\<rparr>" for h w
    unfolding for_range_def
    by (intro fold_keeps [of "\<lambda>t. \<exists>m. t = s\<lparr>ram := m\<rparr>"] put_pixel_ram)
      (simp_all add: exI [of _ "ram s"])
  then show ?thesis by (auto simp: fb_clear_def)
qed

lemma shell_render_screen:
  assumes "shell_ok s"
  obtains m y where "shell_render P s = Some (s\<lparr>ram := m, prompt_y := y\<rparr>)"
proof -
  let ?step = "\<lambda>i (y, u). (y + 16, fb_draw_string (history_row P i u) 32 y FB_COLOR_WHITE FB_COLOR_BLACK u)"
  let ?c = "fb_clear FB_COLOR_BLACK s"
  let ?r = "fold ?step [0..<unat (history_lines ?c)] (16, ?c)"
  have "\<exists>m. snd ?r = s\<lparr>ram := m\<rparr>"
    by (rule fold_keeps [of "\<lambda>yu. \<exists>m. snd yu = s\<lparr>ram := m\<rparr>"])
      (simp_all add: split_beta fb_clear_ram draw_string_ram_ex)
  then obtain m where m: "snd ?r = s\<lparr>ram := m\<rparr>" ..
  let ?u = "s\<lparr>ram := m, prompt_y := fst ?r\<rparr>"
  have "shell_part ?u = shell_part s" by (simp add: shell_part_def)
  then have "shell_ok ?u" using shell_part_cong(1) assms by blast
  from prompt_array_text [OF this] obtain p where "prompt_array ?u = Some p" by blast
  then have "shell_render P s = Some (fb_draw_string (c_string p) 32 (fst ?r) FB_COLOR_GREEN FB_COLOR_BLACK ?u)"
    unfolding shell_render_def Let_def by (simp add: split_beta m)
  moreover obtain m' where "fb_draw_string (c_string p) 32 (fst ?r) FB_COLOR_GREEN FB_COLOR_BLACK ?u = ?u\<lparr>ram := m'\<rparr>"
    using draw_string_ram by blast
  ultimately show thesis using that [where m = m' and y = "fst ?r"] by simp
qed

lemma shell_render_part:
  assumes "shell_ok s"
  obtains t where "shell_render P s = Some t" "shell_part t = shell_part s"
proof -
  obtain m y where "shell_render P s = Some (s\<lparr>ram := m, prompt_y := y\<rparr>)"
    by (rule shell_render_screen [OF assms])
  then show thesis by (rule that) (simp add: shell_part_def)
qed

text \<open>The Enter key: the prompt goes to the history, then the command's lines and its response.\<close>

lemma shell_ok_terminate:
  assumes "shell_ok s" "u = s\<lparr>cmd_buf := (cmd_buf s)[unat (cmd_pos s) := 0]\<rparr>"
  shows "shell_ok u" "shell_line u = shell_line s" "shown u = shown s"
  using shell_ok_bounds [OF assms(1)] assms(1) unfolding assms(2)
  by (simp_all add: shell_ok_def shell_line_def shown_def nth_list_update)

lemma shell_ok_reset: "shell_ok s \<Longrightarrow> shell_ok (s\<lparr>cmd_pos := 0\<rparr>)"
  by (simp add: shell_ok_def)

lemma execute_command_steps:
  assumes "shell_ok s" "cmd_pos s \<noteq> 0"
  obtains u where "shell_ok u" "cmd_buf u = (cmd_buf s)[unat (cmd_pos s) := 0]"
    "shown u = last_rows (shown s @ [read_n (junk P 20) LINE_LEN
       (prompt_text (shell_line s) @ replicate (67 - length (shell_line s)) 0)])"
    "proc_table u = proc_table s"
    "execute_command P s = do { (response, v) \<leftarrow> dispatch P u;
       shell_render P (add_to_history (junk P 21) response v\<lparr>cmd_pos := 0\<rparr>) }"
proof -
  let ?s = "s\<lparr>cmd_buf := (cmd_buf s)[unat (cmd_pos s) := 0]\<rparr>"
  note t = shell_ok_terminate [OF assms(1) refl]
  show thesis
  proof (rule that [of "add_to_history (junk P 20) (prompt_text (shell_line s) @ replicate (67 - length (shell_line s)) 0) ?s"])
  qed (use assms(2) t add_to_history_shown [OF t(1)] prompt_array_text [OF t(1)] in
    \<open>simp_all add: execute_command_def add_to_history_def Let_def\<close>)
qed

lemma execute_command_keeps:
  assumes "shell_ok s" "execute_command P s = Some t"
  shows "shell_ok t \<and> cmd_pos t = 0"
proof (cases "cmd_pos s = 0")
  case True
  then show ?thesis using assms by (simp add: execute_command_def)
next
  case False
  obtain u where u: "shell_ok u" "execute_command P s = do { (response, v) \<leftarrow> dispatch P u;
       shell_render P (add_to_history (junk P 21) response v\<lparr>cmd_pos := 0\<rparr>) }"
    using execute_command_steps [OF assms(1) False] by metis
  then obtain r v where d: "dispatch P u = Some (r, v)"
    "shell_render P (add_to_history (junk P 21) r v\<lparr>cmd_pos := 0\<rparr>) = Some t"
    using assms(2) by (cases "dispatch P u") auto
  let ?w = "add_to_history (junk P 21) r v\<lparr>cmd_pos := 0\<rparr>"
  have "shell_ok v" using dispatch_answers [of u P] d(1) u(1) by (simp add: answers_def shell_keeps_def)
  then have w: "shell_ok ?w" by (intro shell_ok_reset add_to_history_shown(1))
  then have "shell_part t = shell_part ?w" using d(2) by (metis option.inject shell_render_part)
  then show ?thesis using w shell_part_cong(1) [of t ?w] by (simp add: shell_part_def)
qed

subsection \<open>Recognising commands\<close>

lemma strcmp_zero: "0 \<notin> set xs \<Longrightarrow> 0 \<notin> set ys \<Longrightarrow> strcmp xs ys = 0 \<longleftrightarrow> xs = ys"
  by (induction xs ys rule: strcmp.induct) (auto simp: uint_0_iff dest: word_uint_eqI)

lemma c_string_nonzero [simp]: "0 \<notin> set (c_string xs)"
  by (auto simp: c_string_def dest: set_takeWhileD)

lemma c_string_cut: "c_string (xs @ 0 # ys) = c_string xs"
  by (simp add: c_string_def takeWhile_tail)

lemma take_cut:
  assumes "0 \<notin> set w" "length w = n"
  shows "take n (xs @ 0 # ys) = w \<longleftrightarrow> take n xs = w"
proof (cases "n \<le> length xs")
  case False
  then have "0 \<in> set (take n (xs @ 0 # ys))" by (simp add: take_Cons')
  then have "take n (xs @ 0 # ys) \<noteq> w" using assms(1) by blast
  moreover have "length (take n xs) \<noteq> length w" using False assms(2) by simp
  ultimately show ?thesis by metis
qed simp

definition whole_commands :: "u8 list set" where
  "whole_commands = {asc ''help'', asc ''info'', asc ''testmem'', asc ''spawn'', asc ''ideinfo'', asc ''ideident''}"

definition unknown_line :: "u8 list \<Rightarrow> bool" where
  "unknown_line line \<longleftrightarrow> c_string line \<notin> whole_commands \<and>
     take 3 line \<noteq> asc ''get'' \<and> take 5 line \<noteq> asc ''pkill'' \<and> take 7 line \<noteq> asc ''ideread''"

lemma strcmp_command: "0 \<notin> set w \<Longrightarrow> strcmp (c_string (xs @ 0 # ys)) w = 0 \<longleftrightarrow> c_string xs = w"
  by (simp add: strcmp_zero c_string_cut del: c_string_nonzero) (metis c_string_nonzero strcmp_zero)

lemma respond_text:
  assumes "length str = n" "n \<le> 80"
  shows "respond P str n s = Some (asc str @ map (junk P 0) [n..<80], s)"
proof -
  have "read_n (junk P 1) n (lit str) = asc str"
    using assms(1) by (intro nth_equalityI) (simp_all add: read_n_def lit_def asc_def nth_append)
  moreover have "drop n (response0 P) = map (junk P 0) [n..<80]"
    by (simp add: response0_def junk_array_def drop_map)
  moreover have "blit 0 bs (response0 P) = Some (bs @ drop n (response0 P))" if "length bs = n" for bs
    using blit_exact [of "[]" 0 bs "take n (response0 P)" "drop n (response0 P)"] that assms(2) by simp
  ultimately show ?thesis using assms(1) by (simp add: respond_def asc_def)
qed

lemma dispatch_unknown:
  assumes "cmd_buf s = line @ 0 # rest" "unknown_line line"
  shows "dispatch P s = Some (asc ''Unknown command'' @ map (junk P 0) [15..<80], s)"
proof -
  have "dispatch P s = respond P ''Unknown command'' 15 s"
    using assms(2) by (simp add: dispatch_def Let_def assms(1) unknown_line_def whole_commands_def
        strcmp_command take_cut asc_def del: take_append)
  then show ?thesis by (simp only:) (rule respond_text; simp)
qed

lemma dispatch_pkill:
  assumes "cmd_buf s = asc ''pkill '' @ line @ 0 # rest"
  shows "dispatch P s = cmd_pkill P s"
proof -
  have c: "c_string (cmd_buf s) = 112 # c_string (tl (cmd_buf s))" by (simp add: assms asc_def c_string_def)
  have "strcmp (c_string (cmd_buf s)) w \<noteq> 0" if "0 \<notin> set w" "hd w \<noteq> 112" for w
    using strcmp_zero [OF c_string_nonzero that(1), of "cmd_buf s"] c that(2) by force
  then have "\<forall>w \<in> whole_commands. strcmp (c_string (cmd_buf s)) w \<noteq> 0"
    by (simp add: whole_commands_def asc_def)
  moreover have "take 3 (cmd_buf s) \<noteq> asc ''get''" "take 5 (cmd_buf s) = asc ''pkill''"
    by (simp_all add: assms asc_def)
  ultimately show ?thesis by (simp add: dispatch_def Let_def whole_commands_def)
qed

lemma dispatch_help:
  assumes "cmd_buf s = asc ''help'' @ 0 # rest"
  shows "dispatch P s = None"
proof -
  have "cmd_help P s = None" by (simp add: cmd_help_def respond_def blit_def)
  then show ?thesis by (simp add: dispatch_def assms strcmp_command) (simp add: asc_def c_string_def)
qed

lemma terminated_buffer:
  assumes "shell_ok s"
  shows "(cmd_buf s)[unat (cmd_pos s) := 0] = shell_line s @ 0 # drop (Suc (unat (cmd_pos s))) (cmd_buf s)"
  using shell_ok_bounds [OF assms] by (simp add: shell_line_def upd_conv_take_nth_drop)

lemma last_rows_again: "last_rows (last_rows rows @ [r]) = last_rows (rows @ [r])"
  by (rule last_rows_append)

subsection \<open>Numbers\<close>

definition dec_step :: "u64 \<Rightarrow> u8 \<Rightarrow> u64" where
  "dec_step r c = r * 10 + (ucast c - 48)"

lemma atoi_from_digits:
  "\<forall>c \<in> set ds. 48 \<le> c \<and> c \<le> 57 \<Longrightarrow> atoi_from r (ds @ 0 # rest) = foldl dec_step r ds"
  by (induction ds arbitrary: r) (simp_all add: dec_step_def)

lemma digit_byte:
  fixes v :: u64
  defines "c \<equiv> 48 + ucast (v mod 10) :: u8"
  shows "48 \<le> c" "c \<le> 57" "dec_step r c = r * 10 + v mod 10"
proof -
  have m: "unat (v mod 10) < 10" by (simp add: unat_mod)
  have c: "unat c = 48 + unat (v mod 10)"
    using m by (simp add: c_def unat_word_ariths unsigned_ucast_eq take_bit_eq_mod unat_mod)
  then show "48 \<le> c" "c \<le> 57" using m by (simp_all add: word_le_nat_alt)
  have "unat (ucast c :: u64) = 48 + unat (v mod 10)"
    using c m by (simp add: unsigned_ucast_eq take_bit_eq_mod)
  then have "(ucast c :: u64) = 48 + v mod 10"
    using m by (intro word_unat_eq_iff [THEN iffD2]) (simp add: unat_word_ariths)
  then show "dec_step r c = r * 10 + v mod 10" by (simp add: dec_step_def)
qed

lemma dec_tmp_digits: "\<forall>c \<in> set (dec_tmp n v). 48 \<le> c \<and> c \<le> 57"
proof (induction n arbitrary: v)
  case (Suc n)
  then show ?case using digit_byte(1,2) [of v] by auto
qed simp

lemma dec_tmp_fold: "unat v < 10 ^ n \<Longrightarrow> foldl dec_step 0 (rev (dec_tmp n v)) = v"
proof (induction n arbitrary: v)
  case (Suc n)
  then have "unat (v div 10) < 10 ^ n" by (simp add: unat_div less_mult_imp_div_less)
  then have "foldl dec_step 0 (rev (dec_tmp n (v div 10))) = v div 10" by (rule Suc.IH)
  then show ?case using digit_byte(3) [of "v div 10" v] div_mult_mod_eq [of v 10] by (simp add: word_gt_0)
qed (simp add: unat_eq_zero)

lemma dec_tmp_long: "10 ^ k \<le> unat v \<Longrightarrow> k < n \<Longrightarrow> k < length (dec_tmp n v)"
proof (induction n arbitrary: k v)
  case (Suc n)
  have "0 < (10 :: nat) ^ k" by simp
  then have "0 < unat v" using Suc.prems(1) by linarith
  then have pos: "0 < v" by (simp add: word_less_nat_alt)
  show ?case
  proof (cases k)
    case (Suc j)
    have "10 ^ k div 10 \<le> unat v div 10" by (rule div_le_mono [OF Suc.prems(1)])
    then have "10 ^ j \<le> unat (v div 10)" by (simp add: unat_div Suc)
    then have "j < length (dec_tmp n (v div 10))" using Suc.prems(2) Suc by (intro Suc.IH) simp_all
    then show ?thesis using pos Suc by simp
  qed (use pos in simp)
qed simp

text \<open>\<open>atoi\<close> reads back what the decimal conversion wrote.\<close>

lemma atoi_digits: "unat v < 10 ^ n \<Longrightarrow> atoi (rev (dec_tmp n v) @ 0 # rest) = v"
  using atoi_from_digits [of "rev (dec_tmp n v)" 0 rest] dec_tmp_digits [of n v] dec_tmp_fold [of v n]
  by (simp add: atoi_def)

lemma u64_below: "unat (v :: u64) < 10 ^ 20"
proof -
  have "unat v < 2 ^ 64" using unsigned_less [of v] by simp
  then show ?thesis by simp
qed

lemma atoi_dec_text: "atoi (dec_text v @ 0 # rest) = v"
proof (cases "v = 0")
  case False
  have "unat v < 10 ^ 24" using u64_below [of v] by simp
  then show ?thesis using False atoi_digits [of v 24 rest] by (simp add: dec_text_def)
qed (simp add: dec_text_def atoi_def)

subsection \<open>Properties\<close>

definition sample_env :: shell_env where
  "sample_env = \<lparr>sh_io = \<lambda>_ _. 0, sh_mmu = \<lambda>_ _ va. Some va, junk = \<lambda>_ _. 0xCC, after_history = [0], test_entry = 0x4000,
     msg_addr = 0x7F00, sector_buf = 0x6000, identify_buf = 0x5000, sysinfo_string = \<lambda>_. [0]\<rparr>"

definition sample_shell :: "string \<Rightarrow> shell_state" where
  "sample_shell str = sys_state.extend (sys_state.truncate (sample_sys 0))
     \<lparr>cmd_buf = asc str @ replicate (64 - length str) 0, cmd_pos = of_nat (length str),
      terminal_history = replicate 20 (replicate 80 0), history_lines = 0, prompt_y = 16\<rparr>"

lemma sample_shell_fields [simp]:
  "cmd_buf (sample_shell str) = asc str @ replicate (64 - length str) 0"
  "cmd_pos (sample_shell str) = of_nat (length str)"
  "terminal_history (sample_shell str) = replicate 20 (replicate 80 0)"
  "history_lines (sample_shell str) = 0"
  by (simp_all add: sample_shell_def sys_state.defs)

lemma sample_shell_ok:
  assumes "length str < 64"
  shows "shell_ok (sample_shell str)" "shell_line (sample_shell str) = asc str" "shown (sample_shell str) = []"
proof -
  have "unat (of_nat (length str) :: u64) = length str" using assms by (intro unat_of_nat_u64) simp
  then show "shell_ok (sample_shell str)" "shell_line (sample_shell str) = asc str" "shown (sample_shell str) = []"
    using assms by (simp_all add: shell_ok_def shell_line_def shown_def asc_def nth_append word_less_nat_alt)
qed

lemma shell_backspace:
  assumes "shell_ok s" "0 < cmd_pos s"
  shows "shell_ok (s\<lparr>cmd_pos := cmd_pos s - 1, ram := m\<rparr>)"
    "shell_line (s\<lparr>cmd_pos := cmd_pos s - 1, ram := m\<rparr>) = butlast (shell_line s)"
    "shown (s\<lparr>cmd_pos := cmd_pos s - 1, ram := m\<rparr>) = shown s"
proof -
  note b = shell_ok_bounds [OF assms(1)]
  have n: "unat (cmd_pos s - 1) = unat (cmd_pos s) - 1"
    using assms(2) by (intro unat_minus_one) simp
  then show "shell_ok (s\<lparr>cmd_pos := cmd_pos s - 1, ram := m\<rparr>)"
    using assms(1) b(1) by (simp add: shell_ok_def word_less_nat_alt)
  show "shell_line (s\<lparr>cmd_pos := cmd_pos s - 1, ram := m\<rparr>) = butlast (shell_line s)"
    "shown (s\<lparr>cmd_pos := cmd_pos s - 1, ram := m\<rparr>) = shown s"
    using b by (simp_all add: shell_line_def shown_def n butlast_take)
qed

lemma shell_type:
  assumes "shell_ok s" "cmd_pos s < 63"
    and "t = s\<lparr>cmd_buf := (cmd_buf s)[unat (cmd_pos s) := c], cmd_pos := cmd_pos s + 1, ram := m\<rparr>"
  shows "shell_ok t" "shell_line t = shell_line s @ [c]" "shown t = shown s"
proof -
  note b = shell_ok_bounds [OF assms(1)]
  have n: "unat (cmd_pos s) < 63" using assms(2) by (simp add: word_less_nat_alt)
  have n1: "unat (cmd_pos s + 1) = Suc (unat (cmd_pos s))"
    using assms(2) unat_add_lem [THEN iffD1, of "cmd_pos s" 1] n by simp
  then show "shell_ok t"
    using assms(1) n unfolding shell_ok_def assms(3) by (simp add: word_less_nat_alt)
  show "shell_line t = shell_line s @ [c]" "shown t = shown s"
    using n b by (simp_all add: assms(3) shell_line_def shown_def n1 take_Suc_conv_app_nth)
qed

lemma shell_line_edited:
  assumes "shell_ok s" "c \<noteq> 10" "c \<noteq> 13"
  shows "\<exists>t. shell_putc P c s = Some t \<and> shell_ok t \<and> shown t = shown s \<and>
    shell_line t = (if c = 8 then butlast (shell_line s)
                    else if length (shell_line s) < 63 then shell_line s @ [c] else shell_line s) \<and>
    t = s\<lparr>ram := ram t, cmd_buf := cmd_buf t, cmd_pos := cmd_pos t\<rparr>"
proof -
  have drawn: "\<exists>m. fb_draw_string str x y fg bg u = u\<lparr>ram := m\<rparr>" for str x y fg bg and u :: shell_state
    by (rule draw_string_ram)
  have len: "length (shell_line s) = unat (cmd_pos s)"
    using shell_ok_bounds [OF assms(1)] by (simp add: shell_line_def)
  consider "c = 8" "0 < cmd_pos s" | "c = 8" "cmd_pos s = 0" | "c \<noteq> 8" "cmd_pos s < 63" | "c \<noteq> 8" "\<not> cmd_pos s < 63"
    by (metis word_gt_0)
  then show ?thesis
  proof cases
    case 1
    obtain m where "shell_putc P c s = Some (s\<lparr>cmd_pos := cmd_pos s - 1, ram := m\<rparr>)"
      using drawn 1 by (simp add: shell_putc_def Let_def del: fb_draw_string.simps) metis
    then show ?thesis using shell_backspace [OF assms(1) 1(2), of m] 1 by simp
  next
    case 3
    obtain m where t: "shell_putc P c s =
        Some (s\<lparr>cmd_buf := (cmd_buf s)[unat (cmd_pos s) := c], cmd_pos := cmd_pos s + 1, ram := m\<rparr>)"
      using drawn 3 assms by (simp add: shell_putc_def Let_def del: fb_draw_string.simps) metis
    then show ?thesis using shell_type [OF assms(1) 3(2) refl, where c = c and m = m] 3 len by (simp add: word_less_nat_alt)
  next
    case 2
    then show ?thesis using assms len by (simp add: shell_putc_def)
  next
    case 4
    then show ?thesis using assms len by (simp add: shell_putc_def word_less_nat_alt)
  qed
qed

text \<open>C12: typing refines editing a line of at most 63 bytes: a backspace removes its last byte,
  any other byte but the two line ends is appended while there is room; the history stays as
  it is, and nothing but memory (the screen), the command buffer and its cursor changes.\<close>

theorem shell_edits_line:
  assumes "shell_ok s" "c \<noteq> 10" "c \<noteq> 13"
  shows "\<exists>t. shell_putc P c s = Some t \<and> shell_ok t \<and> shown t = shown s \<and>
    shell_line t = (if c = 8 then butlast (shell_line s)
                    else if length (shell_line s) < 63 then shell_line s @ [c] else shell_line s) \<and>
    t = s\<lparr>ram := ram t, cmd_buf := cmd_buf t, cmd_pos := cmd_pos t\<rparr>"
  by (rule shell_line_edited [OF assms])

theorem shell_edits_line_witness:
  "\<exists>t. shell_putc sample_env 8 (sample_shell ''info'') = Some t \<and> shell_line t = asc ''inf''"
proof -
  have ok: "shell_ok (sample_shell ''info'')" "shell_line (sample_shell ''info'') = asc ''info''"
    by (rule sample_shell_ok; simp)+
  obtain t where "shell_putc sample_env 8 (sample_shell ''info'') = Some t" "shell_line t = butlast (asc ''info'')"
    using shell_edits_line [OF ok(1), of 8 sample_env] ok(2) by auto
  then show ?thesis by (simp add: asc_def)
qed

text \<open>C20: whatever key is pressed in whatever state of the devices, a key that returns keeps the
  command line and the history inside their arrays, and the Enter key leaves an empty line.\<close>

theorem shell_keeps_arrays:
  assumes "shell_ok s" "shell_putc P c s = Some t"
  shows "shell_ok t \<and> (c = 10 \<or> c = 13 \<longrightarrow> shell_line t = [])"
proof (cases "c = 10 \<or> c = 13")
  case True
  then have "execute_command P s = Some t" using assms(2) by (auto simp: shell_putc_def)
  then show ?thesis using execute_command_keeps [OF assms(1)] by (simp add: shell_line_def)
next
  case False
  then obtain u where "shell_putc P c s = Some u" "shell_ok u"
    using shell_line_edited [OF assms(1)] by metis
  then show ?thesis using False assms(2) by simp
qed

text \<open>
  The Enter key on a line: \<open>u\<close> is the state in which the command runs. When it answers \<open>r\<close> in the
  state \<open>v\<close>, the key returns and differs from \<open>v\<close> in the history, the cursor and the screen.
\<close>

definition after_enter :: "shell_state \<Rightarrow> shell_state \<Rightarrow> bool" where
  "after_enter v t \<longleftrightarrow> (\<exists>m h n y. t = v\<lparr>ram := m, terminal_history := h, history_lines := n, cmd_pos := 0, prompt_y := y\<rparr>)"

definition prompt_row :: "shell_env \<Rightarrow> u8 list \<Rightarrow> u8 list" where
  "prompt_row P line = read_n (junk P 20) 80 (prompt_text line @ replicate (67 - length line) 0)"

lemma add_to_history_fields:
  obtains h n where "add_to_history f str s = s\<lparr>terminal_history := h, history_lines := n\<rparr>"
proof (cases "history_lines s < 20")
  case False
  then show thesis by (intro that [where n = "history_lines s"]) (simp add: add_to_history_def Let_def)
qed (auto intro: that simp: add_to_history_def Let_def)

lemma shell_enter:
  assumes "shell_ok s" "shell_line s \<noteq> []"
  obtains b h n where
    "b = shell_line s @ 0 # drop (Suc (unat (cmd_pos s))) (cmd_buf s)"
    "shell_ok (s\<lparr>cmd_buf := b, terminal_history := h, history_lines := n\<rparr>)"
    "shown (s\<lparr>cmd_buf := b, terminal_history := h, history_lines := n\<rparr>) = last_rows (shown s @ [prompt_row P (shell_line s)])"
    "\<And>r v. dispatch P (s\<lparr>cmd_buf := b, terminal_history := h, history_lines := n\<rparr>) = Some (r, v) \<Longrightarrow>
       \<exists>t. shell_putc P 13 s = Some t \<and> shell_ok t \<and> shell_line t = [] \<and>
         shown t = last_rows (shown v @ [r]) \<and> after_enter v t"
    "dispatch P (s\<lparr>cmd_buf := b, terminal_history := h, history_lines := n\<rparr>) = None \<Longrightarrow> shell_putc P 13 s = None"
proof -
  define b where "b = shell_line s @ 0 # drop (Suc (unat (cmd_pos s))) (cmd_buf s)"
  let ?s = "s\<lparr>cmd_buf := b\<rparr>"
  have b: "b = (cmd_buf s)[unat (cmd_pos s) := 0]" by (simp add: b_def terminated_buffer [OF assms(1)])
  note t = shell_ok_terminate [OF assms(1) refl, folded b]
  let ?p = "prompt_text (shell_line s) @ replicate (67 - length (shell_line s)) 0"
  obtain h n where hn: "add_to_history (junk P 20) ?p ?s = ?s\<lparr>terminal_history := h, history_lines := n\<rparr>"
    by (rule add_to_history_fields)
  let ?u = "s\<lparr>cmd_buf := b, terminal_history := h, history_lines := n\<rparr>"
  have u: "shell_ok ?u" "shown ?u = last_rows (shown s @ [prompt_row P (shell_line s)])"
    using add_to_history_shown [OF t(1), of "junk P 20" ?p] hn t(3) by (simp_all add: prompt_row_def)
  have "cmd_pos s \<noteq> 0" using assms(2) by (auto simp: shell_line_def)
  then have e: "shell_putc P 13 s = do { (response, v) \<leftarrow> dispatch P ?u;
       shell_render P (add_to_history (junk P 21) response v\<lparr>cmd_pos := 0\<rparr>) }"
    using prompt_array_text [OF t(1)] t(2) hn by (simp add: shell_putc_def execute_command_def Let_def b [symmetric])
  show thesis
  proof (rule that)
    show "dispatch P ?u = None \<Longrightarrow> shell_putc P 13 s = None" by (simp add: e)
    fix r v
    assume d: "dispatch P ?u = Some (r, v)"
    then have v: "length r = LINE_LEN" "shell_ok v" "cmd_pos v = cmd_pos ?u"
      using dispatch_answers [of ?u P] u(1) by (simp_all add: answers_def shell_keeps_def)
    obtain h' n' where w: "add_to_history (junk P 21) r v = v\<lparr>terminal_history := h', history_lines := n'\<rparr>"
      by (rule add_to_history_fields)
    let ?w = "v\<lparr>terminal_history := h', history_lines := n'\<rparr>"
    have ok: "shell_ok ?w" "shown ?w = last_rows (shown v @ [r])"
      using add_to_history_shown [OF v(2), of "junk P 21" r] w read_n_all [OF v(1)] by simp_all
    obtain m y where "shell_render P (?w\<lparr>cmd_pos := 0\<rparr>) = Some (?w\<lparr>cmd_pos := 0, ram := m, prompt_y := y\<rparr>)"
      by (rule shell_render_screen [OF shell_ok_reset [OF ok(1)]])
    moreover have "shell_ok (?w\<lparr>cmd_pos := 0, ram := m, prompt_y := y\<rparr>)"
      using ok(1) by (simp add: shell_ok_def)
    moreover have "after_enter v (?w\<lparr>cmd_pos := 0, ram := m, prompt_y := y\<rparr>)"
      unfolding after_enter_def by (intro exI [of _ m] exI [of _ h'] exI [of _ n'] exI [of _ y]) simp
    ultimately show "\<exists>t. shell_putc P 13 s = Some t \<and> shell_ok t \<and> shell_line t = [] \<and>
         shown t = last_rows (shown v @ [r]) \<and> after_enter v t"
      using ok(2) by (intro exI [of _ "?w\<lparr>cmd_pos := 0, ram := m, prompt_y := y\<rparr>"])
        (simp add: e d w shown_def shell_line_def)
  qed (use u in \<open>simp_all add: b_def\<close>)
qed

lemma shell_enter_unknown:
  assumes "shell_ok s" "shell_line s \<noteq> []" "unknown_line (shell_line s)"
  shows "\<exists>t. shell_putc P 13 s = Some t \<and> shell_ok t \<and> shell_line t = [] \<and>
    shown t = last_rows (shown s @ [prompt_row P (shell_line s), asc ''Unknown command'' @ map (junk P 0) [15..<80]]) \<and>
    proc_table t = proc_table s"
proof (rule shell_enter [OF assms(1,2), of P])
  fix b h n
  let ?u = "s\<lparr>cmd_buf := b, terminal_history := h, history_lines := n\<rparr>"
  let ?r = "asc ''Unknown command'' @ map (junk P 0) [15..<80]"
  assume b: "b = shell_line s @ 0 # drop (Suc (unat (cmd_pos s))) (cmd_buf s)"
    and u: "shown ?u = last_rows (shown s @ [prompt_row P (shell_line s)])"
    and t: "\<And>r v. dispatch P ?u = Some (r, v) \<Longrightarrow> \<exists>t. shell_putc P 13 s = Some t \<and> shell_ok t \<and> shell_line t = [] \<and>
         shown t = last_rows (shown v @ [r]) \<and> after_enter v t"
  have "dispatch P ?u = Some (?r, ?u)" by (rule dispatch_unknown [OF _ assms(3)]) (simp add: b)
  from t [OF this] show ?thesis
    by (elim exE conjE) (auto simp only: u last_rows_again append_assoc append_Cons append_Nil after_enter_def,
        simp add: u last_rows_again [of "shown s @ [prompt_row P (shell_line s)]", simplified])
qed

theorem shell_keeps_arrays_witness:
  "(case shell_putc sample_env 13 (sample_shell ''hello'') of None \<Rightarrow> False | Some t \<Rightarrow> shell_ok t \<and> shell_line t = [])"
proof -
  let ?s = "sample_shell ''hello''"
  have ok: "shell_ok ?s" "shell_line ?s = asc ''hello''" by (rule sample_shell_ok; simp)+
  have "unknown_line (asc ''hello'')" "asc ''hello'' \<noteq> []"
    by (simp_all add: unknown_line_def whole_commands_def asc_def c_string_def)
  then obtain t where "shell_putc sample_env 13 ?s = Some t" using shell_enter_unknown [OF ok(1), of sample_env] ok(2) by auto
  then show ?thesis using shell_keeps_arrays [OF ok(1), of sample_env 13 t] by simp
qed

text \<open>the Enter key on a line that is no command appends exactly two rows to the history and
  drops the oldest rows beyond 20: the prompt with the line, then the words \<^verbatim>\<open>Unknown command\<close>
  followed not by a NUL but by what the uninitialised response array held; the line is empty
  afterwards and no process was touched.\<close>

theorem shell_unknown_command:
  assumes "shell_ok s" "shell_line s \<noteq> []" "unknown_line (shell_line s)"
  shows "\<exists>t. shell_putc P 13 s = Some t \<and> shell_ok t \<and> shell_line t = [] \<and>
    shown t = last_rows (shown s @ [prompt_row P (shell_line s), asc ''Unknown command'' @ map (junk P 0) [15..<80]]) \<and>
    proc_table t = proc_table s"
  by (rule shell_enter_unknown [OF assms])

theorem shell_unknown_command_witness:
  "(case shell_putc sample_env 13 (sample_shell ''Help'') of None \<Rightarrow> False
    | Some t \<Rightarrow> length (shown t) = 2 \<and> take 15 (shown t ! 1) = asc ''Unknown command'' \<and> shown t ! 1 ! 15 = junk sample_env 0 15)"
proof -
  let ?s = "sample_shell ''Help''" and ?r = "asc ''Unknown command'' @ map (junk sample_env 0) [15..<80]"
  have ok: "shell_ok ?s" "shell_line ?s = asc ''Help''" "shown ?s = []" by (rule sample_shell_ok; simp)+
  have "unknown_line (asc ''Help'')" "asc ''Help'' \<noteq> []"
    by (simp_all add: unknown_line_def whole_commands_def asc_def c_string_def)
  then obtain t p where "shell_putc sample_env 13 ?s = Some t" "shown t = last_rows [p, ?r]"
    using shell_unknown_command [OF ok(1), of sample_env] ok(2,3) by auto
  moreover have "last_rows [p, ?r] = [p, ?r]" by (simp add: last_rows_def)
  moreover have "take 15 ?r = asc ''Unknown command'' \<and> ?r ! 15 = junk sample_env 0 15"
    by (simp add: asc_def nth_append upt_rec)
  ultimately show ?thesis by simp
qed

text \<open>the \<^verbatim>\<open>help\<close> command never returns properly: it copies 100 bytes into the response
  array of 80.\<close>

theorem shell_help_overflows:
  assumes "shell_ok s" "shell_line s = asc ''help''"
  shows "shell_putc P 13 s = None"
proof (rule shell_enter [OF assms(1), of P])
  show "shell_line s \<noteq> []" by (simp add: assms(2) asc_def)
qed (simp add: assms(2) dispatch_help)

theorem shell_help_overflows_witness: "shell_putc sample_env 13 (sample_shell ''help'') = None"
  by (rule shell_help_overflows; rule sample_shell_ok; simp)

text \<open>C35: a number survives its conversion to text and back: in a buffer of 20 bytes, \<^verbatim>\<open>itoa\<close> stores
  the digits of every number below 10 to the 19th, and \<^verbatim>\<open>atoi\<close> reads the number back; the larger
  64-bit numbers have 20 digits and no room for the terminator.\<close>

theorem shell_number_roundtrip:
  assumes "length buf = 20"
  shows "if unat v < 10 ^ 19 then \<exists>b. itoa v buf = Some b \<and> length b = 20 \<and> atoi b = v else itoa v buf = None"
proof (cases "v = 0")
  case True
  then show ?thesis using assms by (simp add: itoa_def blit_def atoi_def)
next
  case False
  let ?ds = "rev (dec_tmp 20 v)"
  have fits: "itoa v buf = (if length ?ds < 20 then Some (?ds @ 0 # drop (length ?ds + 1) buf) else None)"
    using False assms by (auto simp: itoa_def blit_def)
  show ?thesis
  proof (cases "unat v < 10 ^ 19")
    case True
    have "atoi (?ds @ 0 # drop (length ?ds + 1) buf) = v" by (rule atoi_digits [OF u64_below])
    moreover have "length ?ds \<le> 19" using dec_tmp_short [OF True, of 20] by simp
    ultimately show ?thesis using True fits assms by auto
  next
    case long: False
    then have "19 < length (dec_tmp 20 v)" by (intro dec_tmp_long) simp_all
    then show ?thesis using long fits by simp
  qed
qed

theorem shell_number_roundtrip_witness:
  "(\<exists>b. itoa 1234567890 (replicate 20 0) = Some b \<and> atoi b = 1234567890) \<and>
   itoa 10000000000000000000 (replicate 20 0) = None"
  using shell_number_roundtrip [of "replicate 20 0" 1234567890]
    shell_number_roundtrip [of "replicate 20 0" 10000000000000000000] by auto

lemma after_enter_fields:
  assumes "after_enter v t"
  shows "proc_table t = proc_table v" "proc_inv t = proc_inv v" "vmm_rep t rs = vmm_rep v rs"
  using assms by (auto simp: after_enter_def proc_inv_def vmm_rep_def)

lemma dispatch_pkill_run:
  assumes "cmd_buf u = (asc ''pkill '' @ dec_text v) @ 0 # rest" "v \<noteq> 0" "v \<in> pid ` set (proc_table u)"
    and "proc_inv u" "vmm_rep u rs"
  obtains w where "dispatch P u = Some (asc ''Killed PID'' @ map (junk P 0) [10..<80], w)"
    "shell_part w = shell_part u" "proc_inv w"
    "proc_table w = map (\<lambda>e. if pid e = v then e\<lparr>pid := 0, status := PROC_TERMINATED\<rparr> else reap_entry e) (proc_table u)"
    "vmm_rep w (fold reap_region (proc_table (kill_proc v u)) rs)"
proof -
  obtain w where w: "process_check_and_free (kill_proc v u) = Some w" "proc_inv w"
    "proc_table w = map (\<lambda>e. if pid e = v then e\<lparr>pid := 0, status := PROC_TERMINATED\<rparr> else reap_entry e) (proc_table u)"
    "vmm_rep w (fold reap_region (proc_table (kill_proc v u)) rs)"
    using kill_reaps [OF assms(4,5,2)] by blast
  have "atoi (drop 6 (cmd_buf u)) = v"
    using atoi_dec_text [of v rest] by (simp add: assms(1) asc_def)
  moreover obtain i where "get_proc_by_pid v u = Some i"
    using assms(3) find_slot_None [of v 0 "proc_table u"] by (auto simp: get_proc_by_pid_def)
  moreover have "respond P ''Killed PID'' 10 w = Some (asc ''Killed PID'' @ map (junk P 0) [10..<80], w)"
    by (rule respond_text) simp_all
  ultimately have "dispatch P u = Some (asc ''Killed PID'' @ map (junk P 0) [10..<80], w)"
    using dispatch_pkill [of u "dec_text v" rest P] assms(1) w(1) by (simp add: cmd_pkill_def)
  moreover have "shell_part w = shell_part u"
    using shell_part_reap_from w(1) by (metis process_check_and_free_def shell_part_kill)
  ultimately show thesis using w(2-4) by (intro that)
qed

text \<open>C13: Enter on \<^verbatim>\<open>pkill\<close> and the number of a process kills it: the process and every other
  terminated one leave the table, their regions are given back, the other processes stay as
  they were, the table stays well formed, and the history shows the prompt and the answer.\<close>

theorem shell_pkill_kills:
  assumes "shell_ok s" "shell_line s = asc ''pkill '' @ dec_text v"
    and "v \<noteq> 0" "v \<in> pid ` set (proc_table s)" "proc_inv s" "vmm_rep s rs"
  shows "\<exists>t. shell_putc P 13 s = Some t \<and> shell_ok t \<and> shell_line t = [] \<and> proc_inv t \<and>
    proc_table t = map (\<lambda>e. if pid e = v then e\<lparr>pid := 0, status := PROC_TERMINATED\<rparr> else reap_entry e) (proc_table s) \<and>
    vmm_rep t (fold reap_region (proc_table (kill_proc v s)) rs) \<and>
    shown t = last_rows (shown s @ [prompt_row P (shell_line s), asc ''Killed PID'' @ map (junk P 0) [10..<80]])"
proof (rule shell_enter [OF assms(1), of P])
  show "shell_line s \<noteq> []" by (simp add: assms(2) asc_def)
  fix b h n
  let ?u = "s\<lparr>cmd_buf := b, terminal_history := h, history_lines := n\<rparr>"
  let ?r = "asc ''Killed PID'' @ map (junk P 0) [10..<80]" and ?p = "prompt_row P (shell_line s)"
  assume b: "b = shell_line s @ 0 # drop (Suc (unat (cmd_pos s))) (cmd_buf s)"
    and u: "shown ?u = last_rows (shown s @ [?p])"
    and t: "\<And>r v. dispatch P ?u = Some (r, v) \<Longrightarrow> \<exists>t. shell_putc P 13 s = Some t \<and> shell_ok t \<and> shell_line t = [] \<and>
         shown t = last_rows (shown v @ [r]) \<and> after_enter v t"
  have tb: "proc_table ?u = proc_table s" by simp
  have k: "proc_table (kill_proc v ?u) = proc_table (kill_proc v s)"
    by (simp add: kill_proc_def get_proc_by_pid_def split: option.split)
  have "cmd_buf ?u = (asc ''pkill '' @ dec_text v) @ 0 # drop (Suc (unat (cmd_pos s))) (cmd_buf s)"
    "v \<in> pid ` set (proc_table ?u)" "proc_inv ?u" "vmm_rep ?u rs"
    using assms(2,4-6) by (simp_all add: b proc_inv_def vmm_rep_def del: append_assoc)
  note run = dispatch_pkill_run [OF this(1) assms(3) this(2-4), of P, unfolded k tb]
  obtain w where w: "dispatch P ?u = Some (?r, w)" "shell_part w = shell_part ?u" "proc_inv w"
    "proc_table w = map (\<lambda>e. if pid e = v then e\<lparr>pid := 0, status := PROC_TERMINATED\<rparr> else reap_entry e) (proc_table s)"
    "vmm_rep w (fold reap_region (proc_table (kill_proc v s)) rs)"
    by (rule run) (rule that)
  have "shown w = last_rows (shown s @ [?p])" using shell_part_cong(3) [OF w(2)] u by simp
  then have "last_rows (shown w @ [?r]) = last_rows (shown s @ [?p, ?r])"
    using last_rows_again [of "shown s @ [?p]" ?r] by simp
  moreover obtain t where "shell_putc P 13 s = Some t" "shell_ok t" "shell_line t = []"
    "shown t = last_rows (shown w @ [?r])" and e: "after_enter w t"
    using t [OF w(1)] by blast
  moreover note after_enter_fields [OF e]
  ultimately show ?thesis using w(3-5) by (intro exI [of _ t] conjI) (simp_all only:)
qed

theorem shell_pkill_kills_witness:
  "(case shell_putc sample_env 13 (sample_shell ''pkill 2''\<lparr>proc_table := sample_table PROC_RUNNING\<rparr>) of None \<Rightarrow> False
    | Some t \<Rightarrow> proc_table t ! 0 = sample_pcb 0 PROC_TERMINATED \<and> shell_line t = [])"
proof -
  let ?s = "sample_shell ''pkill 2''\<lparr>proc_table := sample_table PROC_RUNNING\<rparr>"
  have part: "shell_part ?s = shell_part (sample_shell ''pkill 2'')" by (simp add: shell_part_def)
  have "shell_ok (sample_shell ''pkill 2'')" "shell_line (sample_shell ''pkill 2'') = asc ''pkill 2''"
    by (rule sample_shell_ok; simp)+
  then have ok: "shell_ok ?s" "shell_line ?s = asc ''pkill 2''" using shell_part_cong [OF part] by simp_all
  have line: "asc ''pkill 2'' = asc ''pkill '' @ dec_text 2"
    by code_simp
  have tbl: "(2 :: u64) \<in> pid ` set (proc_table ?s)" by (simp add: sample_table_def sample_pcb_def)
  have inv: "proc_inv ?s" using sample_table_inv [of PROC_RUNNING] by (simp add: proc_inv_def)
  have "vma_list ?s = None"
    by (simp add: sample_shell_def sys_state.defs sample_sys_def ide_state.defs sample_ide_def pci_state.defs
        sample_pci_def intr_state.defs sample_intr_def fb_state.defs sample_fb_def)
  then have rep: "vmm_rep ?s []" by (simp add: vmm_rep_def)
  from shell_pkill_kills [OF ok(1) ok(2) [unfolded line] _ tbl inv rep, of sample_env]
  obtain t where "shell_putc sample_env 13 ?s = Some t" "shell_line t = []"
    "proc_table t = map (\<lambda>e. if pid e = 2 then e\<lparr>pid := 0, status := PROC_TERMINATED\<rparr> else reap_entry e) (proc_table ?s)"
    by auto
  then show ?thesis by (simp add: sample_table_def sample_pcb_def)
qed

lemma append_str_full: "\<not> snd l + 1 < cap \<Longrightarrow> append_str cap xs l = l"
  by (cases xs; cases l) simp_all

lemma append_dec_full: "\<not> snd l + 1 < cap \<Longrightarrow> append_dec cap v l = l"
  by (cases l) (simp add: append_dec_def Let_def append_str_full)

lemma drive_text_full: "\<not> snd l + 1 < 256 \<Longrightarrow> drive_text name p n l = l"
  by (simp add: drive_text_def sh_append_str_def sh_append_dec_def append_str_full append_dec_full)

lemma dispatch_ideinfo:
  assumes "cmd_buf s = asc ''ideinfo'' @ 0 # rest"
  shows "dispatch P s = cmd_ideinfo P s"
proof -
  have c: "c_string (cmd_buf s) = asc ''ideinfo''" by (simp add: assms asc_def c_string_def)
  have "\<forall>w \<in> whole_commands. strcmp (asc ''ideinfo'') w = 0 \<longleftrightarrow> w = asc ''ideinfo''"
    unfolding whole_commands_def by code_simp
  moreover have "asc ''help'' \<noteq> asc ''ideinfo''" "asc ''info'' \<noteq> asc ''ideinfo''" "asc ''testmem'' \<noteq> asc ''ideinfo''"
    "asc ''spawn'' \<noteq> asc ''ideinfo''"
    by (simp_all add: asc_def)
  moreover have "take 3 (cmd_buf s) \<noteq> asc ''get''" "take 5 (cmd_buf s) \<noteq> asc ''pkill''" by (simp_all add: assms asc_def)
  ultimately show ?thesis by (simp add: dispatch_def Let_def whole_commands_def c)
qed

lemma last_rows_shown: "shell_ok s \<Longrightarrow> last_rows (shown s) = shown s"
  by (auto simp: last_rows_def shown_def dest!: shell_ok_bounds(2))

lemma last_rows_more:
  "last_rows (last_rows (rows @ replicate k r) @ [r]) = last_rows (rows @ replicate (Suc k) r)"
  unfolding last_rows_again by (simp add: replicate_append_same del: replicate_Suc) (simp add: replicate_append_same)

lemma history_repeat:
  assumes "shell_ok s"
  shows "shell_ok ((add_to_history f str ^^ k) s) \<and>
    shown ((add_to_history f str ^^ k) s) = last_rows (shown s @ replicate k (read_n f LINE_LEN str))"
proof (induction k)
  case 0
  show ?case using assms by (simp add: last_rows_shown)
next
  case (Suc k)
  note h = add_to_history_shown [OF conjunct1 [OF Suc], of f str]
  have "shown ((add_to_history f str ^^ Suc k) s) = last_rows (last_rows (shown s @ replicate k (read_n f LINE_LEN str)) @ [read_n f LINE_LEN str])"
    using h(2) unfolding conjunct2 [OF Suc] by simp
  then show ?case using h(1) unfolding last_rows_more by simp
qed

lemma cmd_ideinfo_blank:
  assumes "256 \<le> msg_addr P + 1"
  shows "cmd_ideinfo P s = Some (asc ''IDE info printed'' @ map (junk P 0) [16..<80],
    (add_to_history (junk P 14) (junk_array (junk P 15) 256) ^^ 5) s)"
proof -
  let ?msg = "junk_array (junk P 15) 256"
  have full: "\<not> snd (?msg, msg_addr P) + 1 < 256" using assms by simp
  have blank: "ide_line P w (?msg, u) = (?msg, add_to_history (junk P 14) ?msg u)"
    if "w (?msg, msg_addr P) = (?msg, msg_addr P)" for w u
    using that by (simp add: ide_line_def Let_def)
  have str: "ide_line P (sh_append_str 256 xs) (?msg, u) = (?msg, add_to_history (junk P 14) ?msg u)" for xs u
    by (rule blank) (simp only: sh_append_str_def append_str_full [OF full])
  have drv: "ide_line P (drive_text name p n) (?msg, u) = (?msg, add_to_history (junk P 14) ?msg u)" for name p n u
    by (rule blank) (rule drive_text_full [OF full])
  have "respond P ''IDE info printed'' 16 u = Some (asc ''IDE info printed'' @ map (junk P 0) [16..<80], u)" for u
    by (rule respond_text) simp_all
  then show ?thesis
    unfolding cmd_ideinfo_def Let_def str drv snd_conv by (simp add: numeral_eq_Suc)
qed

text \<open>C40: \<^verbatim>\<open>ideinfo\<close> shows nothing of the drives: it passes the address of its buffer as the
  write position, so with the buffer anywhere above the first 255 bytes no text is ever written, and the
  command adds five copies of the uninitialised buffer to the history, whatever drives there are.\<close>

theorem shell_ideinfo_blank:
  assumes "shell_ok s" "shell_line s = asc ''ideinfo''" "256 \<le> msg_addr P + 1"
  shows "\<exists>t. shell_putc P 13 s = Some t \<and> shell_ok t \<and> shell_line t = [] \<and>
    shown t = last_rows (shown s @ [prompt_row P (shell_line s)] @
      replicate 5 (read_n (junk P 14) 80 (junk_array (junk P 15) 256)) @
      [asc ''IDE info printed'' @ map (junk P 0) [16..<80]])"
proof (rule shell_enter [OF assms(1), of P])
  show "shell_line s \<noteq> []" by (simp add: assms(2) asc_def)
  fix b h n
  let ?u = "s\<lparr>cmd_buf := b, terminal_history := h, history_lines := n\<rparr>"
  let ?r = "asc ''IDE info printed'' @ map (junk P 0) [16..<80]" and ?p = "prompt_row P (shell_line s)"
  let ?row = "read_n (junk P 14) 80 (junk_array (junk P 15) 256)"
  let ?v = "(add_to_history (junk P 14) (junk_array (junk P 15) 256) ^^ 5) ?u"
  assume b: "b = shell_line s @ 0 # drop (Suc (unat (cmd_pos s))) (cmd_buf s)"
    and u: "shell_ok ?u" "shown ?u = last_rows (shown s @ [?p])"
    and t: "\<And>r v. dispatch P ?u = Some (r, v) \<Longrightarrow> \<exists>t. shell_putc P 13 s = Some t \<and> shell_ok t \<and> shell_line t = [] \<and>
         shown t = last_rows (shown v @ [r]) \<and> after_enter v t"
  have "dispatch P ?u = Some (?r, ?v)"
    using dispatch_ideinfo [of ?u _ P] cmd_ideinfo_blank [OF assms(3)] by (simp add: b assms(2))
  from t [OF this] obtain t where "shell_putc P 13 s = Some t" "shell_ok t" "shell_line t = []"
    "shown t = last_rows (shown ?v @ [?r])" by blast
  moreover have "shown ?v = last_rows (shown ?u @ replicate 5 ?row)" using history_repeat [OF u(1)] by blast
  moreover have "last_rows (last_rows (last_rows (shown s @ [?p]) @ replicate 5 ?row) @ [?r]) =
      last_rows (shown s @ [?p] @ replicate 5 ?row @ [?r])"
    by (simp only: last_rows_again last_rows_append append_assoc)
  ultimately show ?thesis unfolding u(2) by metis
qed

theorem shell_ideinfo_blank_witness:
  "(case shell_putc sample_env 13 (sample_shell ''ideinfo'') of None \<Rightarrow> False
    | Some t \<Rightarrow> length (shown t) = 7 \<and> shown t ! 1 = replicate 80 0xCC)"
proof -
  let ?s = "sample_shell ''ideinfo''"
  have ok: "shell_ok ?s" "shell_line ?s = asc ''ideinfo''" "shown ?s = []" by (rule sample_shell_ok; simp)+
  have env: "256 \<le> msg_addr sample_env + 1" by (simp add: sample_env_def)
  have row: "read_n (junk sample_env 14) 80 (junk_array (junk sample_env 15) 256) = replicate 80 0xCC"
    by (intro nth_equalityI) (simp_all add: read_n_def junk_array_def sample_env_def)
  obtain t p q where "shell_putc sample_env 13 ?s = Some t" "shown t = last_rows ([p] @ replicate 5 (replicate 80 0xCC) @ [q])"
    using shell_ideinfo_blank [OF ok(1,2) env] unfolding ok(3) row by (auto simp del: replicate_Suc)
  moreover have "last_rows ([p] @ replicate 5 (replicate 80 0xCC) @ [q]) = [p] @ replicate 5 (replicate 80 0xCC) @ [q]"
    by (simp add: last_rows_def)
  ultimately show ?thesis by (simp add: nth_append)
qed

end
